(* ===== verification/Prelude.thy ===== *)
theory Prelude
  imports Main "HOL-Library.Word" "HOL-Library.AList" "HOL-Library.Multiset"
begin

text \<open>
  The vocabulary every component of the gateway shares.

  \<^item> Types: \<open>u64\<close> and \<open>rank\<close> are the C++ types \<^verbatim>\<open>uint64_t\<close> and
    \<^verbatim>\<open>uint16_t\<close>; a \<^verbatim>\<open>std::string\<close> is a \<open>string\<close> (a list of bytes); a
    \<^verbatim>\<open>std::unordered_map\<close> is an association list (\<open>umap\<close>) whose order is the
    iteration order, which C++ leaves open: no theorem depends on it.
  \<^item> Errors: a C++ exception is a value of \<open>exn\<close>, a function that may throw returns
    \<open>exn + 'a\<close>.
  \<^item> The JSON library (nlohmann::json) is not part of the repository. It is the parameter
    \<open>J\<close>, a record of the operations the code calls; its values have an abstract type
    \<open>'j\<close>. What a theorem relies on is written as a hypothesis on \<open>J\<close>.
  \<^item> Generic lemmas on substring search, association lists and words.
\<close>

named_theorems pf_defs "definitions of the operations, for unfolding"
named_theorems pf_frames "what an operation leaves unchanged"

section \<open>Types\<close>

type_synonym u64 = "64 word"
type_synonym rank = "16 word"
type_synonym ('k, 'v) umap = "('k \<times> 'v) list"

datatype exn =
    TypeError          \<comment> \<open>\<^verbatim>\<open>nlohmann::json::type_error\<close>\<close>
  | RuntimeError string \<comment> \<open>\<^verbatim>\<open>std::runtime_error\<close> with its message\<close>
  | OutOfRange         \<comment> \<open>\<^verbatim>\<open>std::out_of_range\<close>\<close>
  | InvalidArgument    \<comment> \<open>\<^verbatim>\<open>std::invalid_argument\<close>\<close>
  | StackOverflow      \<comment> \<open>recursion deeper than the call stack\<close>

section \<open>unordered maps\<close>

abbreviation um_find :: "('k, 'v) umap \<Rightarrow> 'k \<Rightarrow> 'v option" where
  "um_find m k \<equiv> map_of m k"

abbreviation um_set :: "'k \<Rightarrow> 'v \<Rightarrow> ('k, 'v) umap \<Rightarrow> ('k, 'v) umap" where
  "um_set k v m \<equiv> AList.update k v m"

abbreviation um_erase :: "'k \<Rightarrow> ('k, 'v) umap \<Rightarrow> ('k, 'v) umap" where
  "um_erase k m \<equiv> AList.delete k m"

text \<open>\<^verbatim>\<open>m[k]\<close> on a missing key inserts the default value; \<open>um_at\<close> is the value read.\<close>

definition um_at :: "'v \<Rightarrow> ('k, 'v) umap \<Rightarrow> 'k \<Rightarrow> 'v" where
  "um_at d m k = (case um_find m k of None \<Rightarrow> d | Some v \<Rightarrow> v)"

definition um_wf :: "('k, 'v) umap \<Rightarrow> bool" where
  "um_wf m \<longleftrightarrow> distinct (map fst m)"

section \<open>strings\<close>

fun sv_find :: "string \<Rightarrow> string \<Rightarrow> nat option" where
  "sv_find pat [] = (if pat = [] then Some 0 else None)"
| "sv_find pat (c # cs) =
     (if take (length pat) (c # cs) = pat then Some 0 else map_option Suc (sv_find pat cs))"

definition sv_substr :: "string \<Rightarrow> nat \<Rightarrow> nat \<Rightarrow> string" where
  "sv_substr s pos n = take n (drop pos s)"

fun sv_rfind_char :: "char \<Rightarrow> string \<Rightarrow> nat option" where
  "sv_rfind_char x [] = None"
| "sv_rfind_char x (c # cs) =
     (case sv_rfind_char x cs of
        Some i \<Rightarrow> Some (Suc i)
      | None \<Rightarrow> if c = x then Some 0 else None)"

text \<open>\<^verbatim>\<open>std::to_string\<close> of an unsigned integer.\<close>

fun nat_digits :: "nat \<Rightarrow> string" where
  "nat_digits n = (if n < 10 then [char_of (48 + n)] else nat_digits (n div 10) @ [char_of (48 + n mod 10)])"

declare nat_digits.simps [simp del]

text \<open>Bytes of a string literal outside ASCII, given by their codes.\<close>

definition utf8 :: "nat list \<Rightarrow> string" where
  "utf8 bs = map char_of bs"

section \<open>The JSON library as a parameter\<close>

record 'j json_api =
  j_null :: 'j
  j_bool :: "bool \<Rightarrow> 'j"
  j_int :: "int \<Rightarrow> 'j"
  j_uint :: "u64 \<Rightarrow> 'j"
  j_str :: "string \<Rightarrow> 'j"
  j_arr :: "'j list \<Rightarrow> 'j"
  j_obj :: "(string \<times> 'j) list \<Rightarrow> 'j"
  j_is_null :: "'j \<Rightarrow> bool"
  j_is_object :: "'j \<Rightarrow> bool"
  j_is_array :: "'j \<Rightarrow> bool"
  j_is_number_integer :: "'j \<Rightarrow> bool"
  j_empty :: "'j \<Rightarrow> bool"
  j_contains :: "'j \<Rightarrow> string \<Rightarrow> bool"
  j_at :: "'j \<Rightarrow> string \<Rightarrow> 'j"
  j_put :: "'j \<Rightarrow> string \<Rightarrow> 'j \<Rightarrow> 'j"
  j_erase :: "'j \<Rightarrow> string \<Rightarrow> 'j"
  j_items :: "'j \<Rightarrow> (string \<times> 'j) list"
  j_elems :: "'j \<Rightarrow> 'j list"
  j_get_str :: "'j \<Rightarrow> string option"   \<comment> \<open>\<^verbatim>\<open>get<std::string>()\<close>; None: it throws\<close>
  j_get_int :: "'j \<Rightarrow> int"             \<comment> \<open>\<^verbatim>\<open>get<int>()\<close> of an integer\<close>
  j_get_i64 :: "'j \<Rightarrow> int"             \<comment> \<open>\<^verbatim>\<open>get<int64_t>()\<close> of an integer\<close>
  j_value_str :: "'j \<Rightarrow> string \<Rightarrow> string \<Rightarrow> string option"  \<comment> \<open>\<^verbatim>\<open>value(k, "...")\<close>; None: it throws\<close>
  j_value_int :: "'j \<Rightarrow> string \<Rightarrow> int \<Rightarrow> int option"
  j_value_u64 :: "'j \<Rightarrow> string \<Rightarrow> u64 \<Rightarrow> u64 option"
  j_dump :: "'j \<Rightarrow> string"
  j_parse :: "string \<Rightarrow> 'j option"     \<comment> \<open>\<^verbatim>\<open>parse(s, nullptr, false)\<close>; None: discarded\<close>

section \<open>Lemmas on decimal numbers\<close>

lemma nat_digits_small: "n < 10 \<Longrightarrow> nat_digits n = [char_of (48 + n)]"
  by (simp add: nat_digits.simps)

lemma nat_digits_big: "\<not> n < 10 \<Longrightarrow> nat_digits n = nat_digits (n div 10) @ [char_of (48 + n mod 10)]"
  by (simp add: nat_digits.simps [of n])

section \<open>Lemmas on maps\<close>

lemma um_wf_Nil [simp]: "um_wf []"
  by (simp add: um_wf_def)

lemma um_wf_set [simp]: "um_wf m \<Longrightarrow> um_wf (um_set k v m)"
  by (simp add: um_wf_def distinct_update)

lemma um_wf_erase [simp]: "um_wf m \<Longrightarrow> um_wf (um_erase k m)"
  by (simp add: um_wf_def distinct_delete)

lemma um_find_set: "um_find (um_set k v m) k' = (if k' = k then Some v else um_find m k')"
  by (simp add: update_conv')

lemma um_find_erase: "um_find (um_erase k m) k' = (if k' = k then None else um_find m k')"
  by (simp add: delete_conv')

lemma um_at_set [simp]: "um_at d (um_set k v m) k' = (if k' = k then v else um_at d m k')"
  by (simp add: um_at_def um_find_set)

lemma um_at_Nil [simp]: "um_at d [] k = d"
  by (simp add: um_at_def)

lemma um_wf_find: "um_wf m \<Longrightarrow> (k, v) \<in> set m \<Longrightarrow> um_find m k = Some v"
  by (simp add: um_wf_def)

lemma um_wf_find_iff: "um_wf m \<Longrightarrow> um_find m k = Some v \<longleftrightarrow> (k, v) \<in> set m"
  by (auto simp: um_wf_def dest: map_of_SomeD)

lemma um_find_key: "um_find m k = Some v \<Longrightarrow> k \<in> fst ` set m"
  by (metis map_of_eq_None_iff option.distinct(1))

lemma um_erase_mem: "p \<in> set (um_erase k m) \<longleftrightarrow> p \<in> set m \<and> fst p \<noteq> k"
  by (auto simp: AList.delete_eq)

lemma um_length_set: "um_find m k = None \<Longrightarrow> length (um_set k v m) = Suc (length m)"
  by (induction m) (auto split: if_splits)

lemma um_length_set_Some: "um_find m k = Some u \<Longrightarrow> length (um_set k v m) = length m"
  by (induction m) (auto split: if_splits)

lemma um_length_erase:
  "um_wf m \<Longrightarrow> um_find m k = Some u \<Longrightarrow> Suc (length (um_erase k m)) = length m"
proof (induction m)
  case (Cons a m)
  then show ?case
    by (cases a) (auto simp: um_wf_def image_iff dest: map_of_SomeD)
qed simp

text \<open>A sum over the values of a map changes only by the value that is replaced.\<close>

lemma um_sum_set:
  fixes f :: "'v \<Rightarrow> 'a :: comm_monoid_add"
  shows "um_find m k = None \<Longrightarrow>
    sum_list (map (f \<circ> snd) (um_set k v m)) = sum_list (map (f \<circ> snd) m) + f v"
  by (induction m) (auto split: if_splits simp: ac_simps)

lemma um_sum_set_Some:
  fixes f :: "'v \<Rightarrow> 'a :: comm_monoid_add"
  shows "um_find m k = Some u \<Longrightarrow>
    sum_list (map (f \<circ> snd) (um_set k v m)) + f u = sum_list (map (f \<circ> snd) m) + f v"
  by (induction m) (auto split: if_splits simp: ac_simps)

lemma um_sum_at_set:
  fixes f :: "'v \<Rightarrow> 'a :: comm_monoid_add"
  assumes "f d = 0"
  shows "sum_list (map (f \<circ> snd) (um_set k v m)) + f (um_at d m k) = sum_list (map (f \<circ> snd) m) + f v"
  using um_sum_set [of m k f v] um_sum_set_Some [of m k _ f v] assms
  by (cases "um_find m k") (simp_all add: um_at_def)

section \<open>Interface: a keyed store\<close>

text \<open>
  A store filled by overwriting writes, as the gateway fills its tables from the
  configuration: a lookup after a sequence of writes finds the last write to the key.
\<close>

locale kv_store =
  fixes find_in :: "'s \<Rightarrow> 'k \<Rightarrow> 'v option"
    and put_in :: "'k \<Rightarrow> 'v \<Rightarrow> 's \<Rightarrow> 's"
  assumes find_put: "find_in (put_in k v s) k' = (if k' = k then Some v else find_in s k')"
begin

lemma find_fold_put:
  "find_in (fold (\<lambda>x. put_in (key x) (val x)) xs s) k =
     (case find (\<lambda>x. key x = k) (rev xs) of
        Some x \<Rightarrow> Some (val x)
      | None \<Rightarrow> find_in s k)"
  by (induction xs rule: rev_induct) (auto simp: find_put)

lemma find_fold_put_mem:
  assumes "find_in (fold (\<lambda>x. put_in (key x) (val x)) xs s) k = Some v" "find_in s k = None"
  shows "\<exists>x \<in> set xs. key x = k \<and> val x = v"
  using assms by (auto simp: find_fold_put find_Some_iff split: option.splits)
    (metis length_rev nth_mem set_rev)

lemma find_fold_put_distinct:
  assumes "distinct (map key xs)" "x \<in> set xs"
  shows "find_in (fold (\<lambda>x. put_in (key x) (val x)) xs s) (key x) = Some (val x)"
proof -
  have "find (\<lambda>y. key y = key x) (rev xs) = Some x"
  proof (cases "find (\<lambda>y. key y = key x) (rev xs)")
    case None
    then show ?thesis using assms(2) by (auto simp: find_None_iff)
  next
    case (Some y)
    then have "y \<in> set xs" "key y = key x"
      by (auto simp: find_Some_iff) (metis length_rev nth_mem set_rev)
    then have "y = x" using assms by (meson distinct_map inj_onD)
    then show ?thesis using Some by simp
  qed
  then show ?thesis by (simp add: find_fold_put)
qed

end

section \<open>Lemmas on substring search\<close>

lemma sv_find_None_iff: "sv_find pat s = None \<longleftrightarrow> (\<forall>i \<le> length s. take (length pat) (drop i s) \<noteq> pat)"
proof (induction s)
  case (Cons c s)
  have "(\<forall>i \<le> length (c # s). take (length pat) (drop i (c # s)) \<noteq> pat) \<longleftrightarrow>
    take (length pat) (c # s) \<noteq> pat \<and> (\<forall>i \<le> length s. take (length pat) (drop i s) \<noteq> pat)"
    using All_less_Suc2 [of "Suc (length s)" "\<lambda>i. take (length pat) (drop i (c # s)) \<noteq> pat"]
    by (simp add: less_Suc_eq_le)
  with Cons show ?case by simp
qed simp

lemma sv_find_Some_iff:
  "sv_find pat s = Some i \<longleftrightarrow>
     i \<le> length s \<and> take (length pat) (drop i s) = pat \<and>
     (\<forall>j < i. take (length pat) (drop j s) \<noteq> pat)"
proof (induction s arbitrary: i)
  case (Cons c s)
  show ?case
  proof (cases i)
    case (Suc n)
    with Cons show ?thesis
      by (auto simp: All_less_Suc2)
  qed simp
qed auto

lemma sv_find_split:
  assumes "sv_find pat s = Some i"
  shows "s = take i s @ pat @ drop (i + length pat) s"
proof -
  from assms have "take (length pat) (drop i s) = pat"
    by (simp add: sv_find_Some_iff)
  then have "drop i s = pat @ drop (length pat) (drop i s)"
    by (metis append_take_drop_id)
  then show ?thesis
    by (metis append_take_drop_id drop_drop add.commute)
qed

lemma sv_rfind_char_None: "sv_rfind_char x s = None \<longleftrightarrow> x \<notin> set s"
  by (induction s) (auto split: option.splits)

lemma sv_rfind_char_Some:
  "sv_rfind_char x s = Some i \<Longrightarrow> i < length s \<and> s ! i = x \<and> x \<notin> set (drop (Suc i) s)"
proof (induction s arbitrary: i)
  case (Cons c s)
  then show ?case
    by (auto split: option.splits if_splits simp: sv_rfind_char_None)
qed simp

section \<open>Runs that decrease a measure\<close>

lemma no_endless_run:
  assumes "\<And>i. (m (f (Suc i)) :: nat) < m (f i)"
  shows False
proof -
  have "\<exists>g. \<forall>i. (g (Suc i), g i) \<in> less_than" using assms by (intro exI [of _ "\<lambda>i. m (f i)"]) simp
  then show False using wf_less_than unfolding wf_iff_no_infinite_down_chain by blast
qed

end
