(* ===== verification/Json_Sample.thy ===== *)
theory Json_Sample
  imports Prelude
begin

text \<open>
  A concrete instance of the JSON parameter, used only to show that the hypotheses of
  theorems about \<open>J\<close> can hold: JSON values as a datatype, the operations with the
  documented behaviour on them, numbers as integers, a parser that knows two texts.
\<close>

datatype jv =
    JNull | JBool bool | JInt int | JStr string | JArr "jv list" | JObj "(string \<times> jv) list"

primrec jv_dump :: "jv \<Rightarrow> string" where
  "jv_dump JNull = ''null''"
| "jv_dump (JBool b) = (if b then ''true'' else ''false'')"
| "jv_dump (JInt i) = (if i < 0 then ''-'' else []) @ nat_digits (nat \<bar>i\<bar>)"
| "jv_dump (JStr s) = [CHR 0x22] @ s @ [CHR 0x22]"
| "jv_dump (JArr xs) = ''['' @ concat (map (\<lambda>d. d @ '','') (map jv_dump xs)) @ '']''"
| "jv_dump (JObj kvs) =
     ''{'' @ concat (map (\<lambda>(k, d). [CHR 0x22] @ k @ [CHR 0x22] @ '':'' @ d @ '','')
       (map (map_prod id jv_dump) kvs)) @ ''}''"

fun jv_fields :: "jv \<Rightarrow> (string \<times> jv) list" where
  "jv_fields (JObj kvs) = kvs"
| "jv_fields _ = []"

fun jv_is_obj :: "jv \<Rightarrow> bool" where
  "jv_is_obj (JObj kvs) = True"
| "jv_is_obj _ = False"

fun jv_is_arr :: "jv \<Rightarrow> bool" where
  "jv_is_arr (JArr xs) = True"
| "jv_is_arr _ = False"

fun jv_is_int :: "jv \<Rightarrow> bool" where
  "jv_is_int (JInt i) = True"
| "jv_is_int _ = False"

fun jv_elems :: "jv \<Rightarrow> jv list" where
  "jv_elems (JArr xs) = xs"
| "jv_elems _ = []"

fun jv_get_str :: "jv \<Rightarrow> string option" where
  "jv_get_str (JStr s) = Some s"
| "jv_get_str _ = None"

fun jv_get_int :: "jv \<Rightarrow> int" where
  "jv_get_int (JInt i) = i"
| "jv_get_int _ = 0"

definition jv_at :: "jv \<Rightarrow> string \<Rightarrow> jv" where
  "jv_at j k = (case map_of (jv_fields j) k of None \<Rightarrow> JNull | Some v \<Rightarrow> v)"

definition jv_contains :: "jv \<Rightarrow> string \<Rightarrow> bool" where
  "jv_contains j k \<longleftrightarrow> map_of (jv_fields j) k \<noteq> None"

definition jv_api :: "jv json_api" where
  "jv_api =
    \<lparr>j_null = JNull, j_bool = JBool, j_int = JInt, j_uint = (\<lambda>u. JInt (uint u)), j_str = JStr,
     j_arr = JArr, j_obj = JObj,
     j_is_null = (\<lambda>j. j = JNull), j_is_object = jv_is_obj, j_is_array = jv_is_arr,
     j_is_number_integer = jv_is_int,
     j_empty = (\<lambda>j. j = JNull \<or> j = JArr [] \<or> j = JObj []),
     j_contains = jv_contains, j_at = jv_at,
     j_put = (\<lambda>j k v. JObj (um_set k v (jv_fields j))),
     j_erase = (\<lambda>j k. JObj (um_erase k (jv_fields j))),
     j_items = jv_fields, j_elems = jv_elems,
     j_get_str = jv_get_str, j_get_int = jv_get_int, j_get_i64 = jv_get_int,
     j_value_str = (\<lambda>j k d. if \<not> jv_is_obj j then None
        else if jv_contains j k then jv_get_str (jv_at j k) else Some d),
     j_value_int = (\<lambda>j k d. if \<not> jv_is_obj j then None
        else if jv_contains j k then (if jv_is_int (jv_at j k) then Some (jv_get_int (jv_at j k)) else None)
        else Some d),
     j_value_u64 = (\<lambda>j k d. if \<not> jv_is_obj j then None
        else if jv_contains j k then (if jv_is_int (jv_at j k) then Some (of_int (jv_get_int (jv_at j k))) else None)
        else Some d),
     j_dump = jv_dump,
     j_parse = (\<lambda>s. if s = ''{}'' then Some (JObj []) else if s = ''null'' then Some JNull else None)\<rparr>"

end
