(* ===== verification/Ir.thy ===== *)
theory Ir
  imports Json_Sample
begin

text \<open>
  The intermediate representation that crosses every layer
  (\<^verbatim>\<open>include/perfacet/ir\<close>, \<^verbatim>\<open>src/ir\<close>): tool keys, failure classes, principals,
  requests and responses. Lemmas: printing and parsing of tool keys are inverse to each
  other exactly where no backend name ends in an underscore; failure-class names are a
  bijection; visibility is monotone in the rank; \<open>classify\<close> on every branch.
\<close>

section \<open>Constants of the protocol (ClientCaps.h)\<close>

definition kProtocolVersion :: string where "kProtocolVersion = ''2026-07-28''"
definition kTasksExt :: string where "kTasksExt = ''io.modelcontextprotocol/tasks''"
definition kMetaProtocol :: string where "kMetaProtocol = ''io.modelcontextprotocol/protocolVersion''"
definition kMetaCaps :: string where "kMetaCaps = ''io.modelcontextprotocol/clientCapabilities''"
definition kConfirmKey :: string where "kConfirmKey = ''perfacet/confirm''"
definition kMetaTimeoutMs :: string where "kMetaTimeoutMs = ''perfacet/timeout_ms''"

record ClientCaps =
  c_tasks :: bool

definition ClientCaps_has :: "ClientCaps \<Rightarrow> string \<Rightarrow> bool" where
  "ClientCaps_has c ext \<longleftrightarrow> ext = kTasksExt \<and> c_tasks c"

section \<open>Tool keys (ToolKey.h, ToolKey.cpp)\<close>

record ToolKey =
  tk_backend :: string
  tk_tool :: string

definition ToolKey_parse :: "string \<Rightarrow> ToolKey option" where
  "ToolKey_parse s =
     (case sv_find ''__'' s of
        None \<Rightarrow> None
      | Some pos \<Rightarrow>
          if pos = 0 \<or> pos + 2 \<ge> length s then None
          else Some \<lparr>tk_backend = sv_substr s 0 pos, tk_tool = drop (pos + 2) s\<rparr>)"

definition ToolKey_str :: "ToolKey \<Rightarrow> string" where
  "ToolKey_str k = tk_backend k @ ''__'' @ tk_tool k"

section \<open>Failure classes (classify.h, classify.cpp)\<close>

datatype FailureClass =
    Ok | Cancelled | Timeout | Unavailable | Throttled | Protocol | Capability | Upstream
  | Authz | Internal

definition kRows :: "(FailureClass \<times> string) list" where
  "kRows =
    [(Ok, ''Ok''), (Cancelled, ''Cancelled''), (Timeout, ''Timeout''),
     (Unavailable, ''Unavailable''), (Throttled, ''Throttled''), (Protocol, ''Protocol''),
     (Capability, ''Capability''), (Upstream, ''Upstream''), (Authz, ''Authz''),
     (Internal, ''Internal'')]"

definition failureClassName :: "FailureClass \<Rightarrow> string" where
  "failureClassName k =
     (case find (\<lambda>r. fst r = k) kRows of Some r \<Rightarrow> snd r | None \<Rightarrow> ''Internal'')"

definition failureClassFromName :: "string \<Rightarrow> FailureClass option" where
  "failureClassFromName nm = map_option fst (find (\<lambda>r. nm = snd r) kRows)"

text \<open>The values of \<^verbatim>\<open>std::error_code\<close> that the classifier tells apart.\<close>

datatype errc =
    timed_out | connection_refused | host_unreachable | network_unreachable
  | operation_canceled | other_errc int

section \<open>Principals, requests, responses (Request.h)\<close>

record Principal =
  p_agentId :: string
  p_level :: rank
  p_grantBump :: rank
  p_hasLevel :: bool
  p_admin :: bool
  p_levelName :: string

definition effectiveRank :: "Principal \<Rightarrow> rank" where
  "effectiveRank w = (if p_level w > p_grantBump w then p_level w else p_grantBump w)"

definition visible :: "Principal \<Rightarrow> rank \<Rightarrow> bool" where
  "visible who mcpLevel \<longleftrightarrow> p_hasLevel who \<and> effectiveRank who \<ge> mcpLevel"

record BackendMeta =
  bm_level :: rank
  bm_secret :: bool
  bm_idempotentTools :: "string list"

definition BackendMeta_default :: BackendMeta where
  "BackendMeta_default = \<lparr>bm_level = 0, bm_secret = False, bm_idempotentTools = []\<rparr>"

record TraceContext =
  t_traceId :: string
  t_spanId :: string
  t_parentSpanId :: string

definition TraceContext_default :: TraceContext where
  "TraceContext_default = \<lparr>t_traceId = [], t_spanId = [], t_parentSpanId = []\<rparr>"

record 'j Request =
  rq_method :: string
  rq_name :: string
  rq_upstreamId :: string
  rq_idJson :: 'j
  rq_params :: 'j
  rq_meta :: 'j
  rq_who :: Principal
  rq_trace :: TraceContext
  rq_deadlineMs :: u64
  rq_caps :: ClientCaps

record 'j BackendCall =
  bc_method :: string
  bc_name :: string
  bc_params :: 'j
  bc_meta :: 'j
  bc_deadlineMs :: u64
  bc_trace :: TraceContext

record 'j Response =
  r_upstreamId :: string
  r_body :: 'j
  r_isError :: bool
  r_klass :: FailureClass
  r_gatewayMs :: u64
  r_upstreamMs :: u64
  r_httpStatus :: int

definition Response_default :: "'j json_api \<Rightarrow> 'j Response" where
  "Response_default J =
     \<lparr>r_upstreamId = [], r_body = j_null J, r_isError = False, r_klass = Ok,
      r_gatewayMs = 0, r_upstreamMs = 0, r_httpStatus = 200\<rparr>"

definition classify :: "'j json_api \<Rightarrow> 'j Response \<Rightarrow> errc option \<Rightarrow> bool \<Rightarrow> FailureClass" where
  "classify J r ec gatewayOwn =
    (let rest =
       (if r_klass r \<noteq> Ok then r_klass r
        else if \<not> r_isError r then Ok
        else if j_is_object J (r_body r) \<and> j_contains J (r_body r) ''code'' \<and>
                j_is_number_integer J (j_at J (r_body r) ''code'')
        then (let code = j_get_int J (j_at J (r_body r) ''code'') in
              if code = -32021 then (if gatewayOwn then Capability else Upstream)
              else if code = -32600 \<or> code = -32601 \<or> code = -32602 \<or> code = -32700
              then Protocol else Upstream)
        else Upstream)
     in case ec of
          None \<Rightarrow> rest
        | Some e \<Rightarrow>
            if e = timed_out then Timeout
            else if e = connection_refused \<or> e = host_unreachable \<or> e = network_unreachable
            then Unavailable
            else if e = operation_canceled then Cancelled
            else rest)"

definition callToolText :: "'j json_api \<Rightarrow> string \<Rightarrow> bool \<Rightarrow> 'j" where
  "callToolText J txt isError =
     j_obj J [(''content'', j_arr J [j_obj J [(''type'', j_str J ''text''), (''text'', j_str J txt)]]),
              (''isError'', j_bool J isError)]"

definition jsonRpcError :: "'j json_api \<Rightarrow> int \<Rightarrow> string \<Rightarrow> 'j \<Rightarrow> 'j" where
  "jsonRpcError J code msg data =
     (let err = j_obj J [(''code'', j_int J code), (''message'', j_str J msg)] in
      if \<not> j_is_null J data \<and> \<not> j_empty J data then j_put J err ''data'' data else err)"

section \<open>Failure classes as a finite type\<close>

instantiation FailureClass :: enum
begin

definition enum_FailureClass :: "FailureClass list" where
  "enum_FailureClass = map fst kRows"

definition enum_all_FailureClass :: "(FailureClass \<Rightarrow> bool) \<Rightarrow> bool" where
  "enum_all_FailureClass P \<longleftrightarrow> list_all P (map fst kRows)"

definition enum_ex_FailureClass :: "(FailureClass \<Rightarrow> bool) \<Rightarrow> bool" where
  "enum_ex_FailureClass P \<longleftrightarrow> list_ex P (map fst kRows)"

instance
proof
  have mem: "k \<in> set (map fst kRows)" for k :: FailureClass
    by (cases k) (simp_all add: kRows_def)
  then have all: "set (map fst kRows) = UNIV" by blast
  show "UNIV = set (enum_class.enum :: FailureClass list)"
    by (simp only: enum_FailureClass_def all)
  show "distinct (enum_class.enum :: FailureClass list)"
    by (simp add: enum_FailureClass_def kRows_def)
  show "enum_class.enum_all P = Ball UNIV P" for P :: "FailureClass \<Rightarrow> bool"
    by (simp only: enum_all_FailureClass_def list_all_iff all)
  show "enum_class.enum_ex P = Bex UNIV P" for P :: "FailureClass \<Rightarrow> bool"
    by (simp only: enum_ex_FailureClass_def list_ex_iff all)
qed

end

section \<open>Tool keys: printing and parsing\<close>

lemma sv_find_sep:
  "sv_find ''__'' b = None \<Longrightarrow> (b = [] \<or> last b \<noteq> CHR ''_'') \<Longrightarrow>
   sv_find ''__'' (b @ ''__'' @ t) = Some (length b)"
proof (induction b)
  case (Cons c b)
  have "take 2 (c # b @ CHR ''_'' # CHR ''_'' # t) \<noteq> ''__''"
    using Cons.prems by (cases b) (auto split: if_splits simp: numeral_2_eq_2)
  with Cons show ?case
    by (auto split: if_splits simp: numeral_2_eq_2)
qed (simp add: numeral_2_eq_2)

lemma sv_find_sep_conv:
  assumes "sv_find ''__'' (b @ ''__'' @ t) = Some (length b)"
  shows "sv_find ''__'' b = None \<and> (b = [] \<or> last b \<noteq> CHR ''_'')"
  using assms
proof (induction b)
  case (Cons c b)
  then have ne: "take 2 (c # b @ CHR ''_'' # CHR ''_'' # t) \<noteq> ''__''"
    and "sv_find ''__'' (b @ ''__'' @ t) = Some (length b)"
    by (auto split: if_splits simp: numeral_2_eq_2)
  with Cons.IH have IH: "sv_find ''__'' b = None \<and> (b = [] \<or> last b \<noteq> CHR ''_'')"
    by blast
  with ne show ?case
    by (cases b) (auto simp: numeral_2_eq_2)
qed simp

lemma ToolKey_parse_Some:
  "ToolKey_parse s = Some k \<Longrightarrow>
     s = ToolKey_str k \<and> tk_backend k \<noteq> [] \<and> tk_tool k \<noteq> [] \<and>
     sv_find ''__'' (tk_backend k) = None \<and> last (tk_backend k) \<noteq> CHR ''_''"
proof -
  assume parse: "ToolKey_parse s = Some k"
  then obtain pos where pos: "sv_find ''__'' s = Some pos" "pos \<noteq> 0" "pos + 2 < length s"
    and k: "tk_backend k = take pos s" "tk_tool k = drop (pos + 2) s"
    by (auto simp: ToolKey_parse_def sv_substr_def not_le split: option.splits if_splits)
  from sv_find_split [OF pos(1)] k have s: "s = ToolKey_str k"
    by (simp add: ToolKey_str_def numeral_2_eq_2)
  have len: "length (tk_backend k) = pos" using pos(3) k by simp
  then have ne: "tk_backend k \<noteq> []" using pos(2) by auto
  have "sv_find ''__'' (tk_backend k @ ''__'' @ tk_tool k) = Some (length (tk_backend k))"
    using pos(1) s len by (simp add: ToolKey_str_def)
  then have "sv_find ''__'' (tk_backend k) = None \<and> (tk_backend k = [] \<or> last (tk_backend k) \<noteq> CHR ''_'')"
    by (rule sv_find_sep_conv)
  moreover have "tk_tool k \<noteq> []" using pos(3) k by simp
  ultimately show ?thesis using s ne by blast
qed

lemma ToolKey_parse_str:
  assumes "tk_backend k \<noteq> []" "tk_tool k \<noteq> []"
    and "sv_find ''__'' (tk_backend k) = None" "last (tk_backend k) \<noteq> CHR ''_''"
  shows "ToolKey_parse (ToolKey_str k) = Some k"
proof -
  have "sv_find ''__'' (tk_backend k @ ''__'' @ tk_tool k) = Some (length (tk_backend k))"
    using assms by (intro sv_find_sep) auto
  then show ?thesis
    using assms(1,2) by (simp add: ToolKey_parse_def ToolKey_str_def sv_substr_def)
qed

text \<open>a tool key printed and parsed again is the same key exactly when the backend name
  is not empty, holds no double underscore and does not end in an underscore, and the tool
  name is not empty.\<close>

theorem ToolKey_roundtrip_iff:
  "ToolKey_parse (ToolKey_str k) = Some k \<longleftrightarrow>
     tk_backend k \<noteq> [] \<and> tk_tool k \<noteq> [] \<and>
     sv_find ''__'' (tk_backend k) = None \<and> last (tk_backend k) \<noteq> CHR ''_''"
  using ToolKey_parse_str ToolKey_parse_Some by blast

section \<open>Failure classes: names and classification\<close>

lemma failureClassFromName_Name: "failureClassFromName (failureClassName k) = Some k"
  by (cases k) (simp_all add: failureClassFromName_def failureClassName_def kRows_def)

lemma failureClassName_FromName: "failureClassFromName n = Some k \<Longrightarrow> failureClassName k = n"
  by (auto simp: failureClassFromName_def failureClassName_def kRows_def split: if_splits)

lemma classify_gateway_capability:
  "classify J r ec g = Capability \<Longrightarrow> r_klass r = Capability \<or> g"
  by (auto simp: classify_def Let_def split: option.splits if_splits)

lemma classify_no_ec_ok_iff:
  "classify J r None g = Ok \<longleftrightarrow> r_klass r = Ok \<and> \<not> r_isError r"
  by (auto simp: classify_def Let_def)

section \<open>Visibility\<close>

lemma effectiveRank_max: "effectiveRank w = max (p_level w) (p_grantBump w)"
  by (auto simp: effectiveRank_def max_def)

lemma visible_mono:
  "visible who l \<Longrightarrow> l' \<le> l \<Longrightarrow> visible who l'"
  by (auto simp: visible_def)

lemma visible_bump_mono:
  "visible (w\<lparr>p_grantBump := b\<rparr>) l \<Longrightarrow> b \<le> b' \<Longrightarrow> visible (w\<lparr>p_grantBump := b'\<rparr>) l"
  by (auto simp: visible_def effectiveRank_max le_max_iff_disj)

end
