(* ===== verification/Config.thy ===== *)
theory Config
  imports Ir
begin

text \<open>
  Configuration data (\<^verbatim>\<open>include/perfacet/policy/YamlConfig.h\<close>) and the chain of access
  levels (\<^verbatim>\<open>Taxonomy\<close>). Lemmas: the taxonomy constructor succeeds exactly on non-empty
  lists of distinct, non-empty names that fit a 16-bit rank, and then names and ranks are in
  bijection.
\<close>

section \<open>Taxonomy (Taxonomy.h, Taxonomy.cpp)\<close>

record Taxonomy =
  tx_levels :: "string list"
  tx_byName :: "(string, rank) umap"

text \<open>The loop of the constructor: its counter is a 16-bit rank that wraps around. Every
  round adds a new name of the list or throws, so the loop stops.\<close>

function Taxonomy_loop :: "string list \<Rightarrow> rank \<Rightarrow> (string, rank) umap \<Rightarrow> exn + (string, rank) umap" where
  "Taxonomy_loop levels i m =
    (if unat i < length levels then
       (if levels ! unat i = [] then
          Inl (RuntimeError (''access.levels '' @ utf8 [229, 144, 171, 231, 169, 186, 229, 144, 141, 229, 173, 151]))
        else if um_find m (levels ! unat i) \<noteq> None then
          Inl (RuntimeError (''access.levels '' @ utf8 [233, 135, 141, 229, 164, 141] @ '': '' @ levels ! unat i))
        else Taxonomy_loop levels (i + 1) (um_set (levels ! unat i) i m))
     else Inr m)"
  by pat_completeness auto
termination
proof (relation "measure (\<lambda>(levels, i, m). card (set levels - fst ` set m))")
  fix levels :: "string list" and i :: rank and m :: "(string, rank) umap"
  assume lt: "unat i < length levels" and new: "\<not> um_find m (levels ! unat i) \<noteq> None"
  let ?x = "levels ! unat i"
  have "?x \<in> set levels - fst ` set m"
    using lt new by (auto simp: map_of_eq_None_iff)
  then have "card (set levels - fst ` set m - {?x}) < card (set levels - fst ` set m)"
    by (intro psubset_card_mono) auto
  moreover have "set levels - fst ` set (um_set ?x i m) = set levels - fst ` set m - {?x}"
    by (auto simp: dom_update)
  ultimately show "((levels, i + 1, um_set ?x i m), (levels, i, m))
      \<in> measure (\<lambda>(levels, i, m). card (set levels - fst ` set m))"
    by simp
qed simp

declare Taxonomy_loop.simps [simp del]

definition Taxonomy_make :: "string list \<Rightarrow> exn + Taxonomy" where
  "Taxonomy_make levels =
    (if levels = [] then
       Inl (RuntimeError (''access.levels '' @ utf8 [228, 184, 141, 232, 131, 189, 228, 184, 186, 231, 169, 186]))
     else case Taxonomy_loop levels 0 [] of
            Inl e \<Rightarrow> Inl e
          | Inr m \<Rightarrow> Inr \<lparr>tx_levels = levels, tx_byName = m\<rparr>)"

definition Taxonomy_parse :: "Taxonomy \<Rightarrow> string \<Rightarrow> rank option" where
  "Taxonomy_parse t nm = um_find (tx_byName t) nm"

definition Taxonomy_nameOf :: "Taxonomy \<Rightarrow> rank \<Rightarrow> exn + string" where
  "Taxonomy_nameOf t r =
     (if unat r < length (tx_levels t) then Inr (tx_levels t ! unat r) else Inl OutOfRange)"

definition Taxonomy_maxRank :: "Taxonomy \<Rightarrow> rank" where
  "Taxonomy_maxRank t = (if tx_levels t = [] then 0 else of_nat (length (tx_levels t) - 1))"

section \<open>Configuration records (YamlConfig.h)\<close>

record AgentCfg =
  ag_id :: string
  ag_token :: string
  ag_level :: rank
  ag_hasLevel :: bool
  ag_admin :: bool
  ag_levelName :: string

record BackendCfg =
  bk_name :: string
  bk_url :: string
  bk_meta :: BackendMeta
  bk_levelName :: string

datatype GovStatus = Unvalidated | Active | Invalid

record GovernorToolCfg =
  gt_maxConcurrency :: int
  gt_queueWaitMs :: u64
  gt_status :: GovStatus

definition GovernorToolCfg_default :: GovernorToolCfg where
  "GovernorToolCfg_default = \<lparr>gt_maxConcurrency = -1, gt_queueWaitMs = 0, gt_status = Unvalidated\<rparr>"

record YamlConfig =
  cf_listen :: string
  cf_workers :: int
  cf_drainTimeoutMs :: u64
  cf_httpMaxBodyBytes :: u64
  cf_workerQueueMax :: u64
  cf_grantsPath :: string
  cf_grantRefreshMs :: u64
  cf_listTtlMs :: u64
  cf_originAllowlist :: "string list"
  cf_taxonomy :: Taxonomy
  cf_elevationMax :: rank
  cf_elevationMaxName :: string
  cf_elevationTtlMs :: u64
  cf_elevationConfigured :: bool
  cf_agents :: "AgentCfg list"
  cf_backends :: "BackendCfg list"
  cf_healthIntervalMs :: u64
  cf_degradedLatencyMs :: u64
  cf_downAfterFailures :: int
  cf_circuitOpenAfter :: int
  cf_circuitCooldownMs :: u64
  cf_halfOpenProbes :: int
  cf_retryMaxAttempts :: int
  cf_retryable :: "FailureClass list"
  cf_neverRetry :: "FailureClass list"
  cf_perToolConcurrency :: int
  cf_perPrincipalConcurrency :: int
  cf_queueWaitMs :: u64
  cf_ratePerSec :: int
  cf_governorTools :: "(string, GovernorToolCfg) umap"
  cf_promoteAfterMs :: u64
  cf_taskTtlMs :: u64
  cf_taskMax :: u64
  cf_otelEndpoint :: string
  cf_otelService :: string
  cf_otelQueueMax :: u64
  cf_auditPath :: string

text \<open>The member initialisers of \<^verbatim>\<open>struct YamlConfig\<close>; the taxonomy is the one with the
  single level \<open>default\<close>.\<close>

definition YamlConfig_default :: YamlConfig where
  "YamlConfig_default =
    \<lparr>cf_listen = ''127.0.0.1:8741'', cf_workers = 4, cf_drainTimeoutMs = 3000,
     cf_httpMaxBodyBytes = 1048576, cf_workerQueueMax = 256, cf_grantsPath = ''grants.jsonl'',
     cf_grantRefreshMs = 100, cf_listTtlMs = 5000, cf_originAllowlist = [''*''],
     cf_taxonomy = \<lparr>tx_levels = [''default''], tx_byName = [(''default'', 0)]\<rparr>,
     cf_elevationMax = 0, cf_elevationMaxName = [], cf_elevationTtlMs = 900000,
     cf_elevationConfigured = False, cf_agents = [], cf_backends = [],
     cf_healthIntervalMs = 5000, cf_degradedLatencyMs = 1000, cf_downAfterFailures = 3,
     cf_circuitOpenAfter = 5, cf_circuitCooldownMs = 30000, cf_halfOpenProbes = 1,
     cf_retryMaxAttempts = 2, cf_retryable = [Timeout, Unavailable, Upstream],
     cf_neverRetry = [Authz, Cancelled, Protocol, Throttled, Capability],
     cf_perToolConcurrency = 4, cf_perPrincipalConcurrency = 10, cf_queueWaitMs = 5000,
     cf_ratePerSec = 20, cf_governorTools = [], cf_promoteAfterMs = 2000,
     cf_taskTtlMs = 3600000, cf_taskMax = 10000,
     cf_otelEndpoint = ''http://127.0.0.1:4318/v1/traces'', cf_otelService = ''perfacet'',
     cf_otelQueueMax = 1024, cf_auditPath = ''audit.jsonl''\<rparr>"

section \<open>Taxonomy: lemmas\<close>

lemma unat_rank_less: "unat (i :: rank) < 65536"
  using unsigned_less [of i] by simp

lemma unat_rank_minus_one: "unat (- 1 :: rank) = 65535"
  by (simp add: unsigned_minus_1_eq_mask mask_eq_exp_minus_1)

text \<open>After the first \<open>n\<close> rounds the map holds the first \<open>n\<close> names with their positions.\<close>

definition taxo_inv :: "string list \<Rightarrow> nat \<Rightarrow> (string, rank) umap \<Rightarrow> bool" where
  "taxo_inv levels n m \<longleftrightarrow>
     n \<le> length levels \<and> distinct (take n levels) \<and> [] \<notin> set (take n levels) \<and>
     (\<forall>x r. um_find m x = Some r \<longleftrightarrow> unat r < n \<and> levels ! unat r = x)"

lemma taxo_inv_step:
  assumes inv: "taxo_inv levels (unat i) m" and lt: "unat i < length levels"
    and ne: "levels ! unat i \<noteq> []" and new: "um_find m (levels ! unat i) = None"
  shows "taxo_inv levels (Suc (unat i)) (um_set (levels ! unat i) i m)"
proof -
  let ?x = "levels ! unat i"
  have small: "j < 65536" if "j < unat i" for j
    using that unat_rank_less [of i] by simp
  have "?x \<notin> set (take (unat i) levels)"
  proof
    assume "?x \<in> set (take (unat i) levels)"
    then obtain j where j: "j < unat i" "levels ! j = ?x"
      using lt by (auto simp: in_set_conv_nth)
    then have "unat (of_nat j :: rank) = j"
      using small [of j] by (simp add: unat_of_nat)
    then have "um_find m ?x = Some (of_nat j)"
      using inv j by (simp add: taxo_inv_def)
    with new show False by simp
  qed
  moreover have "um_find (um_set ?x i m) y = Some r \<longleftrightarrow> unat r < Suc (unat i) \<and> levels ! unat r = y" for y r
  proof (cases "y = ?x")
    case True
    have "i = r \<longleftrightarrow> unat r < Suc (unat i) \<and> levels ! unat r = ?x"
    proof
      assume r: "unat r < Suc (unat i) \<and> levels ! unat r = ?x"
      then have "\<not> unat r < unat i"
        using inv new unfolding taxo_inv_def by (metis option.distinct(1))
      then show "i = r" using r by (simp add: word_unat_eq_iff)
    qed simp
    then show ?thesis using True by (simp add: um_find_set)
  next
    case False
    then show ?thesis using inv
      by (auto simp: um_find_set taxo_inv_def less_Suc_eq)
  qed
  ultimately show ?thesis
    using inv lt ne by (auto simp: taxo_inv_def take_Suc_conv_app_nth)
qed

lemma Taxonomy_loop_wrapped:
  assumes "0 < length levels" "um_find m (levels ! 0) \<noteq> None"
  shows "\<exists>e. Taxonomy_loop levels 0 m = Inl e"
  using assms by (subst Taxonomy_loop.simps) auto

lemma Suc_unat_rank: "i \<noteq> - 1 \<Longrightarrow> unat (i + 1 :: rank) = Suc (unat i)"
  by (metis add.commute add_eq_0_iff unatSuc)

lemma Taxonomy_loop_Inr:
  "Taxonomy_loop levels i m = Inr m' \<Longrightarrow> taxo_inv levels (unat i) m \<Longrightarrow>
   taxo_inv levels (length levels) m' \<and> length levels < 65536"
proof (induction levels i m rule: Taxonomy_loop.induct)
  case (1 levels i m)
  let ?x = "levels ! unat i"
  show ?case
  proof (cases "unat i < length levels")
    case True
    with "1.prems"(1) have ne: "?x \<noteq> []" and new: "um_find m ?x = None"
      and rec: "Taxonomy_loop levels (i + 1) (um_set ?x i m) = Inr m'"
      by (auto simp: Taxonomy_loop.simps [of levels i m] split: if_splits)
    have inv: "taxo_inv levels (Suc (unat i)) (um_set ?x i m)"
      using "1.prems"(2) True ne new by (rule taxo_inv_step)
    have "i \<noteq> - 1"
    proof
      assume i: "i = - 1"
      have "levels ! 0 = levels ! unat (0 :: rank)" by simp
      then have "um_find (um_set ?x i m) (levels ! 0) = Some 0"
        using inv by (auto simp: taxo_inv_def)
      then have "\<exists>e. Taxonomy_loop levels 0 (um_set ?x i m) = Inl e"
        using True by (intro Taxonomy_loop_wrapped) auto
      with rec i show False by auto
    qed
    then have "taxo_inv levels (unat (i + 1)) (um_set ?x i m)"
      using inv by (simp add: Suc_unat_rank)
    then show ?thesis using "1.IH" True ne new rec by simp
  next
    case False
    then have eq: "unat i = length levels" and "m' = m"
      using "1.prems" by (auto simp: taxo_inv_def Taxonomy_loop.simps [of levels i m])
    then show ?thesis using "1.prems"(2) unat_rank_less [of i] by simp
  qed
qed

lemma Taxonomy_loop_total:
  "taxo_inv levels (unat i) m \<Longrightarrow> distinct levels \<Longrightarrow> [] \<notin> set levels \<Longrightarrow> length levels < 65536 \<Longrightarrow>
   \<exists>m'. Taxonomy_loop levels i m = Inr m'"
proof (induction levels i m rule: Taxonomy_loop.induct)
  case (1 levels i m)
  let ?x = "levels ! unat i"
  show ?case
  proof (cases "unat i < length levels")
    case True
    then have ne: "?x \<noteq> []" using "1.prems"(3) by (metis nth_mem)
    have new: "um_find m ?x = None"
    proof (cases "um_find m ?x")
      case (Some r)
      then have "unat r < unat i" "levels ! unat r = ?x"
        using "1.prems"(1) by (auto simp: taxo_inv_def)
      then show ?thesis
        using True "1.prems"(2) by (simp add: nth_eq_iff_index_eq)
    qed
    have "i \<noteq> - 1"
      using True "1.prems"(4) by (auto simp: unat_rank_minus_one)
    then have "taxo_inv levels (unat (i + 1)) (um_set ?x i m)"
      using taxo_inv_step [OF "1.prems"(1) True ne new] by (simp add: Suc_unat_rank)
    then have "\<exists>m'. Taxonomy_loop levels (i + 1) (um_set ?x i m) = Inr m'"
      using "1.IH" True ne new "1.prems" by blast
    then show ?thesis
      using True ne new by (simp add: Taxonomy_loop.simps [of levels i m])
  qed (simp add: Taxonomy_loop.simps [of levels i m])
qed

lemma Taxonomy_make_Inr:
  assumes "Taxonomy_make levels = Inr t"
  shows "tx_levels t = levels \<and> levels \<noteq> [] \<and> length levels < 65536 \<and> taxo_inv levels (length levels) (tx_byName t)"
proof -
  obtain m where "Taxonomy_loop levels 0 [] = Inr m" "t = \<lparr>tx_levels = levels, tx_byName = m\<rparr>" "levels \<noteq> []"
    using assms by (auto simp: Taxonomy_make_def split: if_splits sum.splits)
  moreover have "taxo_inv levels (unat (0 :: rank)) []"
    by (simp add: taxo_inv_def)
  ultimately show ?thesis
    using Taxonomy_loop_Inr by fastforce
qed

text \<open>the taxonomy constructor accepts a list of level names exactly when it is not
  empty, has no empty name and no duplicate, and fits the 16-bit rank.\<close>

theorem Taxonomy_make_ok_iff:
  "(\<exists>t. Taxonomy_make levels = Inr t) \<longleftrightarrow>
     levels \<noteq> [] \<and> [] \<notin> set levels \<and> distinct levels \<and> length levels < 65536"
proof
  assume "\<exists>t. Taxonomy_make levels = Inr t"
  then show "levels \<noteq> [] \<and> [] \<notin> set levels \<and> distinct levels \<and> length levels < 65536"
    using Taxonomy_make_Inr by (fastforce simp: taxo_inv_def)
next
  assume ok: "levels \<noteq> [] \<and> [] \<notin> set levels \<and> distinct levels \<and> length levels < 65536"
  have "taxo_inv levels (unat (0 :: rank)) []"
    by (simp add: taxo_inv_def)
  then obtain m where "Taxonomy_loop levels 0 [] = Inr m"
    using Taxonomy_loop_total ok by blast
  then show "\<exists>t. Taxonomy_make levels = Inr t"
    using ok by (simp add: Taxonomy_make_def)
qed

text \<open>in a constructed taxonomy, looking a name up and naming a rank are inverse.\<close>

lemma Taxonomy_parse_nameOf:
  assumes "Taxonomy_make levels = Inr t"
  shows "Taxonomy_parse t n = Some r \<longleftrightarrow> Taxonomy_nameOf t r = Inr n"
  using Taxonomy_make_Inr [OF assms]
  by (auto simp: Taxonomy_parse_def Taxonomy_nameOf_def taxo_inv_def)

lemma Taxonomy_maxRank_bound:
  assumes "Taxonomy_make levels = Inr t" "Taxonomy_parse t n = Some r"
  shows "r \<le> Taxonomy_maxRank t"
proof -
  have "unat r < length levels" "length levels < 65536" "tx_levels t = levels" "levels \<noteq> []"
    using Taxonomy_make_Inr [OF assms(1)] assms(2)
    by (auto simp: Taxonomy_parse_def taxo_inv_def)
  moreover from this obtain k where "length levels = Suc k"
    by (cases levels) auto
  ultimately show ?thesis
    by (simp add: Taxonomy_maxRank_def word_le_nat_alt unat_of_nat)
qed

end
