(* ===== verification/Backend.thy ===== *)
theory Backend
  imports Ir
begin

text \<open>
  The upstream side (\<^verbatim>\<open>src/backend\<close>): URL splitting, the per-thread cache of
  keep-alive clients, and the blocking JSON-RPC call a worker makes. The HTTP client itself
  (cpp-httplib) is the parameter \<open>post\<close>: what a POST on a connection returns. The readings
  of the clock are arguments, one per call of \<^verbatim>\<open>nowMs()\<close>. Lemmas: what a URL splits into,
  the class of every answer, the bounds of the socket timeout.
\<close>

unbundle bit_operations_syntax

section \<open>Standard library: std::stoi\<close>

definition is_digit :: "char \<Rightarrow> bool" where
  "is_digit c \<longleftrightarrow> 48 \<le> (of_char c :: nat) \<and> (of_char c :: nat) \<le> 57"

definition is_space :: "char \<Rightarrow> bool" where
  "is_space c \<longleftrightarrow> (of_char c :: nat) = 32 \<or> (9 \<le> (of_char c :: nat) \<and> (of_char c :: nat) \<le> 13)"

definition digits_val :: "string \<Rightarrow> int" where
  "digits_val ds = foldl (\<lambda>a c. 10 * a + (int (of_char c) - 48)) 0 ds"

definition stoi :: "string \<Rightarrow> exn + int" where
  "stoi s =
    (let s1 = dropWhile is_space s;
         neg = (s1 \<noteq> [] \<and> hd s1 = CHR ''-'');
         s2 = (if s1 \<noteq> [] \<and> (hd s1 = CHR ''-'' \<or> hd s1 = CHR ''+'') then tl s1 else s1);
         ds = takeWhile is_digit s2;
         v = (if neg then - digits_val ds else digits_val ds)
     in if ds = [] then Inl InvalidArgument
        else if v < - (2 ^ 31) \<or> 2 ^ 31 \<le> v then Inl OutOfRange
        else Inr v)"

section \<open>HttpMcpBackend: URL\<close>

record HttpMcpBackend =
  hb_url :: string
  hb_host :: string
  hb_port :: int
  hb_path :: string

definition parseUrl :: "string \<Rightarrow> exn + (string \<times> int \<times> string)" where
  "parseUrl url =
    (if take 7 url \<noteq> ''http://'' \<and> take 8 url = ''https://''
     then Inl (RuntimeError (''M1 '' @ utf8 [228, 184, 141, 230, 148, 175, 230, 140, 129] @ '' TLS '' @
            utf8 [228, 184, 138, 230, 184, 184] @ '': '' @ url))
     else
       (let rest = (if take 7 url = ''http://'' then drop 7 url else url);
            slash = sv_find ''/'' rest;
            hostport = (case slash of None \<Rightarrow> rest | Some i \<Rightarrow> sv_substr rest 0 i);
            path = (case slash of None \<Rightarrow> ''/'' | Some i \<Rightarrow> drop i rest)
        in case sv_rfind_char (CHR '':'') hostport of
             None \<Rightarrow> Inr (hostport, 80, path)
           | Some c \<Rightarrow>
               (case stoi (drop (c + 1) hostport) of
                  Inl e \<Rightarrow> Inl e
                | Inr p \<Rightarrow> Inr (sv_substr hostport 0 c, p, path))))"

definition HttpMcpBackend_make :: "string \<Rightarrow> exn + HttpMcpBackend" where
  "HttpMcpBackend_make url =
     (case parseUrl url of
        Inl e \<Rightarrow> Inl e
      | Inr (h, p, pa) \<Rightarrow> Inr \<lparr>hb_url = url, hb_host = h, hb_port = p, hb_path = pa\<rparr>)"

definition traceparent :: "TraceContext \<Rightarrow> string" where
  "traceparent t =
     (if t_traceId t = [] \<or> t_spanId t = [] then []
      else ''00-'' @ t_traceId t @ ''-'' @ t_spanId t @ ''-01'')"

section \<open>KeepAliveClient\<close>

datatype httplib_error = hl_Read | hl_Write | hl_ConnectionTimeout | hl_Other

record KeepAlivePost =
  ka_transportOk :: bool
  ka_timeout :: bool
  ka_status :: int
  ka_body :: string

type_synonym headers = "(string \<times> string) list"

text \<open>What \<^verbatim>\<open>httplib::Client::Post\<close> returns: host, port, path, headers, body, read and write
  timeout in seconds; an error or a status with a body.\<close>

type_synonym http_post =
  "string \<Rightarrow> int \<Rightarrow> string \<Rightarrow> headers \<Rightarrow> string \<Rightarrow> int \<Rightarrow> int \<Rightarrow> httplib_error + (int \<times> string)"

definition int_to_string :: "int \<Rightarrow> string" where
  "int_to_string n = (if n < 0 then CHR ''-'' # nat_digits (nat (- n)) else nat_digits (nat n))"

definition slotKey :: "string \<Rightarrow> int \<Rightarrow> string" where
  "slotKey host port = host @ [CHR 0x0A] @ int_to_string port"

text \<open>The thread-local cache: the client objects by slot key. A client carries its
  configuration only.\<close>

record HttpClient =
  hc_host :: string
  hc_port :: int
  hc_keepAlive :: bool
  hc_tcpNoDelay :: bool
  hc_connTimeoutSec :: int
  hc_readTimeoutSec :: int
  hc_writeTimeoutSec :: int

definition client_acquire :: "string \<Rightarrow> int \<Rightarrow> (string, HttpClient) umap \<Rightarrow> HttpClient" where
  "client_acquire host port g =
     (case um_find g (slotKey host port) of
        Some c \<Rightarrow> c
      | None \<Rightarrow> \<lparr>hc_host = host, hc_port = port, hc_keepAlive = True, hc_tcpNoDelay = True,
                hc_connTimeoutSec = 2, hc_readTimeoutSec = 0, hc_writeTimeoutSec = 0\<rparr>)"

definition keepAlivePost ::
  "http_post \<Rightarrow> string \<Rightarrow> int \<Rightarrow> string \<Rightarrow> headers \<Rightarrow> string \<Rightarrow> int \<Rightarrow> int \<Rightarrow>
   (string, HttpClient) umap \<Rightarrow> KeepAlivePost \<times> (string, HttpClient) umap" where
  "keepAlivePost post host port path headers body readTimeoutSec writeTimeoutSec g =
    (let cli = (client_acquire host port g)
                 \<lparr>hc_readTimeoutSec := readTimeoutSec, hc_writeTimeoutSec := writeTimeoutSec\<rparr>
     in case post (hc_host cli) (hc_port cli) path headers body
               (hc_readTimeoutSec cli) (hc_writeTimeoutSec cli) of
          Inl err \<Rightarrow>
            (\<lparr>ka_transportOk = False,
              ka_timeout = (err = hl_Read \<or> err = hl_Write \<or> err = hl_ConnectionTimeout),
              ka_status = 0, ka_body = []\<rparr>,
             um_erase (slotKey host port) g)
        | Inr (st, b) \<Rightarrow>
            (\<lparr>ka_transportOk = True, ka_timeout = False, ka_status = st, ka_body = b\<rparr>,
             um_set (slotKey host port) cli g))"

section \<open>HttpMcpBackend::callBlocking\<close>

text \<open>\<^verbatim>\<open>static_cast<int>\<close> of an unsigned 64-bit value keeps the low 32 bits.\<close>

definition int_cast :: "u64 \<Rightarrow> int" where
  "int_cast x = sint (ucast x :: 32 word)"

definition timeoutSecOf :: "u64 \<Rightarrow> u64 \<Rightarrow> int" where
  "timeoutSecOf deadlineMs now =
     (if deadlineMs > 0
      then (let rem = deadlineMs - now;
                t = int_cast ((rem + 999) div 1000)
            in if t < 1 then 1 else t)
      else 30)"

definition requestBody :: "'j json_api \<Rightarrow> 'j BackendCall \<Rightarrow> 'j" where
  "requestBody J bc =
    (let meta0 = (if j_is_object J (bc_meta bc) then bc_meta bc else j_obj J []);
         meta1 = j_put J meta0 kMetaProtocol (j_str J kProtocolVersion);
         meta = (if \<not> j_contains J meta1 kMetaCaps then j_put J meta1 kMetaCaps (j_obj J []) else meta1);
         params0 = (if j_is_object J (bc_params bc) then bc_params bc else j_obj J []);
         params1 = j_put J params0 ''_meta'' meta;
         params = (if bc_method bc = ''tools/call'' \<and> bc_name bc \<noteq> []
                   then j_put J params1 ''name'' (j_str J (bc_name bc)) else params1)
     in j_obj J [(''jsonrpc'', j_str J ''2.0''), (''id'', j_int J 1),
                 (''method'', j_str J (bc_method bc)), (''params'', params)])"

definition requestHeaders :: "'j BackendCall \<Rightarrow> headers" where
  "requestHeaders bc =
     [(''Accept'', ''application/json, text/event-stream''),
      (''MCP-Protocol-Version'', kProtocolVersion),
      (''Mcp-Method'', bc_method bc)] @
     (if bc_method bc = ''tools/call'' \<or> take 6 (bc_method bc) = ''tasks/''
      then [(''Mcp-Name'', bc_name bc)] else []) @
     (if traceparent (bc_trace bc) \<noteq> [] then [(''traceparent'', traceparent (bc_trace bc))] else [])"

definition upstreamAnswer :: "'j json_api \<Rightarrow> 'j Response \<Rightarrow> KeepAlivePost \<Rightarrow> 'j Response" where
  "upstreamAnswer J out res =
    (if \<not> ka_transportOk res then
       out\<lparr>r_isError := True, r_klass := (if ka_timeout res then Timeout else Unavailable),
           r_body := jsonRpcError J (-32000) ''upstream unreachable'' (j_obj J [])\<rparr>
     else if ka_status res \<ge> 500 then
       out\<lparr>r_isError := True, r_klass := Unavailable,
           r_body := jsonRpcError J (-32000) ''upstream 5xx'' (j_obj J [])\<rparr>
     else case j_parse J (ka_body res) of
       None \<Rightarrow>
         out\<lparr>r_isError := True, r_klass := Protocol,
             r_body := jsonRpcError J (-32700) ''upstream not json-rpc'' (j_obj J [])\<rparr>
     | Some parsed \<Rightarrow>
         if \<not> j_is_object J parsed then
           out\<lparr>r_isError := True, r_klass := Protocol,
               r_body := jsonRpcError J (-32700) ''upstream not json-rpc'' (j_obj J [])\<rparr>
         else if j_contains J parsed ''error'' then
           (let o2 = out\<lparr>r_isError := True, r_body := j_at J parsed ''error''\<rparr>
            in o2\<lparr>r_klass := classify J o2 None False\<rparr>)
         else
           out\<lparr>r_isError := False, r_klass := Ok,
               r_body := (if j_contains J parsed ''result'' then j_at J parsed ''result'' else parsed)\<rparr>)"

text \<open>\<open>t0\<close>, \<open>t1\<close>, \<open>t2\<close>, \<open>t3\<close> are the readings of the clock on lines 48, 49, 59 and 95.\<close>

definition callBlocking ::
  "'j json_api \<Rightarrow> http_post \<Rightarrow> HttpMcpBackend \<Rightarrow> u64 \<Rightarrow> u64 \<Rightarrow> u64 \<Rightarrow> u64 \<Rightarrow> 'j BackendCall \<Rightarrow>
   (string, HttpClient) umap \<Rightarrow> 'j Response \<times> (string, HttpClient) umap" where
  "callBlocking J post be t0 t1 t2 t3 bc g =
    (let out = (Response_default J)\<lparr>r_upstreamId := ''1''\<rparr>
     in if bc_deadlineMs bc > 0 \<and> t1 \<ge> bc_deadlineMs bc then
          (out\<lparr>r_isError := True, r_klass := Timeout,
               r_body := jsonRpcError J (-32000) ''upstream deadline'' (j_obj J []),
               r_upstreamMs := 0\<rparr>, g)
        else
          (let timeoutSec = timeoutSecOf (bc_deadlineMs bc) t2;
               (res, g') = keepAlivePost post (hb_host be) (hb_port be) (hb_path be)
                             (requestHeaders bc) (j_dump J (requestBody J bc)) timeoutSec timeoutSec g
           in (upstreamAnswer J (out\<lparr>r_upstreamMs := t3 - t0\<rparr>) res, g')))"

section \<open>Lemmas\<close>

lemma classify_error_not_Ok: "r_isError r \<Longrightarrow> r_klass r = Ok \<Longrightarrow> classify J r None g \<noteq> Ok"
  by (simp add: classify_no_ec_ok_iff)

lemma upstreamAnswer_klass:
  "r_klass out = Ok \<Longrightarrow> r_klass (upstreamAnswer J out res) = Ok \<longleftrightarrow> \<not> r_isError (upstreamAnswer J out res)"
  by (auto simp: upstreamAnswer_def Let_def classify_error_not_Ok split: option.splits)

lemma timeoutSecOf_ge1: "1 \<le> timeoutSecOf d n"
  by (simp add: timeoutSecOf_def Let_def)

lemma timeoutSecOf_le: "timeoutSecOf d n < 2 ^ 31"
proof -
  have "int_cast x < 2 ^ 31" for x
    using sint_lt [of "ucast x :: 32 word"] by (simp add: int_cast_def)
  then show ?thesis by (simp add: timeoutSecOf_def Let_def)
qed

lemma int_cast_small: "x < 2 ^ 31 \<Longrightarrow> int_cast x = uint x"
proof -
  assume "x < 2 ^ 31"
  then have x: "uint x < 2 ^ 31" by (simp add: word_less_def)
  then have "uint (ucast x :: 32 word) = uint x"
    by (simp add: uint_up_ucast unsigned_ucast_eq take_bit_int_eq_self)
  moreover have "sint (ucast x :: 32 word) = uint (ucast x :: 32 word)"
    unfolding sint_uint using x calculation
    by (auto intro!: signed_take_bit_int_eq_self order.trans [OF _ uint_ge_0])
  ultimately show ?thesis by (simp add: int_cast_def)
qed

text \<open>the answer of a blocking upstream call has class \<open>Ok\<close> exactly when it is not
  flagged as an error, whatever the transport, the status, the body and the clock do.\<close>

theorem callBlocking_klass_iff:
  "r_klass (fst (callBlocking J post be t0 t1 t2 t3 bc g)) = Ok \<longleftrightarrow>
     \<not> r_isError (fst (callBlocking J post be t0 t1 t2 t3 bc g))"
  by (simp add: callBlocking_def Let_def upstreamAnswer_klass Response_default_def split: prod.split)

text \<open>for a deadline ahead of the clock and at most 2147483647 seconds away, the socket
  timeout is the remaining time rounded up to whole seconds.\<close>

theorem timeoutSec_rounds_up:
  assumes "0 < d" "n < d" "unat (d - n) \<le> 2147483647000"
  shows "int (unat (d - n)) \<le> 1000 * timeoutSecOf d n \<and>
         1000 * timeoutSecOf d n < int (unat (d - n)) + 1000"
proof -
  let ?r = "unat (d - n)"
  have "unat (d - n + 999) = ?r + 999"
    using assms(3) by (simp add: unat_word_ariths)
  then have q: "unat ((d - n + 999) div 1000) = (?r + 999) div 1000"
    by (simp add: unat_div)
  then have "unat ((d - n + 999) div 1000) < 2 ^ 31" using assms(3) by simp
  then have "(d - n + 999) div 1000 < 2 ^ 31" by (simp add: word_less_nat_alt)
  then have c: "int_cast ((d - n + 999) div 1000) = int ((?r + 999) div 1000)"
    using q by (simp add: int_cast_small uint_nat)
  have "d - n \<noteq> 0" using assms(2) by auto
  then have "0 < ?r" by (simp add: unat_gt_0)
  then have pos: "0 < (?r + 999) div 1000" by linarith
  then have t: "timeoutSecOf d n = int ((?r + 999) div 1000)"
    using assms(1) c by (simp add: timeoutSecOf_def Let_def)
  have "?r \<le> 1000 * ((?r + 999) div 1000)" and "1000 * ((?r + 999) div 1000) < ?r + 1000"
    by linarith+
  then show ?thesis unfolding t by linarith
qed

theorem timeoutSec_rounds_up_witness:
  "int (unat ((1000 :: u64) - 0)) \<le> 1000 * timeoutSecOf 1000 0 \<and>
   1000 * timeoutSecOf 1000 0 < int (unat ((1000 :: u64) - 0)) + 1000"
  by (rule timeoutSec_rounds_up) simp_all

text \<open>the remaining time is cut to 32 bits: a caller that grants the upstream
  4294967296 seconds gets a socket timeout of one second.\<close>

theorem timeoutSec_truncates: "timeoutSecOf 4294967296000 0 = 1"
  by (simp add: timeoutSecOf_def int_cast_def)

end
