(* ===== verification/Policy.thy ===== *)
theory Policy
  imports Config Backend
begin

text \<open>
  Who may call what (\<^verbatim>\<open>src/catalog/Catalog.cpp\<close>, \<^verbatim>\<open>src/policy/RankPolicy.cpp\<close>,
  \<^verbatim>\<open>src/policy/YamlIdentityStore.cpp\<close>). The abstract class \<^verbatim>\<open>Policy\<close> is the locale
  \<open>policy_iface\<close>, interpreted on \<open>RankPolicy\<close>. Lemmas: the decision on every branch,
  monotonicity in the rank, non-disclosure of secret backends, authentication.
\<close>

section \<open>Catalog\<close>

record CatalogEntry =
  ce_name :: string
  ce_url :: string
  ce_meta :: BackendMeta
  ce_backend :: "HttpMcpBackend option"

type_synonym Catalog = "(string, CatalogEntry) umap"

definition Catalog_add :: "CatalogEntry \<Rightarrow> Catalog \<Rightarrow> Catalog" where
  "Catalog_add e c = um_set (ce_name e) e c"

definition Catalog_find :: "Catalog \<Rightarrow> string \<Rightarrow> CatalogEntry option" where
  "Catalog_find c nm = um_find c nm"

definition Catalog_names :: "Catalog \<Rightarrow> string list" where
  "Catalog_names c = map fst c"

definition Catalog_backend :: "Catalog \<Rightarrow> string \<Rightarrow> HttpMcpBackend option" where
  "Catalog_backend c nm = (case Catalog_find c nm of None \<Rightarrow> None | Some e \<Rightarrow> ce_backend e)"

section \<open>RankPolicy\<close>

datatype Decision = Allow | Deny | Unknown

definition builtinDecision :: "Principal \<Rightarrow> ToolKey \<Rightarrow> Decision" where
  "builtinDecision who key =
     (if tk_tool key = ''request_elevation'' then (if p_hasLevel who then Allow else Deny)
      else if tk_tool key = ''upstream_status'' then (if p_admin who then Allow else Deny)
      else if p_admin who then Allow else Unknown)"

definition authorizeCall :: "Catalog \<Rightarrow> Principal \<Rightarrow> ToolKey \<Rightarrow> Decision" where
  "authorizeCall cat who key =
     (if tk_backend key = ''perfacet'' then builtinDecision who key
      else case Catalog_find cat (tk_backend key) of
             None \<Rightarrow> Unknown
           | Some e \<Rightarrow>
               if \<not> p_hasLevel who then Deny
               else if effectiveRank who < bm_level (ce_meta e)
               then (if bm_secret (ce_meta e) then Unknown else Deny)
               else Allow)"

definition visibilityFilter :: "Catalog \<Rightarrow> Principal \<Rightarrow> ToolKey \<Rightarrow> bool" where
  "visibilityFilter cat who k \<longleftrightarrow> authorizeCall cat who k = Allow"

section \<open>YamlIdentityStore\<close>

record YamlIdentityStore =
  is_byToken :: "(string, AgentCfg) umap"
  is_admin :: "AgentCfg option"

definition byToken_put :: "string \<Rightarrow> AgentCfg \<Rightarrow> (string, AgentCfg) umap \<Rightarrow> (string, AgentCfg) umap" where
  "byToken_put tok a m = um_set tok a m"

definition YamlIdentityStore_make :: "YamlConfig \<Rightarrow> YamlIdentityStore" where
  "YamlIdentityStore_make cfg =
    (let m = fold (\<lambda>a. byToken_put (ag_token a) a) (cf_agents cfg) []
     in \<lparr>is_byToken = m, is_admin = map_option snd (find (\<lambda>kv. ag_admin (snd kv)) m)\<rparr>)"

definition authenticate :: "YamlIdentityStore \<Rightarrow> string \<Rightarrow> Principal option" where
  "authenticate st bearer =
     (case um_find (is_byToken st) bearer of
        None \<Rightarrow> None
      | Some a \<Rightarrow>
          Some \<lparr>p_agentId = ag_id a, p_level = ag_level a, p_grantBump = 0,
                p_hasLevel = ag_hasLevel a, p_admin = ag_admin a, p_levelName = ag_levelName a\<rparr>)"

definition adminAgent :: "YamlIdentityStore \<Rightarrow> AgentCfg option" where
  "adminAgent st = is_admin st"

section \<open>The Policy interface\<close>

text \<open>
  What the clients of the abstract class \<^verbatim>\<open>Policy\<close> rely on: the list filter and the call
  decision are the same verdict, and the verdict on a tool outside the built-in namespace
  depends on the backend only.
\<close>

locale policy_iface =
  fixes decide :: "Principal \<Rightarrow> ToolKey \<Rightarrow> Decision"
    and vis :: "Principal \<Rightarrow> ToolKey \<Rightarrow> bool"
  assumes vis_iff: "vis who k \<longleftrightarrow> decide who k = Allow"
    and backend_only: "tk_backend k \<noteq> ''perfacet'' \<Longrightarrow> tk_backend k' = tk_backend k \<Longrightarrow>
      decide who k' = decide who k"
begin

lemma listed_callable: "k \<in> set (filter (vis who) ks) \<Longrightarrow> decide who k = Allow"
  by (simp add: vis_iff)

lemma facet_complete: "k \<in> set ks \<Longrightarrow> decide who k = Allow \<Longrightarrow> k \<in> set (filter (vis who) ks)"
  by (simp add: vis_iff)

lemma backend_all_or_nothing:
  assumes "tk_backend k \<noteq> ''perfacet''" "tk_backend k' = tk_backend k"
  shows "vis who k' \<longleftrightarrow> vis who k"
  using backend_only [OF assms] by (simp add: vis_iff)

end

interpretation rp: policy_iface "authorizeCall cat" "visibilityFilter cat" for cat
  by unfold_locales (auto simp: visibilityFilter_def authorizeCall_def)

interpretation cat_store: kv_store Catalog_find "um_set"
  by unfold_locales (simp add: Catalog_find_def um_find_set)

interpretation token_store: kv_store um_find byToken_put
  by unfold_locales (simp add: byToken_put_def um_find_set)

section \<open>Decisions\<close>

lemma authorizeCall_Allow_iff:
  "tk_backend key \<noteq> ''perfacet'' \<Longrightarrow>
   authorizeCall cat who key = Allow \<longleftrightarrow>
     (\<exists>e. Catalog_find cat (tk_backend key) = Some e \<and> visible who (bm_level (ce_meta e)))"
  by (auto simp: authorizeCall_def visible_def not_less split: option.splits)



text \<open>raising a principal's grant never takes a permitted call away.\<close>

theorem authorizeCall_bump_mono:
  assumes "authorizeCall cat (w\<lparr>p_grantBump := b\<rparr>) k = Allow" and "b \<le> b'"
  shows "authorizeCall cat (w\<lparr>p_grantBump := b'\<rparr>) k = Allow"
proof (cases "tk_backend k = ''perfacet''")
  case True
  then show ?thesis using assms(1)
    by (auto simp: authorizeCall_def builtinDecision_def split: if_splits)
next
  case False
  then show ?thesis using assms visible_bump_mono
    by (auto simp: authorizeCall_Allow_iff)
qed

theorem authorizeCall_bump_mono_witness:
  "authorizeCall [] (\<lparr>p_agentId = ''a'', p_level = 0, p_grantBump = 0, p_hasLevel = True,
      p_admin = False, p_levelName = ''l0''\<rparr>\<lparr>p_grantBump := 2\<rparr>)
      \<lparr>tk_backend = ''perfacet'', tk_tool = ''request_elevation''\<rparr> = Allow"
  by (rule authorizeCall_bump_mono [where b = 1])
    (simp_all add: authorizeCall_def builtinDecision_def)

text \<open>The catalog as a principal may know it: without the secret backends above its rank.\<close>

definition known_catalog :: "Principal \<Rightarrow> Catalog \<Rightarrow> Catalog" where
  "known_catalog who cat =
     filter (\<lambda>(n, e). \<not> (bm_secret (ce_meta e) \<and> effectiveRank who < bm_level (ce_meta e))) cat"

lemma map_of_filter_snd:
  "um_wf m \<Longrightarrow> map_of (filter (\<lambda>(k, v). P v) m) k =
     (case map_of m k of None \<Rightarrow> None | Some v \<Rightarrow> if P v then Some v else None)"
proof (induction m)
  case (Cons a m)
  then have "um_wf m" and "fst a \<notin> fst ` set m" by (auto simp: um_wf_def)
  then have "map_of m (fst a) = None" by (simp add: map_of_eq_None_iff)
  with Cons.IH [OF \<open>um_wf m\<close>] show ?case
    by (cases a) (auto split: option.splits)
qed simp

text \<open>non-disclosure. For a principal that has a level, every decision is the one that
  the policy takes with the secret backends above its rank removed from the catalog: their
  existence cannot be observed through the policy.\<close>

theorem authorizeCall_secret_noninterference:
  assumes "um_wf cat" "p_hasLevel who"
  shows "authorizeCall cat who k = authorizeCall (known_catalog who cat) who k"
  using assms
  by (auto simp: authorizeCall_def known_catalog_def Catalog_find_def map_of_filter_snd
      split: option.splits)

theorem authorizeCall_secret_noninterference_witness:
  "(let e = \<lparr>ce_name = ''pay'', ce_url = ''http://h/'',
             ce_meta = \<lparr>bm_level = 3, bm_secret = True, bm_idempotentTools = []\<rparr>,
             ce_backend = None\<rparr>;
        w = \<lparr>p_agentId = ''a'', p_level = 1, p_grantBump = 0, p_hasLevel = True,
             p_admin = False, p_levelName = ''l1''\<rparr>;
        k = \<lparr>tk_backend = ''pay'', tk_tool = ''charge''\<rparr>
    in authorizeCall [(''pay'', e)] w k = Unknown \<and> authorizeCall (known_catalog w [(''pay'', e)]) w k = Unknown)"
proof -
  define e where "e = \<lparr>ce_name = ''pay'', ce_url = ''http://h/'',
      ce_meta = \<lparr>bm_level = 3, bm_secret = True, bm_idempotentTools = []\<rparr>, ce_backend = None\<rparr>"
  define w where "w = \<lparr>p_agentId = ''a'', p_level = 1, p_grantBump = 0, p_hasLevel = True,
      p_admin = False, p_levelName = ''l1''\<rparr>"
  define k where "k = \<lparr>tk_backend = ''pay'', tk_tool = ''charge''\<rparr>"
  have "authorizeCall [(''pay'', e)] w k = Unknown"
    by (simp add: authorizeCall_def Catalog_find_def effectiveRank_def e_def w_def k_def)
  moreover have "authorizeCall [(''pay'', e)] w k = authorizeCall (known_catalog w [(''pay'', e)]) w k"
    by (rule authorizeCall_secret_noninterference) (simp_all add: um_wf_def w_def)
  ultimately show ?thesis by (simp add: Let_def e_def w_def k_def)
qed

section \<open>Authentication\<close>

lemma authenticate_Some_agent:
  assumes "authenticate (YamlIdentityStore_make cfg) bearer = Some p"
  shows "\<exists>a \<in> set (cf_agents cfg). ag_token a = bearer \<and>
     p = \<lparr>p_agentId = ag_id a, p_level = ag_level a, p_grantBump = 0,
          p_hasLevel = ag_hasLevel a, p_admin = ag_admin a, p_levelName = ag_levelName a\<rparr>"
proof -
  obtain a where a: "um_find (fold (\<lambda>a. byToken_put (ag_token a) a) (cf_agents cfg) []) bearer = Some a"
    and p: "p = \<lparr>p_agentId = ag_id a, p_level = ag_level a, p_grantBump = 0,
          p_hasLevel = ag_hasLevel a, p_admin = ag_admin a, p_levelName = ag_levelName a\<rparr>"
    using assms by (auto simp: authenticate_def YamlIdentityStore_make_def Let_def split: option.splits)
  have "\<exists>x \<in> set (cf_agents cfg). ag_token x = bearer \<and> x = a"
    by (rule token_store.find_fold_put_mem [where key = ag_token and val = "\<lambda>a. a", OF a]) simp
  then show ?thesis using p by blast
qed

text \<open>with distinct tokens in the configuration, a bearer token authenticates exactly the
  agent that owns it, with the level and the admin flag of the configuration and no grant.\<close>

theorem authenticate_owner:
  assumes "distinct (map ag_token (cf_agents cfg))"
  shows "authenticate (YamlIdentityStore_make cfg) bearer = Some p \<longleftrightarrow>
     (\<exists>a \<in> set (cf_agents cfg). ag_token a = bearer \<and>
        p = \<lparr>p_agentId = ag_id a, p_level = ag_level a, p_grantBump = 0,
             p_hasLevel = ag_hasLevel a, p_admin = ag_admin a, p_levelName = ag_levelName a\<rparr>)"
    (is "?l \<longleftrightarrow> ?r")
proof
  assume ?l
  then show ?r by (rule authenticate_Some_agent)
next
  assume ?r
  then obtain a where a: "a \<in> set (cf_agents cfg)" "ag_token a = bearer"
    and p: "p = \<lparr>p_agentId = ag_id a, p_level = ag_level a, p_grantBump = 0,
             p_hasLevel = ag_hasLevel a, p_admin = ag_admin a, p_levelName = ag_levelName a\<rparr>"
    by blast
  have "um_find (fold (\<lambda>a. byToken_put (ag_token a) a) (cf_agents cfg) []) bearer = Some a"
    using token_store.find_fold_put_distinct [where key = ag_token and val = "\<lambda>a. a", OF assms a(1)] a(2)
    by simp
  then show ?l using p by (simp add: authenticate_def YamlIdentityStore_make_def Let_def)
qed

theorem authenticate_owner_witness:
  "\<exists>p. authenticate (YamlIdentityStore_make (YamlConfig_default\<lparr>cf_agents :=
       [\<lparr>ag_id = ''bot'', ag_token = ''tok'', ag_level = 0, ag_hasLevel = True, ag_admin = False,
         ag_levelName = ''default''\<rparr>]\<rparr>)) ''tok'' = Some p \<and> p_agentId p = ''bot''"
  by (subst authenticate_owner) (simp_all add: YamlConfig_default_def)

end
