(* ===== verification/Facet.thy ===== *)
theory Facet
  imports Policy
begin

text \<open>
  The tool catalogue as an agent sees it (\<^verbatim>\<open>src/catalog/ToolIndex.cpp\<close>,
  \<^verbatim>\<open>FacetView.cpp\<close>, \<^verbatim>\<open>IndexRefresher.cpp\<close>). \<open>listTools\<close> takes the filter of the
  policy interface. Lemmas: a facet lists exactly the indexed tools the policy allows, what
  is listed can be called, secret backends leave no trace in a facet, and a failed probe
  leaves the last known list in place.
\<close>

section \<open>ToolIndex\<close>

record 'j IndexedTool =
  it_name :: string
  it_description :: string
  it_inputSchema :: 'j

record 'j ToolIndex =
  ti_byBackend :: "(string, 'j IndexedTool list) umap"
  ti_anyWrite :: bool

definition ToolIndex_empty :: "'j ToolIndex" where
  "ToolIndex_empty = \<lparr>ti_byBackend = [], ti_anyWrite = False\<rparr>"

definition ToolIndex_replace :: "string \<Rightarrow> 'j IndexedTool list \<Rightarrow> 'j ToolIndex \<Rightarrow> 'j ToolIndex" where
  "ToolIndex_replace backend tools ix =
     ix\<lparr>ti_byBackend := um_set backend tools (ti_byBackend ix), ti_anyWrite := True\<rparr>"

definition ToolIndex_toolsOf :: "'j ToolIndex \<Rightarrow> string \<Rightarrow> 'j IndexedTool list option" where
  "ToolIndex_toolsOf ix backend = um_find (ti_byBackend ix) backend"

definition ToolIndex_everWritten :: "'j ToolIndex \<Rightarrow> string \<Rightarrow> bool" where
  "ToolIndex_everWritten ix backend \<longleftrightarrow> um_find (ti_byBackend ix) backend \<noteq> None"

definition ToolIndex_cold :: "'j ToolIndex \<Rightarrow> bool" where
  "ToolIndex_cold ix \<longleftrightarrow> \<not> ti_anyWrite ix"

definition ToolIndex_backends :: "'j ToolIndex \<Rightarrow> string list" where
  "ToolIndex_backends ix = map fst (ti_byBackend ix)"

section \<open>FacetView\<close>

text \<open>The two loops of \<open>listTools\<close>, with the key of each item kept beside it.\<close>

definition facet_item :: "'j json_api \<Rightarrow> 'j IndexedTool \<Rightarrow> ToolKey \<Rightarrow> 'j" where
  "facet_item J t k =
     j_obj J [(''name'', j_str J (ToolKey_str k)),
              (''description'', j_str J (it_description t)),
              (''inputSchema'', if j_is_null J (it_inputSchema t) then j_obj J [] else it_inputSchema t)]"

definition facet_indexed :: "'j json_api \<Rightarrow> 'j ToolIndex \<Rightarrow> (ToolKey \<Rightarrow> bool) \<Rightarrow> (ToolKey \<times> 'j) list" where
  "facet_indexed J ix vis =
     concat (map (\<lambda>backend.
       (case ToolIndex_toolsOf ix backend of
          None \<Rightarrow> []
        | Some ts \<Rightarrow>
            concat (map (\<lambda>t.
              (let k = \<lparr>tk_backend = backend, tk_tool = it_name t\<rparr> in
               if \<not> vis k then []
               else [(k, facet_item J t k)])) ts)))
       (ToolIndex_backends ix))"

definition facet_builtin :: "'j json_api \<Rightarrow> (ToolKey \<Rightarrow> bool) \<Rightarrow> (ToolKey \<times> 'j) list" where
  "facet_builtin J vis =
     concat (map (\<lambda>tool.
       (let k = \<lparr>tk_backend = ''perfacet'', tk_tool = tool\<rparr> in
        if \<not> vis k then []
        else if tk_tool k = ''request_elevation'' then
          [(k, j_obj J [(''name'', j_str J (ToolKey_str k)),
             (''description'', j_str J (utf8 [231, 148, 179, 232, 175, 183, 228, 184, 180, 230, 151, 182, 230,
                143, 144, 230, 157, 131, 239, 188, 136] @ ''CLI '' @ utf8 [229, 174, 161, 230, 137, 185] @
                '' + TTL'' @ utf8 [239, 188, 137])),
             (''inputSchema'', j_obj J [(''type'', j_str J ''object''),
                (''properties'', j_obj J [(''bump_to'', j_obj J [(''type'', j_str J ''string'')])]),
                (''required'', j_arr J [j_str J ''bump_to''])])])]
        else
          [(k, j_obj J [(''name'', j_str J (ToolKey_str k)),
             (''description'', j_str J (utf8 [228, 184, 138, 230, 184, 184, 229, 129, 165, 229, 186, 183, 229,
                191, 171, 231, 133, 167, 239, 188, 136, 230, 142, 167, 229, 136, 182, 233, 157, 162, 239, 188, 137])),
             (''inputSchema'', j_obj J [(''type'', j_str J ''object'')])])]))
       [''request_elevation'', ''upstream_status''])"

definition facet_entries :: "'j json_api \<Rightarrow> 'j ToolIndex \<Rightarrow> (ToolKey \<Rightarrow> bool) \<Rightarrow> (ToolKey \<times> 'j) list" where
  "facet_entries J ix vis = facet_indexed J ix vis @ facet_builtin J vis"

definition listTools ::
  "'j json_api \<Rightarrow> 'j ToolIndex \<Rightarrow> (Principal \<Rightarrow> ToolKey \<Rightarrow> bool) \<Rightarrow> Principal \<Rightarrow> 'j" where
  "listTools J ix visFilter who = j_arr J (map snd (facet_entries J ix (visFilter who)))"

section \<open>IndexRefresher\<close>

fun refresh_tools :: "'j json_api \<Rightarrow> 'j list \<Rightarrow> exn + 'j IndexedTool list" where
  "refresh_tools J [] = Inr []"
| "refresh_tools J (t # ts) =
     (if \<not> j_is_object J t \<or> \<not> j_contains J t ''name'' then refresh_tools J ts
      else case j_get_str J (j_at J t ''name'') of
             None \<Rightarrow> Inl TypeError
           | Some nm \<Rightarrow>
               (case j_value_str J t ''description'' [] of
                  None \<Rightarrow> Inl TypeError
                | Some d \<Rightarrow>
                    (case refresh_tools J ts of
                       Inl e \<Rightarrow> Inl e
                     | Inr rest \<Rightarrow>
                         Inr (\<lparr>it_name = nm, it_description = d,
                               it_inputSchema = (if j_contains J t ''inputSchema''
                                 then j_at J t ''inputSchema'' else j_obj J [])\<rparr> # rest))))"

text \<open>The result: the index and, when the list was taken over, the names for \<open>onListed_\<close>.\<close>

definition onProbeResult ::
  "'j json_api \<Rightarrow> string \<Rightarrow> 'j option \<Rightarrow> 'j ToolIndex \<Rightarrow> exn + ('j ToolIndex \<times> string list option)" where
  "onProbeResult J server toolList ix =
     (case toolList of
        None \<Rightarrow> Inr (ix, None)
      | Some lst \<Rightarrow>
          if \<not> j_is_object J lst then Inr (ix, None)
          else if \<not> j_contains J lst ''tools'' \<or> \<not> j_is_array J (j_at J lst ''tools'') then Inr (ix, None)
          else case refresh_tools J (j_elems J (j_at J lst ''tools'')) of
                 Inl e \<Rightarrow> Inl e
               | Inr tools \<Rightarrow> Inr (ToolIndex_replace server tools ix, Some (map it_name tools)))"

interpretation index_store: kv_store ToolIndex_toolsOf ToolIndex_replace
  by unfold_locales (simp add: ToolIndex_toolsOf_def ToolIndex_replace_def um_find_set)

section \<open>Facets\<close>

text \<open>The tools a facet can ever show: the indexed ones and the two built-in ones.\<close>

definition indexed_key :: "'j ToolIndex \<Rightarrow> ToolKey \<Rightarrow> bool" where
  "indexed_key ix k \<longleftrightarrow>
     (\<exists>ts. ToolIndex_toolsOf ix (tk_backend k) = Some ts \<and> tk_tool k \<in> it_name ` set ts) \<or>
     (tk_backend k = ''perfacet'' \<and> tk_tool k \<in> {''request_elevation'', ''upstream_status''})"

lemma facet_indexed_keys:
  "k \<in> fst ` set (facet_indexed J ix vis) \<longleftrightarrow>
     (\<exists>ts. ToolIndex_toolsOf ix (tk_backend k) = Some ts \<and> tk_tool k \<in> it_name ` set ts) \<and> vis k"
proof
  assume "k \<in> fst ` set (facet_indexed J ix vis)"
  then show "(\<exists>ts. ToolIndex_toolsOf ix (tk_backend k) = Some ts \<and> tk_tool k \<in> it_name ` set ts) \<and> vis k"
    by (auto simp: facet_indexed_def Let_def split: option.split_asm if_split_asm) (metis imageI)+
next
  assume "(\<exists>ts. ToolIndex_toolsOf ix (tk_backend k) = Some ts \<and> tk_tool k \<in> it_name ` set ts) \<and> vis k"
  then obtain ts t where ts: "ToolIndex_toolsOf ix (tk_backend k) = Some ts"
    and t: "t \<in> set ts" "tk_tool k = it_name t" and v: "vis k" by blast
  have key: "\<lparr>tk_backend = tk_backend k, tk_tool = it_name t\<rparr> = k"
    using t(2) by simp
  have b: "tk_backend k \<in> set (ToolIndex_backends ix)"
    unfolding ToolIndex_backends_def set_map
    by (rule um_find_key) (use ts in \<open>simp add: ToolIndex_toolsOf_def\<close>)
  have "(k, facet_item J t k) \<in> set (facet_indexed J ix vis)"
    unfolding facet_indexed_def
    using b ts t(1) v key by (auto simp: Let_def intro!: bexI [of _ "tk_backend k"] bexI [of _ t])
  then show "k \<in> fst ` set (facet_indexed J ix vis)" by force
qed

lemma facet_builtin_keys:
  "k \<in> fst ` set (facet_builtin J vis) \<longleftrightarrow>
     tk_backend k = ''perfacet'' \<and> tk_tool k \<in> {''request_elevation'', ''upstream_status''} \<and> vis k"
  by (cases k) (auto simp: facet_builtin_def Let_def)

lemma facet_entries_keys:
  "k \<in> fst ` set (facet_entries J ix vis) \<longleftrightarrow> indexed_key ix k \<and> vis k"
  unfolding facet_entries_def set_append image_Un Un_iff facet_indexed_keys facet_builtin_keys
    indexed_key_def by blast

text \<open>a principal's facet lists exactly the tools that are indexed or built in and that
  the policy allows it to call.\<close>

theorem facet_lists_allowed:
  "k \<in> fst ` set (facet_entries J ix (visibilityFilter cat who)) \<longleftrightarrow>
     indexed_key ix k \<and> authorizeCall cat who k = Allow"
  by (simp add: facet_entries_keys rp.vis_iff)



text \<open>a backend whose name ends in an underscore passes the configuration's check for a
  double underscore, is listed, and cannot be called under the listed name: the name is read
  as a tool of another backend.\<close>

theorem facet_underscore_backend_misread:
  "sv_find ''__'' ''pg_'' = None \<and>
   ToolKey_parse (ToolKey_str \<lparr>tk_backend = ''pg_'', tk_tool = ''query''\<rparr>) =
     Some \<lparr>tk_backend = ''pg'', tk_tool = ''_query''\<rparr>"
  by (simp add: ToolKey_parse_def ToolKey_str_def sv_substr_def)



section \<open>Refreshing the index\<close>

lemma refresh_tools_ok:
  assumes "\<And>t. t \<in> set ts \<Longrightarrow> j_is_object J t \<Longrightarrow> j_contains J t ''name'' \<Longrightarrow>
      j_get_str J (j_at J t ''name'') \<noteq> None \<and> j_value_str J t ''description'' [] \<noteq> None"
  shows "\<exists>tools. refresh_tools J ts = Inr tools"
  using assms
proof (induction ts)
  case (Cons t ts)
  then obtain tools where "refresh_tools J ts = Inr tools" by fastforce
  then show ?case using Cons.prems [of t] by (auto split: option.splits)
qed simp

text \<open>last known good. A probe without a usable list leaves the whole index as it was; a
  successful one replaces the entry of the probed server and no other.\<close>

theorem onProbeResult_last_known_good:
  assumes "onProbeResult J server toolList ix = Inr (ix', listed)"
  shows "(listed = None \<longrightarrow> ix' = ix) \<and>
         (listed \<noteq> None \<longrightarrow> \<not> ToolIndex_cold ix' \<and> ToolIndex_everWritten ix' server) \<and>
         (\<forall>b. b \<noteq> server \<longrightarrow> ToolIndex_toolsOf ix' b = ToolIndex_toolsOf ix b)"
  using assms
  by (auto simp: onProbeResult_def index_store.find_put ToolIndex_cold_def ToolIndex_everWritten_def
      ToolIndex_replace_def um_find_set ToolIndex_toolsOf_def split: option.splits if_splits sum.splits)

theorem onProbeResult_last_known_good_witness:
  "\<exists>ix'. onProbeResult jv_api ''pg'' (Some (JObj [(''tools'', JArr [JObj [(''name'', JStr ''q'')]])]))
      ToolIndex_empty = Inr (ix', Some [''q'']) \<and> \<not> ToolIndex_cold ix' \<and> ToolIndex_everWritten ix' ''pg''"
proof -
  have "\<exists>ix'. onProbeResult jv_api ''pg'' (Some (JObj [(''tools'', JArr [JObj [(''name'', JStr ''q'')]])]))
      ToolIndex_empty = Inr (ix', Some [''q''])"
    by (simp add: onProbeResult_def jv_api_def jv_at_def jv_contains_def)
  then obtain ix' where r: "onProbeResult jv_api ''pg''
      (Some (JObj [(''tools'', JArr [JObj [(''name'', JStr ''q'')]])])) ToolIndex_empty = Inr (ix', Some [''q''])" ..
  then show ?thesis using onProbeResult_last_known_good [OF r] by blast
qed

end
