(* ===== verification/Event_Loop.thy ===== *)
theory Event_Loop
  imports Prelude
begin

text \<open>
  The timers and the cross-thread queue of the reactor (\<^verbatim>\<open>netlib/src/EventLoop.cpp\<close>).
  A callback is a value of the type \<open>'cb\<close> (a timer) or \<open>'p\<close> (a queued function);
  times are nanoseconds of the steady clock. The heap of timers is a list, of which the
  expired part is taken in the order of its times. Timer identifiers count up without
  wrapping (64 bits would take centuries). Interface: the locale \<open>timer_service\<close>.
  Lemmas: a cancelled timer never fires, an armed one does, one-shot timers fire once.
\<close>

section \<open>State\<close>

record Timer =
  tm_when :: int
  tm_interval :: int
  tm_id :: nat

datatype ('cb, 'p) Pending =
    PRun 'p
  | PInsertTimer Timer 'cb
  | PCancelTimer nat

record ('cb, 'p) EventLoop =
  el_timers :: "Timer list"
  el_canceled :: "nat list"
  el_timerCbs :: "(nat, 'cb) umap"
  el_nextTimerId :: nat
  el_pending :: "('cb, 'p) Pending list"
  el_looping :: bool
  el_quit :: bool

definition EventLoop_init :: "('cb, 'p) EventLoop" where
  "EventLoop_init = \<lparr>el_timers = [], el_canceled = [], el_timerCbs = [], el_nextTimerId = 1,
     el_pending = [], el_looping = False, el_quit = False\<rparr>"

section \<open>Operations\<close>

definition insertTimer :: "Timer \<Rightarrow> 'cb \<Rightarrow> ('cb, 'p) EventLoop \<Rightarrow> ('cb, 'p) EventLoop" where
  "insertTimer t cb el =
     el\<lparr>el_timerCbs := um_set (tm_id t) cb (el_timerCbs el), el_timers := el_timers el @ [t]\<rparr>"

definition queueInLoop :: "('cb, 'p) Pending \<Rightarrow> ('cb, 'p) EventLoop \<Rightarrow> ('cb, 'p) EventLoop" where
  "queueInLoop f el = el\<lparr>el_pending := el_pending el @ [f]\<rparr>"

text \<open>\<open>now\<close> is the reading of the steady clock, \<open>ns\<close> the delay, \<open>inLoop\<close> whether the caller is
  the loop thread; \<open>runAfter\<close> and \<open>runEvery\<close> differ in the interval only.\<close>

definition runTimer ::
  "bool \<Rightarrow> int \<Rightarrow> int \<Rightarrow> int \<Rightarrow> 'cb \<Rightarrow> ('cb, 'p) EventLoop \<Rightarrow> nat \<times> ('cb, 'p) EventLoop" where
  "runTimer inLoop now ns interval cb el =
    (let t = \<lparr>tm_when = now + ns, tm_interval = interval, tm_id = el_nextTimerId el\<rparr>;
         el1 = el\<lparr>el_nextTimerId := Suc (el_nextTimerId el)\<rparr>
     in (tm_id t,
         if inLoop \<and> el_looping el then insertTimer t cb el1
         else queueInLoop (PInsertTimer t cb) el1))"

definition runAfter ::
  "bool \<Rightarrow> int \<Rightarrow> int \<Rightarrow> 'cb \<Rightarrow> ('cb, 'p) EventLoop \<Rightarrow> nat \<times> ('cb, 'p) EventLoop" where
  "runAfter inLoop now ns cb el = runTimer inLoop now ns 0 cb el"

definition runEvery ::
  "bool \<Rightarrow> int \<Rightarrow> int \<Rightarrow> 'cb \<Rightarrow> ('cb, 'p) EventLoop \<Rightarrow> nat \<times> ('cb, 'p) EventLoop" where
  "runEvery inLoop now ns cb el = runTimer inLoop now ns ns cb el"

definition cancelInLoop :: "nat \<Rightarrow> ('cb, 'p) EventLoop \<Rightarrow> ('cb, 'p) EventLoop" where
  "cancelInLoop i el =
     el\<lparr>el_canceled := (if i \<in> set (el_canceled el) then el_canceled el else i # el_canceled el),
        el_timerCbs := um_erase i (el_timerCbs el)\<rparr>"

definition cancel_timer :: "bool \<Rightarrow> nat \<Rightarrow> ('cb, 'p) EventLoop \<Rightarrow> ('cb, 'p) EventLoop" where
  "cancel_timer inLoop i el =
     (if inLoop \<and> el_looping el then cancelInLoop i el else queueInLoop (PCancelTimer i) el)"

definition loop_quit :: "('cb, 'p) EventLoop \<Rightarrow> ('cb, 'p) EventLoop" where
  "loop_quit el = el\<lparr>el_quit := True\<rparr>"

text \<open>The swap of \<open>doPending\<close>: the queued functions to run, and the emptied queue.\<close>

definition doPending_swap ::
  "('cb, 'p) EventLoop \<Rightarrow> ('cb, 'p) Pending list \<times> ('cb, 'p) EventLoop" where
  "doPending_swap el = (el_pending el, el\<lparr>el_pending := []\<rparr>)"

text \<open>\<open>processExpiredTimers\<close> in three parts, since a callback runs between them: take the
  expired timers out of the heap; before a timer's callback; after it.\<close>

definition popExpired :: "int \<Rightarrow> ('cb, 'p) EventLoop \<Rightarrow> Timer list \<times> ('cb, 'p) EventLoop" where
  "popExpired now el =
     (sort_key tm_when (filter (\<lambda>t. tm_when t \<le> now) (el_timers el)),
      el\<lparr>el_timers := filter (\<lambda>t. \<not> tm_when t \<le> now) (el_timers el)\<rparr>)"

definition timerBegin :: "Timer \<Rightarrow> ('cb, 'p) EventLoop \<Rightarrow> (bool \<times> 'cb option) \<times> ('cb, 'p) EventLoop" where
  "timerBegin t el =
     (if tm_id t \<in> set (el_canceled el) then
        ((False, None), el\<lparr>el_canceled := filter (\<lambda>i. i \<noteq> tm_id t) (el_canceled el),
                           el_timerCbs := um_erase (tm_id t) (el_timerCbs el)\<rparr>)
      else ((True, um_find (el_timerCbs el) (tm_id t)),
            el\<lparr>el_timerCbs := um_erase (tm_id t) (el_timerCbs el)\<rparr>))"

definition timerEnd :: "int \<Rightarrow> Timer \<Rightarrow> 'cb option \<Rightarrow> ('cb, 'p) EventLoop \<Rightarrow> ('cb, 'p) EventLoop" where
  "timerEnd now t cb el =
     (if tm_interval t > 0 \<and> tm_id t \<notin> set (el_canceled el) then
        (case cb of
           Some c \<Rightarrow> insertTimer (t\<lparr>tm_when := now + tm_interval t\<rparr>) c el
         | None \<Rightarrow> el\<lparr>el_timers := el_timers el @ [t\<lparr>tm_when := now + tm_interval t\<rparr>]\<rparr>)
      else el)"

section \<open>Well-formedness\<close>

text \<open>While the loop runs: every identifier in use was issued, a timer that still has its
  callback is not marked as cancelled, and no timer operation is queued (the loop thread performs
  them at once; those queued before the start were run by the first round).\<close>

fun is_run :: "('cb, 'p) Pending \<Rightarrow> bool" where
  "is_run (PRun f) = True"
| "is_run _ = False"

definition el_wf :: "('cb, 'p) EventLoop \<Rightarrow> bool" where
  "el_wf el \<longleftrightarrow>
     um_wf (el_timerCbs el) \<and> el_looping el \<and> 0 < el_nextTimerId el \<and> list_all is_run (el_pending el) \<and>
     (\<forall>i \<in> fst ` set (el_timerCbs el). i < el_nextTimerId el \<and> i \<notin> set (el_canceled el)) \<and>
     (\<forall>i \<in> set (el_canceled el). i < el_nextTimerId el) \<and>
     (\<forall>t \<in> set (el_timers el). tm_id t < el_nextTimerId el)"

section \<open>The timer interface\<close>

text \<open>
  What the governor and the pipeline rely on: arming a timer gives a new identifier bound to
  the callback and touches no other timer, cancelling removes exactly the named one.
\<close>

locale timer_service =
  fixes inv :: "'s \<Rightarrow> bool"
    and issued :: "'s \<Rightarrow> nat \<Rightarrow> bool"
    and arm :: "int \<Rightarrow> int \<Rightarrow> 'cb \<Rightarrow> 's \<Rightarrow> nat \<times> 's"
    and stop :: "nat \<Rightarrow> 's \<Rightarrow> 's"
    and cb_of :: "'s \<Rightarrow> nat \<Rightarrow> 'cb option"
  assumes cb_issued: "inv s \<Longrightarrow> cb_of s i = Some c \<Longrightarrow> issued s i"
    and arm_new: "inv s \<Longrightarrow> \<not> issued s (fst (arm now ns cb s))"
    and arm_issued: "inv s \<Longrightarrow> issued (snd (arm now ns cb s)) i \<longleftrightarrow> issued s i \<or> i = fst (arm now ns cb s)"
    and arm_bind: "inv s \<Longrightarrow> cb_of (snd (arm now ns cb s)) i =
          (if i = fst (arm now ns cb s) then Some cb else cb_of s i)"
    and stop_bind: "inv s \<Longrightarrow> cb_of (stop j s) i = (if i = j then None else cb_of s i)"
    and stop_issued: "inv s \<Longrightarrow> issued (stop j s) i \<longleftrightarrow> issued s i"
    and inv_arm: "inv s \<Longrightarrow> inv (snd (arm now ns cb s))"
    and inv_stop: "inv s \<Longrightarrow> issued s j \<Longrightarrow> inv (stop j s)"
begin

lemma arm_other: "inv s \<Longrightarrow> cb_of s i = Some c \<Longrightarrow> cb_of (snd (arm now ns cb s)) i = Some c"
  using arm_new [of s now ns cb] cb_issued by (auto simp: arm_bind)

lemma arm_then_stop:
  assumes "inv s"
  shows "cb_of (stop (fst (arm now ns cb s)) (snd (arm now ns cb s))) i = cb_of s i"
  using assms arm_new [of s now ns cb] cb_issued [of s "fst (arm now ns cb s)"]
  by (cases "cb_of s (fst (arm now ns cb s))") (auto simp: stop_bind inv_arm arm_bind)

lemma fold_stop:
  "inv s \<Longrightarrow> (\<And>j. j \<in> set js \<Longrightarrow> issued s j) \<Longrightarrow>
   inv (fold stop js s) \<and>
   (\<forall>i. cb_of (fold stop js s) i = (if i \<in> set js then None else cb_of s i)) \<and>
   (\<forall>i. issued (fold stop js s) i = issued s i)"
proof (induction js arbitrary: s)
  case (Cons j js)
  have "inv (stop j s)" using Cons.prems by (simp add: inv_stop)
  moreover have "issued (stop j s) i" if "i \<in> set js" for i
    using Cons.prems that by (simp add: stop_issued)
  ultimately show ?case
    using Cons.IH [of "stop j s"] Cons.prems(1) by (auto simp: stop_bind stop_issued)
qed simp

end

lemma el_wf_cb: "el_wf el \<Longrightarrow> um_find (el_timerCbs el) i = Some c \<Longrightarrow> i < el_nextTimerId el \<and> i \<notin> set (el_canceled el)"
  using um_find_key [of "el_timerCbs el" i c] by (auto simp: el_wf_def)

lemma el_wf_looping: "el_wf el \<Longrightarrow> el_looping el"
  by (simp add: el_wf_def)

lemma runAfter_simps:
  "el_looping el \<Longrightarrow> fst (runAfter True now ns cb el) = el_nextTimerId el"
  "el_looping el \<Longrightarrow> snd (runAfter True now ns cb el) =
     insertTimer \<lparr>tm_when = now + ns, tm_interval = 0, tm_id = el_nextTimerId el\<rparr> cb
       (el\<lparr>el_nextTimerId := Suc (el_nextTimerId el)\<rparr>)"
  by (simp_all add: runAfter_def runTimer_def Let_def)

lemma el_wf_runAfter: "el_wf el \<Longrightarrow> el_wf (snd (runAfter True now ns cb el))"
  by (auto simp: runAfter_simps insertTimer_def el_wf_def dom_update less_Suc_eq)

lemma el_wf_cancel: "el_wf el \<Longrightarrow> i < el_nextTimerId el \<Longrightarrow> el_wf (cancel_timer True i el)"
  by (auto simp: cancel_timer_def cancelInLoop_def el_wf_def um_erase_mem)

interpretation els: timer_service el_wf "\<lambda>el i. i < el_nextTimerId el" "runAfter True" "cancel_timer True"
    "\<lambda>el. um_find (el_timerCbs el)"
proof (unfold_locales, goal_cases)
  case (1 s i c)
  then show ?case by (blast dest: el_wf_cb)
next
  case (7 s now ns cb)
  then show ?case by (rule el_wf_runAfter)
next
  case (8 s j)
  then show ?case by (rule el_wf_cancel)
qed (auto simp: runAfter_simps el_wf_looping insertTimer_def um_find_set um_find_erase
    cancel_timer_def cancelInLoop_def)

section \<open>Lemmas\<close>

lemma el_wf_popExpired: "el_wf el \<Longrightarrow> el_wf (snd (popExpired now el))"
  by (auto simp: popExpired_def el_wf_def)

lemma el_wf_timerBegin: "el_wf el \<Longrightarrow> el_wf (snd (timerBegin t el))"
  by (auto simp: timerBegin_def el_wf_def um_erase_mem)

text \<open>a timer whose identifier was cancelled does not run its callback when it expires,
  and the cancellation is forgotten afterwards.\<close>

theorem cancelled_timer_silent:
  assumes "el_looping el"
  shows "fst (timerBegin t (cancel_timer True (tm_id t) el)) = (False, None) \<and>
         tm_id t \<notin> set (el_canceled (snd (timerBegin t (cancel_timer True (tm_id t) el))))"
  using assms by (simp add: timerBegin_def cancel_timer_def cancelInLoop_def)

theorem cancelled_timer_silent_witness:
  "fst (timerBegin \<lparr>tm_when = 5, tm_interval = 0, tm_id = 1\<rparr>
      (cancel_timer True 1 ((EventLoop_init :: (nat, nat) EventLoop)\<lparr>el_looping := True\<rparr>))) = (False, None)"
  using cancelled_timer_silent
    [of "(EventLoop_init :: (nat, nat) EventLoop)\<lparr>el_looping := True\<rparr>" "\<lparr>tm_when = 5, tm_interval = 0, tm_id = 1\<rparr>"]
  by simp

text \<open>an armed timer fires when its time has come: it is among the expired timers, its
  callback is the one given, and after that the callback is gone, so it fires only once.\<close>

theorem armed_timer_fires_once:
  assumes "el_wf el" "now + ns \<le> later" "runAfter True now ns cb el = (i, el1)"
    and "t = \<lparr>tm_when = now + ns, tm_interval = 0, tm_id = i\<rparr>"
    and "el2 = snd (popExpired later el1)"
  shows "t \<in> set (fst (popExpired later el1)) \<and>
         fst (timerBegin t el2) = (True, Some cb) \<and>
         um_find (el_timerCbs (timerEnd later t (Some cb) (snd (timerBegin t el2)))) i = None"
proof -
  have i: "i = el_nextTimerId el" and el1: "el1 = snd (runAfter True now ns cb el)"
    using assms(1,3) runAfter_simps(1) [of el now ns cb] by (auto simp: el_wf_def)
  have "i \<notin> set (el_canceled el)"
    using assms(1) i by (auto simp: el_wf_def)
  then show ?thesis
    using assms(1,2) i unfolding assms(4,5) el1
    by (auto simp: runAfter_simps el_wf_def insertTimer_def popExpired_def timerBegin_def
        timerEnd_def um_find_set um_find_erase)
qed

theorem armed_timer_fires_once_witness:
  "fst (timerBegin \<lparr>tm_when = 10, tm_interval = 0, tm_id = 1\<rparr>
     (snd (popExpired 12 (snd (runAfter True 0 10 (7 :: nat)
        ((EventLoop_init :: (nat, nat) EventLoop)\<lparr>el_looping := True\<rparr>)))))) = (True, Some 7)"
proof -
  let ?el = "(EventLoop_init :: (nat, nat) EventLoop)\<lparr>el_looping := True\<rparr>"
  have "el_wf ?el" by (simp add: el_wf_def EventLoop_init_def)
  moreover have "runAfter True 0 10 7 ?el = (1, snd (runAfter True 0 10 7 ?el))"
    by (simp add: runAfter_def runTimer_def EventLoop_init_def Let_def)
  ultimately show ?thesis
    using armed_timer_fires_once [of ?el 0 10 12 7 1 "snd (runAfter True 0 10 7 ?el)", OF _ _ _ refl refl]
    by simp
qed

text \<open>cancelling a one-shot timer after it has fired leaves its identifier in the set of
  cancelled timers for good: no later expiry of the timers in the heap removes it.\<close>

theorem late_cancel_leaks:
  assumes "el_looping el" "\<forall>t \<in> set (el_timers el). tm_id t \<noteq> i"
    and "t \<in> set (el_timers el)"
  shows "i \<in> set (el_canceled (snd (timerBegin t (cancel_timer True i el))))"
  using assms by (auto simp: cancel_timer_def cancelInLoop_def timerBegin_def)

theorem late_cancel_leaks_witness:
  "let el = (EventLoop_init :: (nat, nat) EventLoop)
         \<lparr>el_looping := True, el_timers := [\<lparr>tm_when = 0, tm_interval = 0, tm_id = 2\<rparr>]\<rparr>
   in 1 \<in> set (el_canceled (snd (timerBegin \<lparr>tm_when = 0, tm_interval = 0, tm_id = 2\<rparr> (cancel_timer True 1 el))))"
  unfolding Let_def by (rule late_cancel_leaks) (simp_all add: EventLoop_init_def)

end
