(* ===== verification/Detail.thy ===== *)
theory Detail
  imports Ir
begin

text \<open>
  Random identifiers and time stamps (\<^verbatim>\<open>src/detail/Random.cpp\<close>, \<^verbatim>\<open>Time.h\<close>) and the
  counters (\<^verbatim>\<open>Counters.h\<close>). What \<^verbatim>\<open>getrandom\<close> delivers and the fallback generator are
  arguments. Lemmas: identifiers have exactly two hex digits per byte, whatever the system
  call delivers, and different bytes give different identifiers.
\<close>

unbundle bit_operations_syntax

section \<open>randomHex\<close>

definition kHex :: string where "kHex = ''0123456789abcdef''"

definition hexByte :: "8 word \<Rightarrow> string" where
  "hexByte b = [kHex ! unat (drop_bit 4 b), kHex ! unat (b AND 15)]"

text \<open>\<open>draws\<close>: what the successive calls of \<^verbatim>\<open>getrandom\<close> return, an empty list for a failure.\<close>

fun randomHex_loop :: "nat \<Rightarrow> 8 word list \<Rightarrow> 8 word list list \<Rightarrow> 8 word list" where
  "randomHex_loop nBytes got [] = got"
| "randomHex_loop nBytes got (d # ds) =
     (if length got < nBytes then
        (let chunk = min (nBytes - length got) 64; r = take chunk d in
         if r = [] then got else randomHex_loop nBytes (got @ r) ds)
      else got)"

definition randomHex :: "nat \<Rightarrow> 8 word list list \<Rightarrow> (nat \<Rightarrow> 8 word) \<Rightarrow> string" where
  "randomHex nBytes draws fallback =
     (let got = randomHex_loop nBytes [] draws
      in concat (map hexByte (got @ map fallback [length got ..< nBytes])))"

section \<open>iso8601Utc\<close>

text \<open>\<^verbatim>\<open>gmtime_r\<close>: the civil date of a number of days since 1970-01-01 (proleptic Gregorian
  calendar, computed in eras of 400 years that begin in March).\<close>

definition civil_from_days :: "nat \<Rightarrow> nat \<times> nat \<times> nat" where
  "civil_from_days days =
    (let z = days + 719468;
         era = z div 146097;
         doe = z mod 146097;
         yoe = (doe - doe div 1460 + doe div 36524 - doe div 146096) div 365;
         y = yoe + era * 400;
         doy = doe - (365 * yoe + yoe div 4 - yoe div 100);
         mp = (5 * doy + 2) div 153;
         d = doy - (153 * mp + 2) div 5 + 1;
         m = (if mp < 10 then mp + 3 else mp - 9)
     in (if m \<le> 2 then y + 1 else y, m, d))"

definition pad :: "nat \<Rightarrow> nat \<Rightarrow> string" where
  "pad w n = (let s = nat_digits n in replicate (w - length s) (CHR ''0'') @ s)"

definition iso8601Utc :: "u64 \<Rightarrow> string" where
  "iso8601Utc unixMs =
    (let sec = unat unixMs div 1000; ms = unat unixMs mod 1000;
         (y, mo, d) = civil_from_days (sec div 86400);
         tod = sec mod 86400
     in nat_digits y @ ''-'' @ pad 2 mo @ ''-'' @ pad 2 d @ ''T'' @
        pad 2 (tod div 3600) @ '':'' @ pad 2 (tod div 60 mod 60) @ '':'' @ pad 2 (tod mod 60) @
        ''.'' @ pad 3 ms @ ''Z'')"

section \<open>Counters\<close>

record Counters =
  cn_inflightHit :: u64
  cn_inflightConfirm :: u64
  cn_throttled :: u64
  cn_circuitOpen :: u64
  cn_otlpDropped :: u64
  cn_permitHeld :: int
  cn_inflightHeld :: int

definition Counters_init :: Counters where
  "Counters_init = \<lparr>cn_inflightHit = 0, cn_inflightConfirm = 0, cn_throttled = 0,
     cn_circuitOpen = 0, cn_otlpDropped = 0, cn_permitHeld = 0, cn_inflightHeld = 0\<rparr>"

section \<open>Lemmas\<close>

lemma randomHex_loop_length: "length got \<le> n \<Longrightarrow> length (randomHex_loop n got ds) \<le> n"
  by (induction n got ds rule: randomHex_loop.induct) (auto simp: Let_def)

lemma length_concat_hexByte: "length (concat (map hexByte bs)) = 2 * length bs"
  by (induction bs) (auto simp: hexByte_def)

lemma randomHex_length: "length (randomHex n draws fb) = 2 * n"
  using randomHex_loop_length [of "[]" n draws]
  unfolding randomHex_def Let_def length_concat_hexByte by simp

lemma nibbles_less: "unat (drop_bit 4 (b :: 8 word)) < 16" "unat (b AND 15) < 16"
proof -
  have "unat (drop_bit 4 b) = unat b div 16"
    by (simp add: drop_bit_eq_div unat_div)
  moreover have "unat b < 256" using unsigned_less [of b] by simp
  ultimately show "unat (drop_bit 4 b) < 16" by simp
  have "b AND 15 = take_bit 4 b"
    by (simp add: take_bit_eq_mask mask_eq_exp_minus_1)
  then show "unat (b AND 15) < 16"
    by (simp add: unat_mod take_bit_eq_mod)
qed

lemma kHex_nth_inj: "i < 16 \<Longrightarrow> j < 16 \<Longrightarrow> kHex ! i = kHex ! j \<Longrightarrow> i = j"
proof -
  have "distinct kHex" "length kHex = 16" by (simp_all add: kHex_def)
  then show "i < 16 \<Longrightarrow> j < 16 \<Longrightarrow> kHex ! i = kHex ! j \<Longrightarrow> i = j"
    by (simp add: nth_eq_iff_index_eq)
qed

lemma hexByte_inj: "hexByte a = hexByte b \<Longrightarrow> a = b"
proof -
  assume "hexByte a = hexByte b"
  then have hi: "unat (drop_bit 4 a) = unat (drop_bit 4 b)" and lo: "unat (a AND 15) = unat (b AND 15)"
    using kHex_nth_inj [OF nibbles_less(1) nibbles_less(1)] kHex_nth_inj [OF nibbles_less(2) nibbles_less(2)]
    unfolding hexByte_def list.inject by blast+
  have split: "unat x = 16 * unat (drop_bit 4 x) + unat (x AND 15)" for x :: "8 word"
  proof -
    have "x AND 15 = take_bit 4 x" by (simp add: take_bit_eq_mask mask_eq_exp_minus_1)
    then show ?thesis
      by (simp add: drop_bit_eq_div unat_div unat_mod take_bit_eq_mod)
  qed
  show "a = b" using hi lo split [of a] split [of b] by (simp add: word_unat_eq_iff)
qed

lemma concat_hexByte_inj:
  "concat (map hexByte xs) = concat (map hexByte ys) \<Longrightarrow> xs = ys"
proof (induction xs arbitrary: ys)
  case Nil
  then show ?case by (cases ys) (auto simp: hexByte_def)
next
  case (Cons x xs)
  then obtain y ys' where ys: "ys = y # ys'"
    by (cases ys) (auto simp: hexByte_def)
  have "length (hexByte x) = length (hexByte y)" by (simp add: hexByte_def)
  with Cons.prems ys have "hexByte x = hexByte y" "concat (map hexByte xs) = concat (map hexByte ys')"
    by (auto simp del: append_eq_append_conv simp add: append_eq_append_conv)
  then show ?case using Cons.IH hexByte_inj ys by blast
qed

text \<open>two identifiers of the same length are equal exactly when all their random bytes
  are, and every identifier has two hex digits per byte, also when the system call delivers
  short reads or fails and the fallback generator fills in.\<close>

theorem randomHex_faithful:
  "length (randomHex n draws fb) = 2 * n \<and>
   (randomHex n draws fb = randomHex n draws' fb' \<longleftrightarrow>
      randomHex_loop n [] draws @ map fb [length (randomHex_loop n [] draws) ..< n] =
      randomHex_loop n [] draws' @ map fb' [length (randomHex_loop n [] draws') ..< n])"
proof (intro conjI iffI)
  show "length (randomHex n draws fb) = 2 * n" by (rule randomHex_length)
  assume "randomHex n draws fb = randomHex n draws' fb'"
  then show "randomHex_loop n [] draws @ map fb [length (randomHex_loop n [] draws) ..< n] =
      randomHex_loop n [] draws' @ map fb' [length (randomHex_loop n [] draws') ..< n]"
    unfolding randomHex_def Let_def by (rule concat_hexByte_inj)
qed (simp only: randomHex_def Let_def)

end
