(* ===== verification/Env.thy ===== *)
theory Env
  imports Event_Loop Detail
begin

text \<open>
  What every component of the gateway reads from its surroundings, as one part of the state:
  the wall clock (\<^verbatim>\<open>nowMs()\<close> in \<^verbatim>\<open>src/detail/Time.h\<close>), the steady clock, the random
  source, the event loop and the counters. The clocks and the random source are arbitrary
  sequences: each read takes the next element, so a theorem holds for every behaviour of
  the clock. All handlers run on the loop thread. The components' states extend this record.
\<close>

text \<open>The closures the gateway arms as timers: the time-out of a waiter (tool, waiter id), the
  promotion of a call (its address), the health probes, the refresh of the grants, the
  supervision of the drain.\<close>

datatype timer_cb =
    TQueueTimeout string nat
  | TPromote nat
  | TProbe
  | TGrantRefresh
  | TDrain

record 'p Env =
  env_tick :: "nat \<Rightarrow> u64"
  env_steady :: "nat \<Rightarrow> int"
  env_clk :: nat
  env_delayNs :: "u64 \<Rightarrow> int"   \<comment> \<open>milliseconds to a duration, through a \<^verbatim>\<open>double\<close> of seconds\<close>
  env_draws :: "nat \<Rightarrow> 8 word list list"
  env_fallback :: "nat \<Rightarrow> nat \<Rightarrow> 8 word"
  env_rnd :: nat
  env_loop :: "(timer_cb, 'p) EventLoop"
  env_counters :: Counters

definition nowMs :: "('p, 'z) Env_scheme \<Rightarrow> u64 \<times> ('p, 'z) Env_scheme" where
  "nowMs s = (env_tick s (env_clk s), s\<lparr>env_clk := Suc (env_clk s)\<rparr>)"

definition env_randomHex :: "nat \<Rightarrow> ('p, 'z) Env_scheme \<Rightarrow> string \<times> ('p, 'z) Env_scheme" where
  "env_randomHex n s =
     (randomHex n (env_draws s (env_rnd s)) (env_fallback s (env_rnd s)), s\<lparr>env_rnd := Suc (env_rnd s)\<rparr>)"

definition env_runAfter :: "u64 \<Rightarrow> timer_cb \<Rightarrow> ('p, 'z) Env_scheme \<Rightarrow> nat \<times> ('p, 'z) Env_scheme" where
  "env_runAfter ms cb s =
    (let (i, el) = runAfter True (env_steady s (env_clk s)) (env_delayNs s ms) cb (env_loop s)
     in (i, s\<lparr>env_clk := Suc (env_clk s), env_loop := el\<rparr>))"

definition env_cancel :: "nat \<Rightarrow> ('p, 'z) Env_scheme \<Rightarrow> ('p, 'z) Env_scheme" where
  "env_cancel i s = s\<lparr>env_loop := cancel_timer True i (env_loop s)\<rparr>"

abbreviation timerCb :: "('p, 'z) Env_scheme \<Rightarrow> nat \<Rightarrow> timer_cb option" where
  "timerCb s i \<equiv> um_find (el_timerCbs (env_loop s)) i"

definition env_sample :: "nat Env" where
  "env_sample = \<lparr>env_tick = (\<lambda>n. 0), env_steady = (\<lambda>n. 0), env_clk = 0, env_delayNs = uint, env_draws = (\<lambda>n. []),
     env_fallback = (\<lambda>n k. 0), env_rnd = 0, env_loop = EventLoop_init, env_counters = Counters_init\<rparr>"

section \<open>Frames\<close>

text \<open>A read of the clock or of the random source changes nothing but its own position; the
  timer operations change the loop only.\<close>

lemma nowMs_frame [pf_frames]:
  "env_loop (snd (nowMs s)) = env_loop s" "env_counters (snd (nowMs s)) = env_counters s"
  "Env.more (snd (nowMs s)) = Env.more s"
  by (simp_all add: nowMs_def)

lemma env_cancel_frame [pf_frames]:
  "env_counters (env_cancel i s) = env_counters s" "Env.more (env_cancel i s) = Env.more s"
  "env_clk (env_cancel i s) = env_clk s" "env_tick (env_cancel i s) = env_tick s"
  by (simp_all add: env_cancel_def)

lemma env_runAfter_frame [pf_frames]:
  "env_counters (snd (env_runAfter ms cb s)) = env_counters s"
  "Env.more (snd (env_runAfter ms cb s)) = Env.more s"
  by (simp_all add: env_runAfter_def split_beta)

text \<open>The event loop as part of the state is still a timer service.\<close>

interpretation env: timer_service "\<lambda>s. el_wf (env_loop s)" "\<lambda>s i. i < el_nextTimerId (env_loop s)"
    "\<lambda>_ ns cb s. env_runAfter (of_int ns) cb s" env_cancel timerCb
proof (unfold_locales, goal_cases)
  case (1 s i c)
  then show ?case by (rule els.cb_issued)
next
  case (2 s now ns cb)
  then show ?case using els.arm_new [of "env_loop s"] by (simp add: env_runAfter_def split_beta)
next
  case (3 s now ns cb i)
  then show ?case using els.arm_issued [of "env_loop s"] by (simp add: env_runAfter_def split_beta)
next
  case (4 s now ns cb i)
  then show ?case using els.arm_bind [of "env_loop s"] by (simp add: env_runAfter_def split_beta)
next
  case (5 s j i)
  then show ?case using els.stop_bind [of "env_loop s"] by (simp add: env_cancel_def)
next
  case (6 s j i)
  then show ?case using els.stop_issued [of "env_loop s"] by (simp add: env_cancel_def)
next
  case (7 s now ns cb)
  then show ?case using els.inv_arm [of "env_loop s"] by (simp add: env_runAfter_def split_beta)
next
  case (8 s j)
  then show ?case using els.inv_stop [of "env_loop s"] by (simp add: env_cancel_def)
qed

text \<open>Arming with a delay in milliseconds, in the form the components use.\<close>

lemma env_runAfter_props:
  assumes "el_wf (env_loop s)" "env_runAfter ms cb s = (i, s')"
  shows "el_wf (env_loop s')" "i = el_nextTimerId (env_loop s)" "i \<noteq> 0"
    "timerCb s' j = (if j = i then Some cb else timerCb s j)" "timerCb s i = None"
proof -
  have *: "runAfter True (env_steady s (env_clk s)) (env_delayNs s ms) cb (env_loop s) = (i, env_loop s')"
    using assms(2) by (auto simp: env_runAfter_def split_beta)
  then show "el_wf (env_loop s')" using els.inv_arm [OF assms(1)] by (metis snd_conv)
  show i: "i = el_nextTimerId (env_loop s)"
    using * runAfter_simps(1) [OF el_wf_looping [OF assms(1)]] by (metis fst_conv)
  then show "i \<noteq> 0" using assms(1) by (simp add: el_wf_def)
  show "timerCb s' j = (if j = i then Some cb else timerCb s j)"
    using els.arm_bind [OF assms(1)] * by (metis fst_conv snd_conv)
  show "timerCb s i = None"
    using els.cb_issued [OF assms(1), of i] i by (cases "timerCb s i") auto
qed

end
