(* ===== verification/InFlight.thy ===== *)
theory InFlight
  imports Env
begin

text \<open>
  Calls in flight (\<^verbatim>\<open>src/pipeline/InFlight.cpp\<close>): the table that recognises a repeated
  call of the same agent, tool and parameters. \<open>InFlight_insert\<close> draws its identifier from
  the random source of the environment. Interface: the locale \<open>dedup_table\<close>, interpreted on
  the table. Lemmas: keys of different callers never collide, a hit belongs to the caller,
  a call is found until it is erased.
\<close>

record InFlight_Entry =
  ie_inflightId :: string
  ie_startedAtMs :: u64
  ie_taskId :: "string option"
  ie_paramsSummary :: string
  ie_key :: ToolKey
  ie_agentId :: string
  ie_paramsHash :: string

record InFlight =
  if_byId :: "(string, InFlight_Entry) umap"
  if_keyToId :: "(string, string) umap"

definition InFlight_init :: InFlight where
  "InFlight_init = \<lparr>if_byId = [], if_keyToId = []\<rparr>"

definition mapKey :: "string \<Rightarrow> string \<Rightarrow> string \<Rightarrow> string" where
  "mapKey agent tool hash = agent @ [CHR 0x0A] @ tool @ [CHR 0x0A] @ hash"

definition InFlight_lookup :: "string \<Rightarrow> ToolKey \<Rightarrow> string \<Rightarrow> InFlight \<Rightarrow> InFlight_Entry option" where
  "InFlight_lookup agentId key paramsHash f =
     (case um_find (if_keyToId f) (mapKey agentId (ToolKey_str key) paramsHash) of
        None \<Rightarrow> None
      | Some i \<Rightarrow> um_find (if_byId f) i)"

definition entryKey :: "InFlight_Entry \<Rightarrow> string" where
  "entryKey e = mapKey (ie_agentId e) (ToolKey_str (ie_key e)) (ie_paramsHash e)"

text \<open>The insertion of a finished entry, and the whole operation with its random identifier.\<close>

definition InFlight_put :: "InFlight_Entry \<Rightarrow> InFlight \<Rightarrow> InFlight" where
  "InFlight_put e f =
     f\<lparr>if_keyToId := um_set (entryKey e) (ie_inflightId e) (if_keyToId f),
       if_byId := um_set (ie_inflightId e) e (if_byId f)\<rparr>"

definition InFlight_insert ::
  "string \<Rightarrow> ToolKey \<Rightarrow> string \<Rightarrow> string \<Rightarrow> u64 \<Rightarrow> InFlight \<Rightarrow> ('p, 'z) Env_scheme \<Rightarrow>
   string \<times> InFlight \<times> ('p, 'z) Env_scheme" where
  "InFlight_insert agentId key paramsHash summary now f s =
    (let (i, s1) = env_randomHex 16 s;
         e = \<lparr>ie_inflightId = i, ie_startedAtMs = now, ie_taskId = None, ie_paramsSummary = summary,
              ie_key = key, ie_agentId = agentId, ie_paramsHash = paramsHash\<rparr>
     in (i, InFlight_put e f,
         s1\<lparr>env_counters := (env_counters s1)\<lparr>cn_inflightHeld := cn_inflightHeld (env_counters s1) + 1\<rparr>\<rparr>))"

definition InFlight_setTaskId :: "string \<Rightarrow> string \<Rightarrow> InFlight \<Rightarrow> InFlight" where
  "InFlight_setTaskId i taskId f =
     (case um_find (if_byId f) i of
        None \<Rightarrow> f
      | Some e \<Rightarrow> f\<lparr>if_byId := um_set i (e\<lparr>ie_taskId := Some taskId\<rparr>) (if_byId f)\<rparr>)"

definition InFlight_drop :: "string \<Rightarrow> InFlight \<Rightarrow> InFlight" where
  "InFlight_drop i f =
     (case um_find (if_byId f) i of
        None \<Rightarrow> f
      | Some e \<Rightarrow> f\<lparr>if_keyToId := um_erase (entryKey e) (if_keyToId f),
                   if_byId := um_erase i (if_byId f)\<rparr>)"

definition InFlight_erase ::
  "string \<Rightarrow> InFlight \<Rightarrow> ('p, 'z) Env_scheme \<Rightarrow> InFlight \<times> ('p, 'z) Env_scheme" where
  "InFlight_erase i f s =
     (if um_find (if_byId f) i = None then (f, s)
      else (InFlight_drop i f,
            s\<lparr>env_counters := (env_counters s)\<lparr>cn_inflightHeld := cn_inflightHeld (env_counters s) - 1\<rparr>\<rparr>))"

definition InFlight_held :: "InFlight \<Rightarrow> int" where
  "InFlight_held f = int (length (if_byId f))"

section \<open>Keys\<close>

text \<open>Agent identifiers come from the configuration, hashes are hex digits or a JSON text: neither
  holds a line feed. Tool names come from the client and may hold anything.\<close>

definition plain :: "string \<Rightarrow> bool" where
  "plain s \<longleftrightarrow> CHR 0x0A \<notin> set s"

lemma split_at_first:
  "x \<notin> set a \<Longrightarrow> x \<notin> set b \<Longrightarrow> a @ x # c = b @ x # d \<longleftrightarrow> a = b \<and> c = d"
proof (induction a arbitrary: b)
  case Nil
  then show ?case by (cases b) auto
next
  case (Cons y a)
  then show ?case by (cases b) auto
qed

lemma split_at_last:
  assumes "x \<notin> set c" "x \<notin> set d"
  shows "a @ x # c = b @ x # d \<longleftrightarrow> a = b \<and> c = d"
proof -
  have "a @ x # c = b @ x # d \<longleftrightarrow> rev (a @ x # c) = rev (b @ x # d)" by (simp only: rev_is_rev_conv)
  also have "\<dots> \<longleftrightarrow> rev c @ x # rev a = rev d @ x # rev b" by simp
  also have "\<dots> \<longleftrightarrow> a = b \<and> c = d"
    using assms split_at_first [of x "rev c" "rev d" "rev a" "rev b"] by auto
  finally show ?thesis .
qed

lemma mapKey_inj:
  assumes "plain a" "plain a'" "plain h" "plain h'"
  shows "mapKey a t h = mapKey a' t' h' \<longleftrightarrow> a = a' \<and> t = t' \<and> h = h'"
proof -
  have "mapKey a t h = mapKey a' t' h' \<longleftrightarrow> a = a' \<and> t @ CHR 0x0A # h = t' @ CHR 0x0A # h'"
    using assms split_at_first [of "CHR 0x0A" a a'] by (simp add: mapKey_def plain_def)
  then show ?thesis
    using assms split_at_last [of "CHR 0x0A" h h' t t'] by (simp add: plain_def)
qed

text \<open>two calls share a table key only if agent, tool and parameter hash are the same, also
  when a client puts line feeds into the tool name.\<close>

theorem mapKey_injective:
  assumes "plain a" "plain a'" "plain h" "plain h'"
  shows "mapKey a t h = mapKey a' t' h' \<longleftrightarrow> a = a' \<and> t = t' \<and> h = h'"
  using assms by (rule mapKey_inj)

theorem mapKey_injective_witness:
  "mapKey ''ann'' (''b__t'' @ [CHR 0x0A] @ ''x'') ''00'' \<noteq> mapKey ''ann'' ''b__t'' ''x''"
  using mapKey_injective [of "''ann''" "''ann''" "''00''" "''x''" "''b__t'' @ [CHR 0x0A] @ ''x''" "''b__t''"]
  by (simp add: plain_def)

section \<open>Invariant\<close>

definition inflight_ok :: "InFlight \<Rightarrow> bool" where
  "inflight_ok f \<longleftrightarrow>
     um_wf (if_byId f) \<and> um_wf (if_keyToId f) \<and>
     (\<forall>i e. um_find (if_byId f) i = Some e \<longrightarrow>
        ie_inflightId e = i \<and> plain (ie_agentId e) \<and> plain (ie_paramsHash e)) \<and>
     (\<forall>k i. um_find (if_keyToId f) k = Some i \<longrightarrow>
        (\<exists>e. um_find (if_byId f) i = Some e \<and> entryKey e = k))"

lemma inflight_ok_init: "inflight_ok InFlight_init"
  by (simp add: inflight_ok_def InFlight_init_def)

lemma inflight_ok_put:
  assumes "inflight_ok f" "um_find (if_byId f) (ie_inflightId e) = None" "plain (ie_agentId e)" "plain (ie_paramsHash e)"
  shows "inflight_ok (InFlight_put e f)"
  using assms by (auto simp: inflight_ok_def InFlight_put_def um_find_set) fastforce+

lemma inflight_ok_setTaskId: "inflight_ok f \<Longrightarrow> inflight_ok (InFlight_setTaskId i t f)"
  by (auto simp: inflight_ok_def InFlight_setTaskId_def um_find_set entryKey_def split: option.splits)
    fastforce+

lemma inflight_ok_drop: "inflight_ok f \<Longrightarrow> inflight_ok (InFlight_drop i f)"
  by (auto simp: inflight_ok_def InFlight_drop_def um_find_erase split: option.splits) fastforce+

section \<open>Interface\<close>

text \<open>
  What the pipeline relies on: a table keyed by \<open>(agent, tool, hash)\<close>. A new entry is found
  under its own key and hides nothing of other keys; erasing an entry removes it.
\<close>

locale dedup_table =
  fixes inv :: "'t \<Rightarrow> bool"
    and look :: "'k \<Rightarrow> 't \<Rightarrow> 'e option"
    and key_of :: "'e \<Rightarrow> 'k"
    and id_of :: "'e \<Rightarrow> 'i"
    and fresh :: "'e \<Rightarrow> 't \<Rightarrow> bool"
    and put :: "'e \<Rightarrow> 't \<Rightarrow> 't"
    and del :: "'i \<Rightarrow> 't \<Rightarrow> 't"
  assumes look_key: "inv t \<Longrightarrow> look k t = Some e \<Longrightarrow> key_of e = k"
    and look_put: "inv t \<Longrightarrow> fresh e t \<Longrightarrow> look k (put e t) = (if k = key_of e then Some e else look k t)"
    and look_del: "inv t \<Longrightarrow> look k (del i t) = Some e \<Longrightarrow> look k t = Some e \<and> id_of e \<noteq> i"
    and look_del_other: "inv t \<Longrightarrow> look k t = Some e \<Longrightarrow> look (key_of e') t \<noteq> look k t \<Longrightarrow>
          look (key_of e') t = Some e' \<Longrightarrow> look k (del (id_of e') t) = Some e"
    and inv_put: "inv t \<Longrightarrow> fresh e t \<Longrightarrow> inv (put e t)"
    and inv_del: "inv t \<Longrightarrow> inv (del i t)"
begin

lemma put_then_del: "inv t \<Longrightarrow> fresh e t \<Longrightarrow> look (key_of e) (del (id_of e) (put e t)) = None"
  using look_del [OF inv_put, of t e "key_of e" "id_of e"] look_put [of t e "key_of e"]
  by (cases "look (key_of e) (del (id_of e) (put e t))") auto

lemma puts_found:
  "inv t \<Longrightarrow> fresh e t \<Longrightarrow> fresh e' (put e t) \<Longrightarrow> key_of e' \<noteq> key_of e \<Longrightarrow>
   look (key_of e) (put e' (put e t)) = Some e"
  by (simp add: look_put inv_put)

end

definition inflight_fresh :: "InFlight_Entry \<Rightarrow> InFlight \<Rightarrow> bool" where
  "inflight_fresh e f \<longleftrightarrow>
     um_find (if_byId f) (ie_inflightId e) = None \<and> plain (ie_agentId e) \<and> plain (ie_paramsHash e)"

definition look_by :: "string \<Rightarrow> InFlight \<Rightarrow> InFlight_Entry option" where
  "look_by k f = (case um_find (if_keyToId f) k of None \<Rightarrow> None | Some i \<Rightarrow> um_find (if_byId f) i)"

lemma InFlight_lookup_by: "InFlight_lookup a key h f = look_by (mapKey a (ToolKey_str key) h) f"
  by (simp add: InFlight_lookup_def look_by_def)

lemma look_by_Some:
  "inflight_ok f \<Longrightarrow> look_by k f = Some e \<Longrightarrow>
   entryKey e = k \<and> um_find (if_keyToId f) k = Some (ie_inflightId e) \<and> um_find (if_byId f) (ie_inflightId e) = Some e"
  by (fastforce simp: inflight_ok_def look_by_def split: option.splits)

lemma look_by_put:
  assumes "inflight_ok f" "inflight_fresh e f"
  shows "look_by k (InFlight_put e f) = (if k = entryKey e then Some e else look_by k f)"
  using assms unfolding inflight_ok_def
  by (auto simp: look_by_def InFlight_put_def um_find_set inflight_fresh_def split: option.splits)
    (metis option.distinct(1))

lemma look_by_drop:
  assumes "inflight_ok f" "look_by k (InFlight_drop i f) = Some e"
  shows "look_by k f = Some e \<and> ie_inflightId e \<noteq> i"
proof -
  have "inflight_ok (InFlight_drop i f)" using assms(1) by (rule inflight_ok_drop)
  from look_by_Some [OF this assms(2)]
  have "um_find (if_byId (InFlight_drop i f)) (ie_inflightId e) = Some e"
    "um_find (if_keyToId (InFlight_drop i f)) k = Some (ie_inflightId e)" by auto
  then show ?thesis
    by (auto simp: look_by_def InFlight_drop_def um_find_erase split: option.splits if_splits)
qed

interpretation infl: dedup_table inflight_ok look_by entryKey ie_inflightId inflight_fresh InFlight_put InFlight_drop
proof (unfold_locales, goal_cases)
  case (1 t k e)
  then show ?case by (blast dest: look_by_Some)
next
  case (2 t e k)
  then show ?case by (rule look_by_put)
next
  case (3 t k i e)
  then show ?case by (rule look_by_drop)
next
  case (4 t k e e')
  have e: "entryKey e = k" "um_find (if_keyToId t) k = Some (ie_inflightId e)" "um_find (if_byId t) (ie_inflightId e) = Some e"
    using look_by_Some [OF 4(1,2)] by auto
  have e': "um_find (if_byId t) (ie_inflightId e') = Some e'"
    using look_by_Some [OF 4(1,4)] by auto
  have "entryKey e' \<noteq> k" using 4(2,3) by auto
  moreover have "ie_inflightId e' \<noteq> ie_inflightId e" using e e' \<open>entryKey e' \<noteq> k\<close> by auto
  ultimately show ?case using e e' by (simp add: look_by_def InFlight_drop_def um_find_erase)
next
  case (5 t e)
  then show ?case by (auto simp: inflight_fresh_def intro: inflight_ok_put)
next
  case (6 t i)
  then show ?case by (rule inflight_ok_drop)
qed

section \<open>Properties\<close>

text \<open>a hit always is an entry of the same agent, tool and parameter hash: one caller never
  sees the call of another.\<close>

theorem InFlight_hit_own:
  assumes "inflight_ok f" "plain a" "plain h" "InFlight_lookup a key h f = Some e"
  shows "ie_agentId e = a \<and> ToolKey_str (ie_key e) = ToolKey_str key \<and> ie_paramsHash e = h"
proof -
  have "entryKey e = mapKey a (ToolKey_str key) h"
    using infl.look_key [OF assms(1)] assms(4) by (simp add: InFlight_lookup_by)
  moreover have "plain (ie_agentId e)" "plain (ie_paramsHash e)"
    using look_by_Some [OF assms(1)] assms(1,4) by (auto simp: InFlight_lookup_by inflight_ok_def)
  ultimately show ?thesis using mapKey_inj assms by (simp add: entryKey_def)
qed

definition inflight_sample :: "string \<Rightarrow> InFlight_Entry" where
  "inflight_sample i = \<lparr>ie_inflightId = i, ie_startedAtMs = 5, ie_taskId = None, ie_paramsSummary = ''{}'',
     ie_key = \<lparr>tk_backend = ''b'', tk_tool = ''t''\<rparr>, ie_agentId = ''ann'', ie_paramsHash = ''00''\<rparr>"

lemma inflight_sample_ok:
  "inflight_ok (InFlight_put (inflight_sample ''1'') InFlight_init)"
  "inflight_fresh (inflight_sample ''2'') (InFlight_put (inflight_sample ''1'') InFlight_init)"
proof -
  show "inflight_ok (InFlight_put (inflight_sample ''1'') InFlight_init)"
    by (rule inflight_ok_put) (simp_all add: inflight_ok_init, simp_all add: InFlight_init_def inflight_sample_def plain_def)
qed (simp add: inflight_fresh_def InFlight_put_def InFlight_init_def inflight_sample_def plain_def)

theorem InFlight_hit_own_witness:
  "\<exists>e. InFlight_lookup ''ann'' \<lparr>tk_backend = ''b'', tk_tool = ''t''\<rparr> ''00''
        (InFlight_put (inflight_sample ''1'') InFlight_init) = Some e \<and> ie_agentId e = ''ann''"
proof -
  have "InFlight_lookup ''ann'' \<lparr>tk_backend = ''b'', tk_tool = ''t''\<rparr> ''00''
      (InFlight_put (inflight_sample ''1'') InFlight_init) = Some (inflight_sample ''1'')"
    by (simp add: InFlight_lookup_def InFlight_put_def InFlight_init_def inflight_sample_def entryKey_def)
  then show ?thesis
    using InFlight_hit_own [OF inflight_sample_ok(1), of "''ann''" "''00''"] by (auto simp: plain_def)
qed

text \<open>while a call is in flight its repetition is found: after the insertion of an entry with a
  new identifier the lookup under its key returns it, lookups under other keys are as before,
  and the exported counter grows by one.\<close>

theorem InFlight_insert_lookup:
  assumes "inflight_ok f" "plain a" "plain h" "InFlight_insert a key h summary now f s = (i, f', s')"
    and "um_find (if_byId f) i = None"
  shows "(\<exists>e. InFlight_lookup a key h f' = Some e \<and> ie_inflightId e = i \<and> ie_startedAtMs e = now) \<and>
         (mapKey a2 (ToolKey_str key2) h2 \<noteq> mapKey a (ToolKey_str key) h \<longrightarrow>
            InFlight_lookup a2 key2 h2 f' = InFlight_lookup a2 key2 h2 f) \<and>
         inflight_ok f' \<and> InFlight_held f' = InFlight_held f + 1 \<and>
         cn_inflightHeld (env_counters s') = cn_inflightHeld (env_counters s) + 1"
proof -
  define e where "e = \<lparr>ie_inflightId = i, ie_startedAtMs = now, ie_taskId = None, ie_paramsSummary = summary,
              ie_key = key, ie_agentId = a, ie_paramsHash = h\<rparr>"
  have f': "f' = InFlight_put e f" and s': "cn_inflightHeld (env_counters s') = cn_inflightHeld (env_counters s) + 1"
    using assms(4) by (auto simp: InFlight_insert_def env_randomHex_def Let_def e_def)
  have fr: "inflight_fresh e f" using assms by (simp add: inflight_fresh_def e_def)
  have k: "entryKey e = mapKey a (ToolKey_str key) h" by (simp add: entryKey_def e_def)
  have "InFlight_held f' = InFlight_held f + 1"
    using assms(5) by (simp add: f' InFlight_put_def InFlight_held_def e_def um_length_set)
  then show ?thesis
    using infl.look_put [OF assms(1) fr] infl.inv_put [OF assms(1) fr] s' k
    by (simp add: InFlight_lookup_by f') (simp add: e_def)
qed

theorem InFlight_insert_lookup_witness:
  "\<exists>i f' s'. InFlight_insert ''ann'' \<lparr>tk_backend = ''b'', tk_tool = ''t''\<rparr> ''00'' ''{}'' 5 InFlight_init
       env_sample = (i, f', s') \<and>
     InFlight_lookup ''ann'' \<lparr>tk_backend = ''b'', tk_tool = ''t''\<rparr> ''00'' f' \<noteq> None"
proof -
  obtain i f' s' where r: "InFlight_insert ''ann'' \<lparr>tk_backend = ''b'', tk_tool = ''t''\<rparr> ''00'' ''{}'' 5 InFlight_init env_sample = (i, f', s')"
    by (metis prod_cases3)
  have "InFlight_lookup ''ann'' \<lparr>tk_backend = ''b'', tk_tool = ''t''\<rparr> ''00'' f' \<noteq> None"
    using InFlight_insert_lookup [OF inflight_ok_init _ _ r, of "''x''" "\<lparr>tk_backend = ''b'', tk_tool = ''t''\<rparr>" "''y''"]
    by (auto simp: plain_def InFlight_init_def)
  with r show ?thesis by blast
qed

text \<open>the call's entry disappears with the call: erasing what was just inserted leaves no hit
  under its key and restores the counter.\<close>

theorem InFlight_erase_inserted:
  assumes "inflight_ok f" "inflight_fresh e f" "InFlight_erase (ie_inflightId e) (InFlight_put e f) s = (f', s')"
  shows "look_by (entryKey e) f' = None \<and> inflight_ok f' \<and> InFlight_held f' = InFlight_held f \<and>
         cn_inflightHeld (env_counters s') = cn_inflightHeld (env_counters s) - 1"
proof -
  have found: "um_find (if_byId (InFlight_put e f)) (ie_inflightId e) = Some e"
    by (simp add: InFlight_put_def um_find_set)
  then have f': "f' = InFlight_drop (ie_inflightId e) (InFlight_put e f)"
    and s': "cn_inflightHeld (env_counters s') = cn_inflightHeld (env_counters s) - 1"
    using assms(3) by (auto simp: InFlight_erase_def)
  have "um_wf (if_byId (InFlight_put e f))" using infl.inv_put [OF assms(1,2)] by (simp add: inflight_ok_def)
  then have "Suc (length (if_byId f')) = length (if_byId (InFlight_put e f))"
    using um_length_erase [OF _ found] found by (simp add: f' InFlight_drop_def)
  moreover have "length (if_byId (InFlight_put e f)) = Suc (length (if_byId f))"
    using assms(2) by (simp add: InFlight_put_def inflight_fresh_def um_length_set)
  ultimately show ?thesis
    using infl.put_then_del [OF assms(1,2)] infl.inv_del [OF infl.inv_put [OF assms(1,2)]] s'
    by (simp add: f' InFlight_held_def)
qed

theorem InFlight_erase_inserted_witness:
  "look_by (entryKey (inflight_sample ''2''))
     (fst (InFlight_erase ''2'' (InFlight_put (inflight_sample ''2'') (InFlight_put (inflight_sample ''1'') InFlight_init))
       env_sample)) = None"
  using InFlight_erase_inserted [OF inflight_sample_ok prod.collapse [symmetric], of env_sample]
  by (simp add: inflight_sample_def)

text \<open>a confirmed repetition is forgotten too early: when two entries have the same key (the
  second call was confirmed), erasing the older one also removes the key of the younger one,
  which is still in flight, so that its repetitions are no longer recognised.\<close>

theorem InFlight_erase_older_hides_newer:
  assumes "inflight_ok f" "inflight_fresh e1 f" "inflight_fresh e2 (InFlight_put e1 f)" "entryKey e1 = entryKey e2"
  shows "let f' = InFlight_drop (ie_inflightId e1) (InFlight_put e2 (InFlight_put e1 f)) in
         um_find (if_byId f') (ie_inflightId e2) = Some e2 \<and> look_by (entryKey e2) f' = None"
  using assms
  by (auto simp: Let_def InFlight_drop_def InFlight_put_def inflight_fresh_def um_find_set um_find_erase
      look_by_def split: if_splits)

theorem InFlight_erase_older_hides_newer_witness:
  "look_by (entryKey (inflight_sample ''2''))
     (InFlight_drop ''1'' (InFlight_put (inflight_sample ''2'') (InFlight_put (inflight_sample ''1'') InFlight_init))) = None"
proof -
  have "inflight_fresh (inflight_sample ''1'') InFlight_init"
    by (simp add: inflight_fresh_def InFlight_init_def inflight_sample_def plain_def)
  then show ?thesis
    using InFlight_erase_older_hides_newer [OF inflight_ok_init _ inflight_sample_ok(2)]
    by (simp add: Let_def inflight_sample_def entryKey_def)
qed

end
