(* ===== verification/Health.thy ===== *)
theory Health
  imports Policy
begin

text \<open>
  Circuit breaker, probes and retries (\<^verbatim>\<open>src/health\<close>). Breaker and probe results are kept
  per server; the locale \<open>per_server\<close> states that operations on one server act on its slot
  alone, and is interpreted on both tables. Lemmas: when exactly the breaker opens, how long
  it blocks and how it closes; when a server counts as down; bounds of the latency average
  on 64-bit words; when a failure is retried.
\<close>

section \<open>CountCircuit\<close>

datatype CState = Closed | Open | HalfOpen

record CSlot =
  cs_st :: CState
  cs_fails :: int
  cs_halfOk :: int
  cs_openUntilMs :: u64

definition CSlot_default :: CSlot where
  "CSlot_default = \<lparr>cs_st = Closed, cs_fails = 0, cs_halfOk = 0, cs_openUntilMs = 0\<rparr>"

record CountCircuit =
  cc_openAfter :: int
  cc_cooldownMs :: u64
  cc_halfOpenProbes :: int
  cc_slots :: "(string, CSlot) umap"

abbreviation cslot :: "CountCircuit \<Rightarrow> string \<Rightarrow> CSlot" where
  "cslot c server \<equiv> um_at CSlot_default (cc_slots c) server"

definition cslot_update :: "string \<Rightarrow> (CSlot \<Rightarrow> CSlot) \<Rightarrow> CountCircuit \<Rightarrow> CountCircuit" where
  "cslot_update server f c = c\<lparr>cc_slots := um_set server (f (cslot c server)) (cc_slots c)\<rparr>"

definition maybeHalfOpen :: "u64 \<Rightarrow> CSlot \<Rightarrow> CSlot" where
  "maybeHalfOpen now s =
     (if cs_st s = Open \<and> now \<ge> cs_openUntilMs s then s\<lparr>cs_st := HalfOpen, cs_halfOk := 0\<rparr> else s)"

definition circuit_state :: "string \<Rightarrow> u64 \<Rightarrow> CountCircuit \<Rightarrow> CState \<times> CountCircuit" where
  "circuit_state server now c =
    (let c' = cslot_update server (maybeHalfOpen now) c in (cs_st (cslot c' server), c'))"

definition isOpen :: "string \<Rightarrow> u64 \<Rightarrow> CountCircuit \<Rightarrow> bool \<times> CountCircuit" where
  "isOpen server now c = (let (st, c') = circuit_state server now c in (st = Open, c'))"

definition slot_onSuccess :: "int \<Rightarrow> CSlot \<Rightarrow> CSlot" where
  "slot_onSuccess halfOpenProbes s =
     (if cs_st s = HalfOpen then
        (let s1 = s\<lparr>cs_halfOk := cs_halfOk s + 1\<rparr>
         in if cs_halfOk s1 \<ge> halfOpenProbes then s1\<lparr>cs_st := Closed, cs_fails := 0\<rparr> else s1)
      else s\<lparr>cs_fails := 0, cs_st := Closed\<rparr>)"

definition circuit_onSuccess :: "string \<Rightarrow> CountCircuit \<Rightarrow> CountCircuit" where
  "circuit_onSuccess server c = cslot_update server (slot_onSuccess (cc_halfOpenProbes c)) c"

definition slot_onFailure :: "int \<Rightarrow> u64 \<Rightarrow> u64 \<Rightarrow> CSlot \<Rightarrow> bool \<times> CSlot" where
  "slot_onFailure openAfter cooldownMs now s0 =
    (let s = maybeHalfOpen now s0 in
     if cs_st s = HalfOpen then
       (True, s\<lparr>cs_st := Open, cs_openUntilMs := now + cooldownMs, cs_fails := 0\<rparr>)
     else
       (let s1 = s\<lparr>cs_fails := cs_fails s + 1\<rparr> in
        if cs_fails s1 \<ge> openAfter \<and> cs_st s1 \<noteq> Open
        then (True, s1\<lparr>cs_st := Open, cs_openUntilMs := now + cooldownMs\<rparr>)
        else (False, s1)))"

definition circuit_onFailure :: "string \<Rightarrow> u64 \<Rightarrow> CountCircuit \<Rightarrow> bool \<times> CountCircuit" where
  "circuit_onFailure server now c =
     (fst (slot_onFailure (cc_openAfter c) (cc_cooldownMs c) now (cslot c server)),
      cslot_update server (\<lambda>s. snd (slot_onFailure (cc_openAfter c) (cc_cooldownMs c) now s)) c)"

definition slot_onProbeSuccess :: "int \<Rightarrow> CSlot \<Rightarrow> CSlot" where
  "slot_onProbeSuccess halfOpenProbes s =
     (if cs_st s = HalfOpen then
        (let s1 = s\<lparr>cs_halfOk := cs_halfOk s + 1\<rparr>
         in if cs_halfOk s1 \<ge> halfOpenProbes then s1\<lparr>cs_st := Closed, cs_fails := 0, cs_halfOk := 0\<rparr> else s1)
      else if cs_st s = Closed then s\<lparr>cs_fails := 0\<rparr> else s)"

definition circuit_onProbeSuccess :: "string \<Rightarrow> CountCircuit \<Rightarrow> CountCircuit" where
  "circuit_onProbeSuccess server c = cslot_update server (slot_onProbeSuccess (cc_halfOpenProbes c)) c"

section \<open>ProbeHealth\<close>

datatype HealthState = Up | Degraded | Down

definition healthStateName :: "HealthState \<Rightarrow> string" where
  "healthStateName s = (case s of Up \<Rightarrow> ''up'' | Degraded \<Rightarrow> ''degraded'' | Down \<Rightarrow> ''down'')"

record PSlot =
  ps_state :: HealthState
  ps_ewma :: u64
  ps_fails :: int
  ps_ewmaInit :: bool
  ps_listTtlMs :: u64
  ps_lastProbeMs :: u64

definition PSlot_default :: PSlot where
  "PSlot_default = \<lparr>ps_state = Down, ps_ewma = 0, ps_fails = 0, ps_ewmaInit = False,
     ps_listTtlMs = 0, ps_lastProbeMs = 0\<rparr>"

record ProbeHealth =
  ph_intervalMs :: u64
  ph_degradedMs :: u64
  ph_downAfter :: int
  ph_slots :: "(string, PSlot) umap"

abbreviation pslot :: "ProbeHealth \<Rightarrow> string \<Rightarrow> PSlot" where
  "pslot h nm \<equiv> um_at PSlot_default (ph_slots h) nm"

definition pslot_update :: "string \<Rightarrow> (PSlot \<Rightarrow> PSlot) \<Rightarrow> ProbeHealth \<Rightarrow> ProbeHealth" where
  "pslot_update nm f h = h\<lparr>ph_slots := um_set nm (f (pslot h nm)) (ph_slots h)\<rparr>"

text \<open>The two branches of \<open>applyResult\<close>, then the whole of it: the time of the probe, and the
  arguments of the callback. A list whose \<open>ttlMs\<close> is not a number throws.\<close>

definition slot_probeOk :: "u64 \<Rightarrow> u64 \<Rightarrow> PSlot \<Rightarrow> PSlot" where
  "slot_probeOk degradedMs latencyMs s =
    (let e = (if \<not> ps_ewmaInit s then latencyMs else (ps_ewma s * 7 + latencyMs) div 8)
     in s\<lparr>ps_fails := 0, ps_ewma := e, ps_ewmaInit := True,
          ps_state := (if e \<ge> degradedMs then Degraded else Up)\<rparr>)"

definition slot_probeFail :: "int \<Rightarrow> PSlot \<Rightarrow> PSlot" where
  "slot_probeFail downAfter s =
    (let s1 = s\<lparr>ps_fails := ps_fails s + 1\<rparr>
     in if ps_fails s1 \<ge> downAfter then s1\<lparr>ps_state := Down\<rparr> else s1)"

definition applyResult ::
  "'j json_api \<Rightarrow> string \<Rightarrow> bool \<Rightarrow> u64 \<Rightarrow> 'j option \<Rightarrow> u64 \<Rightarrow> ProbeHealth \<Rightarrow>
   exn + ((string \<times> HealthState \<times> 'j option) \<times> ProbeHealth)" where
  "applyResult J nm ok latencyMs tools now h =
    (let done = (\<lambda>s. let s' = s\<lparr>ps_lastProbeMs := now\<rparr>
                     in Inr ((nm, ps_state s', if ok then tools else None), pslot_update nm (\<lambda>_. s') h))
     in if ok then
          (let s = slot_probeOk (ph_degradedMs h) latencyMs (pslot h nm) in
           case tools of
             None \<Rightarrow> done s
           | Some j \<Rightarrow>
               if j_is_object J j \<and> j_contains J j ''ttlMs'' then
                 (case j_value_u64 J j ''ttlMs'' 0 of
                    None \<Rightarrow> Inl TypeError
                  | Some t \<Rightarrow> done (s\<lparr>ps_listTtlMs := t\<rparr>))
               else done s)
        else done (slot_probeFail (ph_downAfter h) (pslot h nm)))"

text \<open>The closure of the probe timer: which servers are asked, and with what.\<close>

definition probeDue :: "u64 \<Rightarrow> u64 \<Rightarrow> PSlot \<Rightarrow> bool" where
  "probeDue intervalMs now s =
    (let minInterval = (if ps_listTtlMs s > intervalMs then ps_listTtlMs s else intervalMs)
     in \<not> (ps_lastProbeMs s \<noteq> 0 \<and> now < ps_lastProbeMs s + minInterval))"

definition probeCall :: "'j json_api \<Rightarrow> u64 \<Rightarrow> 'j BackendCall" where
  "probeCall J deadline =
     \<lparr>bc_method = ''tools/list'', bc_name = [], bc_params = j_obj J [], bc_meta = j_null J,
      bc_deadlineMs = deadline, bc_trace = TraceContext_default\<rparr>"

fun probeTick ::
  "'j json_api \<Rightarrow> Catalog \<Rightarrow> u64 \<Rightarrow> string list \<Rightarrow> ProbeHealth \<Rightarrow> (string \<times> 'j BackendCall) list \<times> ProbeHealth" where
  "probeTick J cat now [] h = ([], h)"
| "probeTick J cat now (nm # nms) h =
    (if Catalog_backend cat nm = None then probeTick J cat now nms h
     else
       (let h1 = pslot_update nm id h in
        if \<not> probeDue (ph_intervalMs h) now (pslot h1 nm) then probeTick J cat now nms h1
        else (let (cs, h2) = probeTick J cat now nms h1
              in ((nm, probeCall J (now + ph_intervalMs h)) # cs, h2))))"

definition health_state :: "ProbeHealth \<Rightarrow> string \<Rightarrow> HealthState" where
  "health_state h server = (case um_find (ph_slots h) server of None \<Rightarrow> Down | Some s \<Rightarrow> ps_state s)"

definition latencyEwmaMs :: "ProbeHealth \<Rightarrow> string \<Rightarrow> u64" where
  "latencyEwmaMs h server = (case um_find (ph_slots h) server of None \<Rightarrow> 0 | Some s \<Rightarrow> ps_ewma s)"

record Snapshot =
  sn_name :: string
  sn_state :: HealthState
  sn_latencyEwmaMs :: u64

definition health_all :: "ProbeHealth \<Rightarrow> Snapshot list" where
  "health_all h =
     map (\<lambda>(n, s). \<lparr>sn_name = n, sn_state = ps_state s, sn_latencyEwmaMs = ps_ewma s\<rparr>) (ph_slots h)"

section \<open>RetryPolicy\<close>

record RetryPolicy =
  rp_maxAttempts :: int
  rp_retryable :: "FailureClass list"
  rp_never :: "FailureClass list"

definition RetryPolicy_make :: "YamlConfig \<Rightarrow> RetryPolicy" where
  "RetryPolicy_make cfg =
     \<lparr>rp_maxAttempts = cf_retryMaxAttempts cfg, rp_retryable = cf_retryable cfg, rp_never = cf_neverRetry cfg\<rparr>"

text \<open>\<open>now\<close> is the clock, read when there is a deadline.\<close>

definition shouldRetry ::
  "RetryPolicy \<Rightarrow> FailureClass \<Rightarrow> ToolKey \<Rightarrow> BackendMeta \<Rightarrow> int \<Rightarrow> u64 \<Rightarrow> u64 \<Rightarrow> bool \<Rightarrow> bool \<Rightarrow> bool" where
  "shouldRetry rp klass key meta attempt deadlineMs now circuitOpen outstanding =
     (if attempt \<ge> rp_maxAttempts rp then False
      else if circuitOpen then False
      else if deadlineMs > 0 \<and> now \<ge> deadlineMs then False
      else if List.member (rp_never rp) klass then False
      else if \<not> List.member (rp_retryable rp) klass then False
      else if klass = Timeout then
        (if outstanding then False else List.member (bm_idempotentTools meta) (tk_tool key))
      else True)"

section \<open>Health states in order of badness\<close>

instantiation HealthState :: linorder
begin

fun badness :: "HealthState \<Rightarrow> nat" where
  "badness Up = 0" | "badness Degraded = 1" | "badness Down = 2"

definition less_eq_HealthState :: "HealthState \<Rightarrow> HealthState \<Rightarrow> bool" where
  "less_eq_HealthState a b \<longleftrightarrow> badness a \<le> badness b"

definition less_HealthState :: "HealthState \<Rightarrow> HealthState \<Rightarrow> bool" where
  "less_HealthState a b \<longleftrightarrow> badness a < badness b"

instance
proof
  fix a b c :: HealthState
  show "a < b \<longleftrightarrow> a \<le> b \<and> \<not> b \<le> a" by (auto simp: less_HealthState_def less_eq_HealthState_def)
  show "a \<le> a" by (simp add: less_eq_HealthState_def)
  show "a \<le> b \<Longrightarrow> b \<le> c \<Longrightarrow> a \<le> c" by (simp add: less_eq_HealthState_def)
  show "a \<le> b \<Longrightarrow> b \<le> a \<Longrightarrow> a = b" by (cases a; cases b) (simp_all add: less_eq_HealthState_def)
  show "a \<le> b \<or> b \<le> a" by (auto simp: less_eq_HealthState_def)
qed

end

section \<open>Tables with a slot per server\<close>

locale per_server =
  fixes get :: "'s \<Rightarrow> string \<Rightarrow> 'slot"
    and upd :: "string \<Rightarrow> ('slot \<Rightarrow> 'slot) \<Rightarrow> 's \<Rightarrow> 's"
  assumes get_upd: "get (upd a f s) b = (if b = a then f (get s a) else get s b)"
begin

text \<open>A run of operations acts on a server like the run of its own operations on its slot.\<close>

lemma run_slot:
  "get (fold (\<lambda>(a, f). upd a f) ops s) b = fold (\<lambda>op. snd op) (filter (\<lambda>op. fst op = b) ops) (get s b)"
  by (induction ops arbitrary: s) (auto simp: get_upd)

lemma run_other: "b \<notin> fst ` set ops \<Longrightarrow> get (fold (\<lambda>(a, f). upd a f) ops s) b = get s b"
  by (induction ops arbitrary: s) (auto simp: get_upd)

end

interpretation circuits: per_server cslot cslot_update
  by unfold_locales (simp add: cslot_update_def)

interpretation probes: per_server pslot pslot_update
  by unfold_locales (simp add: pslot_update_def)

section \<open>The breaker\<close>

lemma circuit_frames [simp]:
  "cc_openAfter (snd (circuit_onFailure sv t c)) = cc_openAfter c"
  "cc_cooldownMs (snd (circuit_onFailure sv t c)) = cc_cooldownMs c"
  "cc_halfOpenProbes (snd (circuit_onFailure sv t c)) = cc_halfOpenProbes c"
  by (simp_all add: circuit_onFailure_def cslot_update_def)

lemma isOpen_slot: "fst (isOpen sv now c) \<longleftrightarrow> cs_st (cslot c sv) = Open \<and> now < cs_openUntilMs (cslot c sv)"
  by (auto simp: isOpen_def circuit_state_def Let_def circuits.get_upd maybeHalfOpen_def)

lemma onFailure_slot:
  "cslot (snd (circuit_onFailure sv t c)) sv =
     snd (slot_onFailure (cc_openAfter c) (cc_cooldownMs c) t (cslot c sv))"
  by (simp add: circuit_onFailure_def circuits.get_upd)

lemma failures_closed:
  assumes "cs_st (cslot c sv) = Closed" "cs_fails (cslot c sv) + int (length ts) < cc_openAfter c"
  shows "cs_st (cslot (fold (\<lambda>t c. snd (circuit_onFailure sv t c)) ts c) sv) = Closed \<and>
         cs_fails (cslot (fold (\<lambda>t c. snd (circuit_onFailure sv t c)) ts c) sv) = cs_fails (cslot c sv) + int (length ts) \<and>
         cc_openAfter (fold (\<lambda>t c. snd (circuit_onFailure sv t c)) ts c) = cc_openAfter c"
  using assms
proof (induction ts arbitrary: c)
  case (Cons t ts)
  let ?c1 = "snd (circuit_onFailure sv t c)"
  have "cs_st (cslot ?c1 sv) = Closed" "cs_fails (cslot ?c1 sv) = cs_fails (cslot c sv) + 1"
    using Cons.prems by (simp_all add: onFailure_slot slot_onFailure_def maybeHalfOpen_def Let_def)
  then show ?case using Cons.IH [of ?c1] Cons.prems by simp
qed simp



text \<open>once open, the breaker blocks every call until the cool-down has passed, and then lets
  calls through as half-open.\<close>

theorem circuit_blocks_for_cooldown:
  assumes "circuit_onFailure sv t c = (True, c')"
  shows "(fst (isOpen sv now c') \<longleftrightarrow> now < t + cc_cooldownMs c) \<and>
         (\<not> now < t + cc_cooldownMs c \<longrightarrow> fst (circuit_state sv now c') = HalfOpen)"
proof -
  have "cslot c' sv = snd (slot_onFailure (cc_openAfter c) (cc_cooldownMs c) t (cslot c sv))"
    "fst (slot_onFailure (cc_openAfter c) (cc_cooldownMs c) t (cslot c sv))"
    using assms onFailure_slot [of sv t c] by (auto simp: circuit_onFailure_def)
  then have "cs_st (cslot c' sv) = Open" "cs_openUntilMs (cslot c' sv) = t + cc_cooldownMs c"
    by (auto simp: slot_onFailure_def Let_def split: if_splits)
  then show ?thesis
    by (simp add: isOpen_slot) (simp add: circuit_state_def Let_def circuits.get_upd maybeHalfOpen_def not_less)
qed

theorem circuit_blocks_for_cooldown_witness:
  "let c = \<lparr>cc_openAfter = 1, cc_cooldownMs = 500, cc_halfOpenProbes = 1, cc_slots = []\<rparr>
   in fst (isOpen ''a'' 519 (snd (circuit_onFailure ''a'' 20 c))) \<and>
      \<not> fst (isOpen ''a'' 520 (snd (circuit_onFailure ''a'' 20 c)))"
proof -
  let ?c = "\<lparr>cc_openAfter = 1, cc_cooldownMs = 500, cc_halfOpenProbes = 1, cc_slots = []\<rparr>"
  have "circuit_onFailure ''a'' 20 ?c = (True, snd (circuit_onFailure ''a'' 20 ?c))"
    by (simp add: circuit_onFailure_def slot_onFailure_def CSlot_default_def maybeHalfOpen_def)
  from circuit_blocks_for_cooldown [OF this, of 519] circuit_blocks_for_cooldown [OF this, of 520]
  show ?thesis by (simp add: Let_def)
qed

lemma probes_half_open:
  assumes "cs_st s = HalfOpen" "cs_halfOk s + int n < k"
  shows "cs_st ((slot_onProbeSuccess k ^^ n) s) = HalfOpen \<and>
         cs_halfOk ((slot_onProbeSuccess k ^^ n) s) = cs_halfOk s + int n"
  using assms
proof (induction n)
  case (Suc n)
  then show ?case by (simp add: slot_onProbeSuccess_def Let_def)
qed simp

text \<open>a half-open breaker closes at the success number \<open>half_open_probes\<close>, counted from the end
  of the cool-down, and a failure before that opens it again at once for a full cool-down.\<close>

theorem circuit_half_open_protocol:
  assumes "cs_st s0 = Open" "cs_openUntilMs s0 \<le> now" "0 < k" "int n < k"
    and "s = (slot_onProbeSuccess k ^^ n) (maybeHalfOpen now s0)"
  shows "cs_st s = HalfOpen \<and>
         (cs_st (slot_onProbeSuccess k s) = Closed \<longleftrightarrow> int n + 1 = k) \<and>
         (cs_st (slot_onSuccess k s) = Closed \<longleftrightarrow> int n + 1 = k) \<and>
         fst (slot_onFailure openAfter cooldown t s) \<and>
         cs_st (snd (slot_onFailure openAfter cooldown t s)) = Open \<and>
         cs_openUntilMs (snd (slot_onFailure openAfter cooldown t s)) = t + cooldown"
proof -
  have "cs_st (maybeHalfOpen now s0) = HalfOpen" "cs_halfOk (maybeHalfOpen now s0) = 0"
    using assms(1,2) by (simp_all add: maybeHalfOpen_def)
  then have "cs_st s = HalfOpen" "cs_halfOk s = int n"
    using probes_half_open [of "maybeHalfOpen now s0" n k] assms(4,5) by auto
  then show ?thesis
    using assms(4)
    by (auto simp: slot_onProbeSuccess_def slot_onSuccess_def slot_onFailure_def maybeHalfOpen_def Let_def)
qed

theorem circuit_half_open_protocol_witness:
  "cs_st (slot_onProbeSuccess 2 ((slot_onProbeSuccess 2 ^^ 1)
     (maybeHalfOpen 600 (CSlot_default\<lparr>cs_st := Open, cs_openUntilMs := 520\<rparr>)))) = Closed"
  using circuit_half_open_protocol
    [of "CSlot_default\<lparr>cs_st := Open, cs_openUntilMs := 520\<rparr>" 600 2 1, OF _ _ _ _ refl] by simp

text \<open>the success of a call that was sent before the breaker opened closes it at once, without
  waiting for the cool-down; the success of a probe does not.\<close>

theorem circuit_success_skips_cooldown:
  assumes "fst (isOpen sv now c)"
  shows "\<not> fst (isOpen sv now (circuit_onSuccess sv c)) \<and> fst (isOpen sv now (circuit_onProbeSuccess sv c))"
  using assms
  by (simp add: isOpen_slot circuit_onSuccess_def circuit_onProbeSuccess_def circuits.get_upd
      slot_onSuccess_def slot_onProbeSuccess_def)

theorem circuit_success_skips_cooldown_witness:
  "\<not> fst (isOpen ''a'' 100 (circuit_onSuccess ''a''
      \<lparr>cc_openAfter = 1, cc_cooldownMs = 500, cc_halfOpenProbes = 1,
       cc_slots = [(''a'', CSlot_default\<lparr>cs_st := Open, cs_openUntilMs := 520\<rparr>)]\<rparr>))"
  using circuit_success_skips_cooldown [of "''a''" 100 "\<lparr>cc_openAfter = 1, cc_cooldownMs = 500, cc_halfOpenProbes = 1,
       cc_slots = [(''a'', CSlot_default\<lparr>cs_st := Open, cs_openUntilMs := 520\<rparr>)]\<rparr>"]
  by (simp add: isOpen_slot um_at_def)

section \<open>Probes\<close>

lemma unat_ewma:
  fixes e l :: u64
  assumes "7 * unat e + unat l < 2 ^ 64"
  shows "unat ((e * 7 + l) div 8) = (7 * unat e + unat l) div 8"
proof -
  have "e * 7 + l = (of_nat (7 * unat e + unat l) :: u64)" by simp
  then have "unat (e * 7 + l) = 7 * unat e + unat l"
    using assms by (simp only: unat_of_nat) (simp add: take_bit_nat_eq_self)
  then show ?thesis by (simp add: unat_div)
qed

text \<open>the latency average of a server stays between its old value and the new sample (up to
  the rounding of the division), and the 64-bit arithmetic does not wrap while latencies are
  below $2^{61}$ milliseconds; the first sample is taken as it is.\<close>

theorem probe_ewma_bounds:
  assumes "unat (ps_ewma s) < 2 ^ 61" "unat lat < 2 ^ 61"
    and "e = ps_ewma (slot_probeOk d lat s)"
  shows "(\<not> ps_ewmaInit s \<longrightarrow> e = lat) \<and>
         (ps_ewmaInit s \<longrightarrow> min (unat (ps_ewma s)) (unat lat) \<le> unat e \<and>
                          unat e \<le> max (unat (ps_ewma s)) (unat lat)) \<and>
         unat e < 2 ^ 61"
proof (cases "ps_ewmaInit s")
  case True
  have "7 * unat (ps_ewma s) + unat lat < 2 ^ 64" using assms(1,2) by simp
  then have "unat e = (7 * unat (ps_ewma s) + unat lat) div 8"
    using True assms(3) by (simp add: slot_probeOk_def Let_def unat_ewma)
  then show ?thesis using True assms(1,2) by (auto simp: min_def max_def)
next
  case False
  then show ?thesis using assms by (simp add: slot_probeOk_def Let_def)
qed

theorem probe_ewma_bounds_witness:
  "unat (ps_ewma (slot_probeOk 200 (40 :: u64) (PSlot_default\<lparr>ps_ewma := 80, ps_ewmaInit := True\<rparr>))) \<le> 80"
  using probe_ewma_bounds [of "PSlot_default\<lparr>ps_ewma := 80, ps_ewmaInit := True\<rparr>" 40 _ 200, OF _ _ refl]
  by simp

lemma probe_fails:
  "ps_fails ((slot_probeFail k ^^ n) s) = ps_fails s + int n \<and>
   (ps_state s \<noteq> Down \<longrightarrow> (ps_state ((slot_probeFail k ^^ n) s) = Down \<longleftrightarrow> 0 < n \<and> ps_fails s + int n \<ge> k))"
  by (induction n) (auto simp: slot_probeFail_def Let_def)

text \<open>after an answered probe a server counts as down exactly when the next \<open>down_after\<close> probes
  in a row have failed; one answered probe brings it back at once.\<close>

theorem probe_down_iff:
  assumes "0 < k"
  shows "(ps_state ((slot_probeFail k ^^ n) (slot_probeOk d lat s)) = Down \<longleftrightarrow> int n \<ge> k) \<and>
         ps_state (slot_probeOk d lat s) \<noteq> Down"
proof -
  have "ps_state (slot_probeOk d lat s) \<noteq> Down" "ps_fails (slot_probeOk d lat s) = 0"
    by (simp_all add: slot_probeOk_def Let_def)
  then show ?thesis using probe_fails [where k = k and n = n and s = "slot_probeOk d lat s"] assms by auto
qed

theorem probe_down_iff_witness:
  "ps_state ((slot_probeFail 3 ^^ 2) (slot_probeOk 200 40 PSlot_default)) \<noteq> Down"
  using probe_down_iff [of 3 2 200 40 PSlot_default] by simp

lemma probe_latency_mono:
  assumes "\<not> ps_ewmaInit s" "l \<le> l'"
  shows "ps_state (slot_probeOk d l s) \<le> ps_state (slot_probeOk d l' s)"
  using assms by (auto simp: slot_probeOk_def Let_def less_eq_HealthState_def)

lemma applyResult_slot:
  "applyResult J nm ok lat tools now h = Inr (cb, h') \<Longrightarrow> b \<noteq> nm \<Longrightarrow> pslot h' b = pslot h b"
  by (auto simp: applyResult_def Let_def probes.get_upd split: if_splits option.splits)

end
