(* ===== verification/Tasks.thy ===== *)
theory Tasks
  imports Env
begin

text \<open>
  The task store (\<^verbatim>\<open>src/task/MemTaskStore.cpp\<close>): long calls that were turned into tasks.
  Each operation first removes the expired tasks; the clock it reads is the argument \<open>now\<close>.
  Interface: the locale \<open>task_table\<close>. Lemmas: a task is readable until its time to live is
  over, the store never exceeds its capacity, and a task's identity never changes.
\<close>

record 'j Task =
  ta_taskId :: string
  ta_agentId :: string
  ta_key :: ToolKey
  ta_status :: string
  ta_resultOrError :: 'j
  ta_createdAtMs :: u64
  ta_lastUpdatedAtMs :: u64
  ta_ttlMs :: u64
  ta_owner :: Principal

record 'j MemTaskStore =
  ms_maxTasks :: nat
  ms_byId :: "(string, 'j Task) umap"

definition MemTaskStore_make :: "nat \<Rightarrow> 'j MemTaskStore" where
  "MemTaskStore_make maxTasks = \<lparr>ms_maxTasks = (if maxTasks = 0 then 1 else maxTasks), ms_byId = []\<rparr>"

definition task_expired :: "u64 \<Rightarrow> 'j Task \<Rightarrow> bool" where
  "task_expired now t \<longleftrightarrow> ta_ttlMs t > 0 \<and> now \<ge> ta_createdAtMs t + ta_ttlMs t"

definition tasks_sweep :: "u64 \<Rightarrow> 'j MemTaskStore \<Rightarrow> 'j MemTaskStore" where
  "tasks_sweep now m = m\<lparr>ms_byId := filter (\<lambda>kv. \<not> task_expired now (snd kv)) (ms_byId m)\<rparr>"

definition tasks_insert :: "u64 \<Rightarrow> 'j Task \<Rightarrow> 'j MemTaskStore \<Rightarrow> bool \<times> 'j MemTaskStore" where
  "tasks_insert now t m0 =
    (let m = tasks_sweep now m0 in
     if length (ms_byId m) \<ge> ms_maxTasks m \<and> um_find (ms_byId m) (ta_taskId t) = None then (False, m)
     else (True, m\<lparr>ms_byId := um_set (ta_taskId t) t (ms_byId m)\<rparr>))"

definition tasks_get :: "u64 \<Rightarrow> string \<Rightarrow> 'j MemTaskStore \<Rightarrow> 'j Task option \<times> 'j MemTaskStore" where
  "tasks_get now i m0 = (let m = tasks_sweep now m0 in (um_find (ms_byId m) i, m))"

definition tasks_updateStatus :: "string \<Rightarrow> string \<Rightarrow> 'j \<Rightarrow> u64 \<Rightarrow> 'j MemTaskStore \<Rightarrow> 'j MemTaskStore" where
  "tasks_updateStatus i status body now m0 =
    (let m = tasks_sweep now m0 in
     case um_find (ms_byId m) i of
       None \<Rightarrow> m
     | Some t \<Rightarrow> m\<lparr>ms_byId := um_set i (t\<lparr>ta_status := status, ta_resultOrError := body, ta_lastUpdatedAtMs := now\<rparr>) (ms_byId m)\<rparr>)"

section \<open>Invariant\<close>

definition tasks_ok :: "'j MemTaskStore \<Rightarrow> bool" where
  "tasks_ok m \<longleftrightarrow>
     um_wf (ms_byId m) \<and> length (ms_byId m) \<le> ms_maxTasks m \<and> 0 < ms_maxTasks m \<and>
     (\<forall>i t. um_find (ms_byId m) i = Some t \<longrightarrow> ta_taskId t = i)"

lemma find_filter_wf:
  "um_wf m \<Longrightarrow> um_find (filter (\<lambda>kv. P (snd kv)) m) k =
     (case um_find m k of None \<Rightarrow> None | Some v \<Rightarrow> if P v then Some v else None)"
proof (induction m)
  case (Cons a m)
  have "um_find m (fst a) = None" using Cons.prems by (simp add: um_wf_def map_of_eq_None_iff)
  then show ?case using Cons by (auto simp: um_wf_def split: option.splits)
qed simp

lemma sweep_find:
  "um_wf (ms_byId m) \<Longrightarrow> um_find (ms_byId (tasks_sweep now m)) i =
     (case um_find (ms_byId m) i of None \<Rightarrow> None | Some t \<Rightarrow> if task_expired now t then None else Some t)"
  using find_filter_wf [of "ms_byId m" "\<lambda>t. \<not> task_expired now t" i]
  by (auto simp: tasks_sweep_def split: option.splits)

lemma tasks_ok_sweep: "tasks_ok m \<Longrightarrow> tasks_ok (tasks_sweep now m)"
proof -
  assume ok: "tasks_ok m"
  then have "um_wf (ms_byId (tasks_sweep now m))"
    by (simp add: tasks_ok_def tasks_sweep_def um_wf_def distinct_map_filter)
  moreover have "length (ms_byId (tasks_sweep now m)) \<le> ms_maxTasks (tasks_sweep now m)"
    using ok order_trans [OF length_filter_le] by (auto simp: tasks_ok_def tasks_sweep_def)
  ultimately show ?thesis
    using ok by (auto simp: tasks_ok_def sweep_find split: option.splits if_splits) (simp add: tasks_sweep_def)
qed

lemma tasks_ok_insert:
  assumes "tasks_ok m"
  shows "tasks_ok (snd (tasks_insert now t m))"
proof -
  let ?m = "tasks_sweep now m"
  have ok: "tasks_ok ?m" using assms by (rule tasks_ok_sweep)
  show ?thesis
  proof (cases "um_find (ms_byId ?m) (ta_taskId t)")
    case None
    then show ?thesis
      using ok um_length_set [OF None, of t]
      by (auto simp: tasks_insert_def Let_def tasks_ok_def um_find_set)
  next
    case (Some u)
    then show ?thesis
      using ok um_length_set_Some [OF Some, of t]
      by (auto simp: tasks_insert_def Let_def tasks_ok_def um_find_set)
  qed
qed

lemma tasks_ok_get: "tasks_ok m \<Longrightarrow> tasks_ok (snd (tasks_get now i m))"
  by (simp add: tasks_get_def Let_def tasks_ok_sweep)

lemma tasks_ok_updateStatus:
  assumes "tasks_ok m"
  shows "tasks_ok (tasks_updateStatus i st b now m)"
proof (cases "um_find (ms_byId (tasks_sweep now m)) i")
  case None
  then show ?thesis using tasks_ok_sweep [OF assms] by (simp add: tasks_updateStatus_def Let_def)
next
  case (Some u)
  then show ?thesis
    using tasks_ok_sweep [OF assms, of now] um_length_set_Some [OF Some]
    by (auto simp: tasks_updateStatus_def Let_def tasks_ok_def um_find_set)
qed

section \<open>Interface\<close>

text \<open>
  What the pipeline relies on: a store of tasks that only time removes. \<open>live\<close> tells whether
  a task may still be read at a time, \<open>eff\<close> what an update makes of a task.
\<close>

locale task_table =
  fixes inv :: "'m \<Rightarrow> bool"
    and id_of :: "'v \<Rightarrow> 'i"
    and rd :: "'t \<Rightarrow> 'i \<Rightarrow> 'm \<Rightarrow> 'v option"
    and live :: "'t \<Rightarrow> 'v \<Rightarrow> bool"
    and ins :: "'t \<Rightarrow> 'v \<Rightarrow> 'm \<Rightarrow> bool \<times> 'm"
    and chg :: "'t \<Rightarrow> 'i \<Rightarrow> 'a \<Rightarrow> 'm \<Rightarrow> 'm"
    and eff :: "'t \<Rightarrow> 'a \<Rightarrow> 'v \<Rightarrow> 'v"
  assumes rd_live: "inv m \<Longrightarrow> rd now i m = Some v \<Longrightarrow> live now v \<and> id_of v = i"
    and ins_rd: "inv m \<Longrightarrow> fst (ins now0 v m) \<Longrightarrow> live now v \<Longrightarrow> rd now (id_of v) (snd (ins now0 v m)) = Some v"
    and chg_rd: "inv m \<Longrightarrow> rd now0 i m = Some v \<Longrightarrow> live now (eff now0 a v) \<Longrightarrow>
          rd now i (chg now0 i a m) = Some (eff now0 a v)"
    and chg_other: "inv m \<Longrightarrow> j \<noteq> i \<Longrightarrow> rd now j (chg now0 i a m) = Some v \<Longrightarrow> rd now j m = Some v"
    and inv_ins: "inv m \<Longrightarrow> inv (snd (ins now0 v m))"
    and inv_chg: "inv m \<Longrightarrow> inv (chg now0 i a m)"
begin

lemma ins_chg_rd:
  assumes "inv m" "fst (ins t0 v m)" "live t1 v" "live t2 (eff t1 a v)"
  shows "rd t2 (id_of v) (chg t1 (id_of v) a (snd (ins t0 v m))) = Some (eff t1 a v)"
  using assms by (simp add: chg_rd inv_ins ins_rd)

lemma chg_not_new: "inv m \<Longrightarrow> rd now i m = None \<Longrightarrow> j \<noteq> i \<Longrightarrow> rd now j m = None \<Longrightarrow> rd now j (chg now0 i a m) = None"
  using chg_other [of m j i now now0 a] by (cases "rd now j (chg now0 i a m)") auto

end

definition task_change :: "u64 \<Rightarrow> string \<times> 'j \<Rightarrow> 'j Task \<Rightarrow> 'j Task" where
  "task_change now sb t = t\<lparr>ta_status := fst sb, ta_resultOrError := snd sb, ta_lastUpdatedAtMs := now\<rparr>"

lemma task_change_simps [simp]:
  "task_expired now (task_change now0 a t) = task_expired now t" "ta_taskId (task_change now0 a t) = ta_taskId t"
  "ta_agentId (task_change now0 a t) = ta_agentId t"
  by (simp_all add: task_change_def task_expired_def)

lemma get_find: "um_wf (ms_byId m) \<Longrightarrow> fst (tasks_get now i m) =
   (case um_find (ms_byId m) i of None \<Rightarrow> None | Some t \<Rightarrow> if task_expired now t then None else Some t)"
  by (simp add: tasks_get_def Let_def sweep_find)

lemma updateStatus_find:
  assumes "tasks_ok m"
  shows "um_find (ms_byId (tasks_updateStatus i st b now m)) j =
    (case um_find (ms_byId m) j of
       None \<Rightarrow> None
     | Some t \<Rightarrow> if task_expired now t then None else Some (if j = i then task_change now (st, b) t else t))"
  using assms sweep_find [of m now i] sweep_find [of m now j]
  by (auto simp: tasks_updateStatus_def Let_def um_find_set task_change_def tasks_ok_def split: option.splits)

lemma insert_find:
  "tasks_ok m \<Longrightarrow> fst (tasks_insert now t m) \<Longrightarrow> um_find (ms_byId (snd (tasks_insert now t m))) (ta_taskId t) = Some t"
  by (auto simp: tasks_insert_def Let_def um_find_set split: if_splits)

lemma tasks_ok_wf: "tasks_ok m \<Longrightarrow> um_wf (ms_byId m)"
  by (simp add: tasks_ok_def)

interpretation mts: task_table tasks_ok ta_taskId "\<lambda>now i m. fst (tasks_get now i m)"
    "\<lambda>now t. \<not> task_expired now t" tasks_insert "\<lambda>now i a. tasks_updateStatus i (fst a) (snd a) now" task_change
proof (unfold_locales, goal_cases)
  case (1 m now i v)
  then show ?case by (auto simp: tasks_ok_wf get_find tasks_ok_def split: option.splits if_splits)
next
  case (2 m now0 v now)
  then show ?case by (simp add: get_find tasks_ok_wf tasks_ok_insert insert_find)
next
  case (3 m now0 i v now a)
  then have "um_find (ms_byId m) i = Some v" "\<not> task_expired now0 v"
    by (auto simp: get_find tasks_ok_wf split: option.splits if_splits)
  then show ?case using 3 by (simp add: get_find tasks_ok_wf tasks_ok_updateStatus updateStatus_find)
next
  case (4 m j i now now0 a v)
  then show ?case
    by (auto simp: get_find tasks_ok_wf tasks_ok_updateStatus updateStatus_find split: option.splits if_splits)
next
  case (5 m now0 v)
  then show ?case by (rule tasks_ok_insert)
next
  case (6 m now0 i a)
  then show ?case by (rule tasks_ok_updateStatus)
qed

section \<open>Properties\<close>

definition task_sample :: "jv Task" where
  "task_sample = \<lparr>ta_taskId = ''tsk_1'', ta_agentId = ''ann'', ta_key = \<lparr>tk_backend = ''b'', tk_tool = ''t''\<rparr>,
     ta_status = ''working'', ta_resultOrError = JNull, ta_createdAtMs = 100, ta_lastUpdatedAtMs = 100, ta_ttlMs = 1000,
     ta_owner = \<lparr>p_agentId = ''ann'', p_level = 1, p_grantBump = 0, p_hasLevel = True, p_admin = False, p_levelName = ''x''\<rparr>\<rparr>"

lemma tasks_ok_make: "tasks_ok (MemTaskStore_make n)"
  by (simp add: tasks_ok_def MemTaskStore_make_def)

text \<open>a task that was accepted and then completed is returned by every later read with its
  final status and result, until its time to live is over, and never after that.\<close>

theorem task_result_readable:
  assumes "tasks_ok m" "tasks_insert t0 t m = (True, m1)" "\<not> task_expired t1 t"
  shows "fst (tasks_get t2 (ta_taskId t) (tasks_updateStatus (ta_taskId t) st body t1 m1)) =
         (if task_expired t2 t then None
          else Some (t\<lparr>ta_status := st, ta_resultOrError := body, ta_lastUpdatedAtMs := t1\<rparr>))"
proof (cases "task_expired t2 t")
  case True
  have ok: "tasks_ok m1" using tasks_ok_insert [OF assms(1), of t0 t] assms(2) by simp
  have "um_find (ms_byId m1) (ta_taskId t) = Some t" using insert_find [OF assms(1), of t0 t] assms(2) by simp
  then show ?thesis
    using True assms(3) ok by (simp add: get_find tasks_ok_wf tasks_ok_updateStatus updateStatus_find)
next
  case False
  then have "fst (tasks_get t2 (ta_taskId t) (tasks_updateStatus (ta_taskId t) st body t1 m1)) =
      Some (task_change t1 (st, body) t)"
    using mts.ins_chg_rd [OF assms(1), of t0 t t1 t2 "(st, body)"] assms(2,3) by simp
  then show ?thesis using False by (simp add: task_change_def)
qed

theorem task_result_readable_witness:
  "map_option ta_status (fst (tasks_get 900 ''tsk_1'' (tasks_updateStatus ''tsk_1'' ''completed'' JNull 500
      (snd (tasks_insert 100 task_sample (MemTaskStore_make 3)))))) = Some ''completed''"
proof -
  have "tasks_insert 100 task_sample (MemTaskStore_make 3) = (True, snd (tasks_insert 100 task_sample (MemTaskStore_make 3)))"
    by (simp add: tasks_insert_def tasks_sweep_def MemTaskStore_make_def Let_def)
  from task_result_readable [OF tasks_ok_make this, of 500 900 "''completed''" JNull]
  show ?thesis by (simp add: task_sample_def task_expired_def)
qed

text \<open>the store never holds more tasks than its capacity, and it refuses a new task only when
  that many unexpired tasks are in it.\<close>

theorem tasks_capacity:
  assumes "tasks_ok m"
  shows "length (ms_byId (snd (tasks_insert now t m))) \<le> ms_maxTasks m \<and>
         (\<not> fst (tasks_insert now t m) \<longrightarrow>
            length (filter (\<lambda>kv. \<not> task_expired now (snd kv)) (ms_byId m)) = ms_maxTasks m)"
proof -
  have "length (ms_byId (snd (tasks_insert now t m))) \<le> ms_maxTasks (snd (tasks_insert now t m))"
    using tasks_ok_insert [OF assms] by (simp add: tasks_ok_def)
  moreover have "ms_maxTasks (snd (tasks_insert now t m)) = ms_maxTasks m"
    by (simp add: tasks_insert_def tasks_sweep_def Let_def)
  moreover have "length (filter (\<lambda>kv. \<not> task_expired now (snd kv)) (ms_byId m)) \<le> ms_maxTasks m"
    using assms order_trans [OF length_filter_le] unfolding tasks_ok_def by blast
  moreover have "ms_maxTasks m \<le> length (filter (\<lambda>kv. \<not> task_expired now (snd kv)) (ms_byId m))"
    if "\<not> fst (tasks_insert now t m)"
    using that by (simp add: tasks_insert_def tasks_sweep_def Let_def split: if_splits)
  ultimately show ?thesis by linarith
qed

theorem tasks_capacity_witness:
  "length (ms_byId (snd (tasks_insert 100 task_sample (MemTaskStore_make 3)))) \<le> 3"
  using tasks_capacity [OF tasks_ok_make, of 100 task_sample 3] by (simp add: MemTaskStore_make_def)

end
