(* ===== verification/Governor.thy ===== *)
theory Governor
  imports Env Config
begin

text \<open>
  Admission control (\<^verbatim>\<open>src/govern/Governor.cpp\<close>, \<^verbatim>\<open>src/govern/LocalGovernor.cpp\<close>). The
  continuation of a caller is a value of the type \<open>'c\<close>. An operation returns the calls of
  continuations it makes, in their order, as a list of \<open>(continuation, Admit, Permit)\<close>; the
  code makes them while it runs, which is the same here because a continuation that is
  rejected does not touch the governor and one that is admitted is the last one an
  operation calls. The abstract class \<^verbatim>\<open>Governor\<close> is the locale \<open>governor_iface\<close>,
  interpreted on \<open>LocalGovernor\<close>. Lemmas: the counters are exactly the permits held, the
  limits, FIFO order, no continuation is lost or called twice.
\<close>

section \<open>State\<close>

datatype Admit = Go | QueueUp | Reject

record Permit =
  pm_key :: ToolKey
  pm_agentId :: string

text \<open>\<^verbatim>\<open>Permit{}\<close> is \<open>None\<close>, a held permit is \<open>Some\<close>; its destructor is \<open>releaseSlot\<close>.\<close>

type_synonym 'c admission = "'c \<times> Admit \<times> Permit option"

record 'c Waiter =
  wt_who :: Principal
  wt_key :: ToolKey
  wt_deadlineMs :: u64
  wt_timer :: nat
  wt_cb :: 'c
  wt_id :: nat

record ('p, 'c) GovSt = "'p Env" +
  gv_cfg :: YamlConfig
  gv_toolInUse :: "(string, int) umap"
  gv_principalInUse :: "(string, int) umap"
  gv_queues :: "(string, 'c Waiter list) umap"
  gv_nextWaitId :: nat

section \<open>Operations\<close>

definition toolLimit :: "YamlConfig \<Rightarrow> string \<Rightarrow> int" where
  "toolLimit cfg toolStr =
     (case um_find (cf_governorTools cfg) toolStr of
        Some g \<Rightarrow> if gt_status g = Active \<and> gt_maxConcurrency g > 0 then gt_maxConcurrency g
                  else cf_perToolConcurrency cfg
      | None \<Rightarrow> cf_perToolConcurrency cfg)"

definition toolWaitMs :: "YamlConfig \<Rightarrow> string \<Rightarrow> u64" where
  "toolWaitMs cfg toolStr =
     (case um_find (cf_governorTools cfg) toolStr of
        Some g \<Rightarrow> if gt_status g = Active \<and> gt_queueWaitMs g > 0 then gt_queueWaitMs g
                  else cf_queueWaitMs cfg
      | None \<Rightarrow> cf_queueWaitMs cfg)"

definition canTake :: "('p, 'c, 'z) GovSt_scheme \<Rightarrow> string \<Rightarrow> string \<Rightarrow> bool" where
  "canTake s toolStr agent \<longleftrightarrow>
     um_at 0 (gv_toolInUse s) toolStr < toolLimit (gv_cfg s) toolStr \<and>
     um_at 0 (gv_principalInUse s) agent < cf_perPrincipalConcurrency (gv_cfg s)"

definition take_slot :: "string \<Rightarrow> string \<Rightarrow> ('p, 'c, 'z) GovSt_scheme \<Rightarrow> ('p, 'c, 'z) GovSt_scheme" where
  "take_slot toolStr agent s =
     s\<lparr>gv_toolInUse := um_set toolStr (um_at 0 (gv_toolInUse s) toolStr + 1) (gv_toolInUse s),
       gv_principalInUse := um_set agent (um_at 0 (gv_principalInUse s) agent + 1) (gv_principalInUse s),
       env_counters := (env_counters s)\<lparr>cn_permitHeld := cn_permitHeld (env_counters s) + 1\<rparr>\<rparr>"

definition issue :: "ToolKey \<Rightarrow> string \<Rightarrow> ('p, 'c, 'z) GovSt_scheme \<Rightarrow> Permit \<times> ('p, 'c, 'z) GovSt_scheme" where
  "issue key agent s = (\<lparr>pm_key = key, pm_agentId = agent\<rparr>, take_slot (ToolKey_str key) agent s)"

definition acquire ::
  "Principal \<Rightarrow> ToolKey \<Rightarrow> u64 \<Rightarrow> 'c \<Rightarrow> ('p, 'c, 'z) GovSt_scheme \<Rightarrow>
   'c admission list \<times> ('p, 'c, 'z) GovSt_scheme" where
  "acquire who key waitDeadlineMs onAdmit s =
    (let ts = ToolKey_str key in
     if canTake s ts (p_agentId who) then
       (let (p, s1) = issue key (p_agentId who) s in ([(onAdmit, Go, Some p)], s1))
     else
       (let (now, s1) = nowMs s;
            deadline = (if waitDeadlineMs = 0 then now + toolWaitMs (gv_cfg s) ts else waitDeadlineMs)
        in if deadline \<le> now then ([(onAdmit, Reject, None)], s1)
           else
             (let i = gv_nextWaitId s1;
                  (tid, s2) = env_runAfter (deadline - now) (TQueueTimeout ts i)
                                (s1\<lparr>gv_nextWaitId := Suc i\<rparr>);
                  w = \<lparr>wt_who = who, wt_key = key, wt_deadlineMs = deadline, wt_timer = tid,
                       wt_cb = onAdmit, wt_id = i\<rparr>
              in ([], s2\<lparr>gv_queues := um_set ts (um_at [] (gv_queues s2) ts @ [w]) (gv_queues s2)\<rparr>))))"

text \<open>The closure of the queue timer: the first waiter with the identifier leaves the queue.\<close>

fun takeWaiter :: "nat \<Rightarrow> 'c Waiter list \<Rightarrow> ('c Waiter \<times> 'c Waiter list) option" where
  "takeWaiter i [] = None"
| "takeWaiter i (w # q) =
     (if wt_id w = i then Some (w, q)
      else map_option (map_prod id ((#) w)) (takeWaiter i q))"

definition onQueueTimeout ::
  "string \<Rightarrow> nat \<Rightarrow> ('p, 'c, 'z) GovSt_scheme \<Rightarrow> 'c admission list \<times> ('p, 'c, 'z) GovSt_scheme" where
  "onQueueTimeout ts i s =
    (let q = um_at [] (gv_queues s) ts in
     case takeWaiter i q of
       None \<Rightarrow> ([], s\<lparr>gv_queues := um_set ts q (gv_queues s)\<rparr>)
     | Some (w, q') \<Rightarrow> ([(wt_cb w, Reject, None)], s\<lparr>gv_queues := um_set ts q' (gv_queues s)\<rparr>))"

definition dropWaiter :: "string \<Rightarrow> 'c Waiter \<Rightarrow> 'c Waiter list \<Rightarrow> ('p, 'c, 'z) GovSt_scheme \<Rightarrow> ('p, 'c, 'z) GovSt_scheme" where
  "dropWaiter ts w q s =
    (let s1 = s\<lparr>gv_queues := um_set ts q (gv_queues s)\<rparr>
     in if wt_timer w \<noteq> 0 then env_cancel (wt_timer w) s1 else s1)"

fun tryDequeue_loop ::
  "string \<Rightarrow> 'c Waiter list \<Rightarrow> ('p, 'c, 'z) GovSt_scheme \<Rightarrow> 'c admission list \<times> ('p, 'c, 'z) GovSt_scheme" where
  "tryDequeue_loop ts [] s = ([], s)"
| "tryDequeue_loop ts (w # q) s =
    (if \<not> canTake s ts (p_agentId (wt_who w)) then ([], s)
     else
       (let (now, s1) = nowMs (dropWaiter ts w q s) in
        if now \<ge> wt_deadlineMs w then
          (let (evs, s2) = tryDequeue_loop ts q s1 in ((wt_cb w, Reject, None) # evs, s2))
        else
          (let (p, s2) = issue (wt_key w) (p_agentId (wt_who w)) s1
           in ([(wt_cb w, Go, Some p)], s2))))"

definition tryDequeue ::
  "string \<Rightarrow> ('p, 'c, 'z) GovSt_scheme \<Rightarrow> 'c admission list \<times> ('p, 'c, 'z) GovSt_scheme" where
  "tryDequeue toolStr s =
    (let q = um_at [] (gv_queues s) toolStr
     in tryDequeue_loop toolStr q (s\<lparr>gv_queues := um_set toolStr q (gv_queues s)\<rparr>))"

definition decr_use :: "string \<Rightarrow> (string, int) umap \<Rightarrow> (string, int) umap" where
  "decr_use k m = (case um_find m k of Some n \<Rightarrow> if n > 0 then um_set k (n - 1) m else m | None \<Rightarrow> m)"

definition releaseSlot ::
  "ToolKey \<Rightarrow> string \<Rightarrow> ('p, 'c, 'z) GovSt_scheme \<Rightarrow> 'c admission list \<times> ('p, 'c, 'z) GovSt_scheme" where
  "releaseSlot key agentId s =
    (let ts = ToolKey_str key
     in tryDequeue ts
          (s\<lparr>gv_toolInUse := decr_use ts (gv_toolInUse s),
             gv_principalInUse := decr_use agentId (gv_principalInUse s),
             env_counters := (env_counters s)\<lparr>cn_permitHeld := cn_permitHeld (env_counters s) - 1\<rparr>\<rparr>))"

definition onToolsListed :: "string \<Rightarrow> string list \<Rightarrow> ('p, 'c, 'z) GovSt_scheme \<Rightarrow> ('p, 'c, 'z) GovSt_scheme" where
  "onToolsListed backend tools s =
     s\<lparr>gv_cfg := (gv_cfg s)\<lparr>cf_governorTools :=
         map (\<lambda>(k, g). (k, case ToolKey_parse k of
                             None \<Rightarrow> g
                           | Some key \<Rightarrow>
                               if tk_backend key \<noteq> backend then g
                               else if tk_tool key \<in> set tools then g\<lparr>gt_status := Active\<rparr>
                               else g\<lparr>gt_status := Invalid\<rparr>))
             (cf_governorTools (gv_cfg s))\<rparr>\<rparr>"

fun drainQueue ::
  "string \<Rightarrow> 'c Waiter list \<Rightarrow> ('p, 'c, 'z) GovSt_scheme \<Rightarrow> 'c admission list \<times> ('p, 'c, 'z) GovSt_scheme" where
  "drainQueue ts [] s = ([], s)"
| "drainQueue ts (w # q) s =
    (let (evs, s1) = drainQueue ts q (dropWaiter ts w q s) in ((wt_cb w, Reject, None) # evs, s1))"

fun drainQueues ::
  "(string, 'c Waiter list) umap \<Rightarrow> ('p, 'c, 'z) GovSt_scheme \<Rightarrow> 'c admission list \<times> ('p, 'c, 'z) GovSt_scheme" where
  "drainQueues [] s = ([], s)"
| "drainQueues ((ts, q) # m) s =
    (let (evs, s1) = drainQueue ts q s; (evs', s2) = drainQueues m s1 in (evs @ evs', s2))"

definition rejectAllQueued :: "('p, 'c, 'z) GovSt_scheme \<Rightarrow> 'c admission list \<times> ('p, 'c, 'z) GovSt_scheme" where
  "rejectAllQueued s = drainQueues (gv_queues s) s"

definition governor_statusJson :: "'j json_api \<Rightarrow> ('p, 'c, 'z) GovSt_scheme \<Rightarrow> 'j" where
  "governor_statusJson J s =
     fold (\<lambda>(k, g) j. j_put J j k (j_str J
            (if gt_status g = Invalid then ''invalid''
             else if gt_status g = Active then ''active'' else ''unvalidated'')))
       (cf_governorTools (gv_cfg s)) (j_obj J [])"

definition permitHeld :: "('p, 'c, 'z) GovSt_scheme \<Rightarrow> int" where
  "permitHeld s = sum_list (map snd (gv_toolInUse s))"

lemmas governor_defs =
  acquire_def onQueueTimeout_def tryDequeue_def releaseSlot_def issue_def take_slot_def Let_def

section \<open>Invariant\<close>

text \<open>\<open>slots_ok H s\<close>: the counters of \<open>s\<close> are those of the multiset \<open>H\<close> of permits held by
  the callers. \<open>queues_ok s\<close>: every waiter is in the queue of its tool and its time-out is
  armed.\<close>

definition held_tool :: "Permit multiset \<Rightarrow> string \<Rightarrow> int" where
  "held_tool H ts = int (size (filter_mset (\<lambda>p. ToolKey_str (pm_key p) = ts) H))"

definition held_agent :: "Permit multiset \<Rightarrow> string \<Rightarrow> int" where
  "held_agent H a = int (size (filter_mset (\<lambda>p. pm_agentId p = a) H))"

definition slots_ok :: "Permit multiset \<Rightarrow> ('p, 'c, 'z) GovSt_scheme \<Rightarrow> bool" where
  "slots_ok H s \<longleftrightarrow>
     (\<forall>ts. um_at 0 (gv_toolInUse s) ts = held_tool H ts) \<and>
     (\<forall>a. um_at 0 (gv_principalInUse s) a = held_agent H a) \<and>
     cn_permitHeld (env_counters s) = int (size H) \<and> permitHeld s = int (size H)"

definition waiter_ok :: "('p, 'c, 'z) GovSt_scheme \<Rightarrow> string \<Rightarrow> 'c Waiter \<Rightarrow> bool" where
  "waiter_ok s ts w \<longleftrightarrow>
     ToolKey_str (wt_key w) = ts \<and> wt_id w < gv_nextWaitId s \<and> wt_timer w \<noteq> 0 \<and>
     timerCb s (wt_timer w) = Some (TQueueTimeout ts (wt_id w))"

abbreviation queue_of :: "('p, 'c, 'z) GovSt_scheme \<Rightarrow> string \<Rightarrow> 'c Waiter list" where
  "queue_of s ts \<equiv> um_at [] (gv_queues s) ts"

definition queues_ok :: "('p, 'c, 'z) GovSt_scheme \<Rightarrow> bool" where
  "queues_ok s \<longleftrightarrow>
     el_wf (env_loop s) \<and> um_wf (gv_queues s) \<and>
     (\<forall>ts. \<forall>w \<in> set (queue_of s ts). waiter_ok s ts w) \<and>
     (\<forall>ts. distinct (map wt_id (queue_of s ts)))"

definition gov_inv :: "Permit multiset \<Rightarrow> ('p, 'c, 'z) GovSt_scheme \<Rightarrow> bool" where
  "gov_inv H s \<longleftrightarrow> slots_ok H s \<and> queues_ok s"

text \<open>The continuations that wait, and what a list of admissions carries.\<close>

definition waiting :: "('p, 'c, 'z) GovSt_scheme \<Rightarrow> 'c multiset" where
  "waiting s = sum_list (map ((\<lambda>q. mset (map wt_cb q)) \<circ> snd) (gv_queues s))"

definition ev_permits :: "'c admission list \<Rightarrow> Permit multiset" where
  "ev_permits evs = mset (List.map_filter (\<lambda>e. snd (snd e)) evs)"

definition ev_ok :: "'c admission list \<Rightarrow> bool" where
  "ev_ok evs \<longleftrightarrow> (\<forall>e \<in> set evs. fst (snd e) = (if snd (snd e) = None then Reject else Go))"

lemma ev_permits_simps [simp]:
  "ev_permits [] = {#}"
  "ev_permits ((c, a, None) # evs) = ev_permits evs"
  "ev_permits ((c, a, Some p) # evs) = add_mset p (ev_permits evs)"
  "ev_permits (xs @ ys) = ev_permits xs + ev_permits ys"
  by (simp_all add: ev_permits_def List.map_filter_def)

lemma ev_ok_simps [simp]:
  "ev_ok []" "ev_ok (e # evs) \<longleftrightarrow> fst (snd e) = (if snd (snd e) = None then Reject else Go) \<and> ev_ok evs"
  "ev_ok (xs @ ys) \<longleftrightarrow> ev_ok xs \<and> ev_ok ys"
  by (auto simp: ev_ok_def)

section \<open>Slots\<close>

lemma held_simps [simp]:
  "held_tool {#} ts = 0" "held_agent {#} a = 0"
  "held_tool (add_mset p H) ts = held_tool H ts + (if ToolKey_str (pm_key p) = ts then 1 else 0)"
  "held_agent (add_mset p H) a = held_agent H a + (if pm_agentId p = a then 1 else 0)"
  by (simp_all add: held_tool_def held_agent_def)

lemma held_nonneg: "0 \<le> held_tool H ts" "0 \<le> held_agent H a"
  by (simp_all add: held_tool_def held_agent_def)

lemma permitHeld_set:
  "sum_list (map snd (um_set k v m)) + um_at 0 m k = sum_list (map snd m) + (v :: int)"
  using um_sum_at_set [of "\<lambda>x. x" 0 k v m] by (simp add: o_def)

lemma slots_ok_issue:
  assumes "slots_ok H s" "issue key agent s = (p, s')"
  shows "slots_ok (add_mset p H) s'"
proof -
  let ?ts = "ToolKey_str key"
  have p: "p = \<lparr>pm_key = key, pm_agentId = agent\<rparr>" and s': "s' = take_slot ?ts agent s"
    using assms(2) by (auto simp: issue_def)
  have "permitHeld s' = permitHeld s + 1"
    using permitHeld_set [of ?ts "um_at 0 (gv_toolInUse s) ?ts + 1" "gv_toolInUse s"]
    by (simp add: s' permitHeld_def take_slot_def)
  then show ?thesis
    using assms(1) by (auto simp: p s' slots_ok_def take_slot_def)
qed

lemma um_at_decr: "um_at 0 (decr_use k m) j = um_at 0 m j - (if j = k \<and> um_at 0 m k > 0 then 1 else 0)"
  by (auto simp: decr_use_def um_at_def um_find_set split: option.splits)

lemma sum_decr: "0 < um_at 0 m k \<Longrightarrow> sum_list (map snd (decr_use k m)) = sum_list (map snd m) - (1 :: int)"
  using permitHeld_set [of k "um_at 0 m k - 1" m]
  by (auto simp: decr_use_def um_at_def split: option.splits)

lemma slots_ok_decr:
  assumes "slots_ok H s" "p \<in># H"
  shows "slots_ok (H - {#p#})
     (s\<lparr>gv_toolInUse := decr_use (ToolKey_str (pm_key p)) (gv_toolInUse s),
        gv_principalInUse := decr_use (pm_agentId p) (gv_principalInUse s),
        env_counters := (env_counters s)\<lparr>cn_permitHeld := cn_permitHeld (env_counters s) - 1\<rparr>\<rparr>)"
proof -
  obtain H' where H: "H = add_mset p H'" using assms(2) by (metis multi_member_split)
  have pos: "0 < um_at 0 (gv_toolInUse s) (ToolKey_str (pm_key p))"
    "0 < um_at 0 (gv_principalInUse s) (pm_agentId p)"
    using assms(1) held_nonneg(1) [of H' "ToolKey_str (pm_key p)"] held_nonneg(2) [of H' "pm_agentId p"]
    by (simp_all add: slots_ok_def H)
  then show ?thesis
    using assms(1) by (auto simp: slots_ok_def H um_at_decr permitHeld_def sum_decr)
qed

section \<open>Queues\<close>

lemma waiting_set:
  "waiting (s\<lparr>gv_queues := um_set ts q (gv_queues s)\<rparr>) + mset (map wt_cb (queue_of s ts)) =
   waiting s + mset (map wt_cb q)"
  using um_sum_at_set [of "\<lambda>q. mset (map wt_cb q)" "[]" ts q "gv_queues s"]
  by (simp add: waiting_def)

lemma queues_ok_set:
  assumes "queues_ok s" "set q \<subseteq> set (queue_of s ts)" "distinct (map wt_id q)"
  shows "queues_ok (s\<lparr>gv_queues := um_set ts q (gv_queues s)\<rparr>)"
  using assms by (auto simp: queues_ok_def waiter_ok_def)

lemma dropWaiter_frames [pf_frames]:
  "gv_cfg (dropWaiter ts w q s) = gv_cfg s"
  "gv_toolInUse (dropWaiter ts w q s) = gv_toolInUse s"
  "gv_principalInUse (dropWaiter ts w q s) = gv_principalInUse s"
  "gv_nextWaitId (dropWaiter ts w q s) = gv_nextWaitId s"
  "gv_queues (dropWaiter ts w q s) = um_set ts q (gv_queues s)"
  "env_counters (dropWaiter ts w q s) = env_counters s"
  by (simp_all add: dropWaiter_def env_cancel_def Let_def)

lemma nowMs_gov_frames [pf_frames]:
  "gv_cfg (snd (nowMs s)) = gv_cfg s" "gv_toolInUse (snd (nowMs s)) = gv_toolInUse s"
  "gv_principalInUse (snd (nowMs s)) = gv_principalInUse s"
  "gv_nextWaitId (snd (nowMs s)) = gv_nextWaitId s" "gv_queues (snd (nowMs s)) = gv_queues s"
  by (simp_all add: nowMs_def)

lemma queues_ok_cong:
  assumes "env_loop s' = env_loop s" "gv_queues s' = gv_queues s" "gv_nextWaitId s' = gv_nextWaitId s"
  shows "queues_ok s' = queues_ok s"
  using assms by (simp add: queues_ok_def waiter_ok_def)

lemma slots_ok_cong:
  assumes "gv_toolInUse s' = gv_toolInUse s" "gv_principalInUse s' = gv_principalInUse s"
    "env_counters s' = env_counters s"
  shows "slots_ok H s' = slots_ok H s"
  using assms by (simp add: slots_ok_def permitHeld_def)

lemma queues_ok_dropWaiter:
  assumes ok: "queues_ok s" and q: "queue_of s ts = w # q"
  shows "queues_ok (dropWaiter ts w q s)"
proof -
  let ?s1 = "s\<lparr>gv_queues := um_set ts q (gv_queues s)\<rparr>"
  have wf: "el_wf (env_loop s)" and w: "waiter_ok s ts w"
    using ok q by (auto simp: queues_ok_def)
  have d: "distinct (map wt_id (w # q))"
    using ok q unfolding queues_ok_def by metis
  have ok1: "queues_ok ?s1"
    using ok q d by (auto intro: queues_ok_set)
  have t: "wt_timer w \<noteq> 0" "timerCb s (wt_timer w) = Some (TQueueTimeout ts (wt_id w))"
    using w by (simp_all add: waiter_ok_def)
  have issued: "wt_timer w < el_nextTimerId (env_loop s)"
    using els.cb_issued [OF wf t(2)] .
  have other: "waiter_ok (dropWaiter ts w q s) ts' v" if v: "v \<in> set (queue_of ?s1 ts')" for ts' v
  proof -
    have v1: "waiter_ok ?s1 ts' v" using ok1 v by (simp add: queues_ok_def)
    have "(ts', wt_id v) \<noteq> (ts, wt_id w)" using v d by (auto split: if_splits) (metis imageI)
    then have "wt_timer v \<noteq> wt_timer w" using v1 t by (auto simp: waiter_ok_def)
    then show ?thesis
      using v1 els.stop_bind [OF wf, of "wt_timer w" "wt_timer v"] t
      by (simp add: waiter_ok_def dropWaiter_def env_cancel_def Let_def)
  qed
  have "el_wf (env_loop (dropWaiter ts w q s))"
    using els.inv_stop [OF wf issued] t by (simp add: dropWaiter_def env_cancel_def Let_def)
  then show ?thesis
    using ok1 other by (simp add: queues_ok_def dropWaiter_frames)
qed

lemma waiting_dropWaiter:
  "queue_of s ts = w # q \<Longrightarrow> waiting s = add_mset (wt_cb w) (waiting (dropWaiter ts w q s))"
  using waiting_set [where s = s and ts = ts and q = q] by (simp add: waiting_def dropWaiter_frames add.commute)

section \<open>Every operation keeps the invariant and loses no continuation\<close>

text \<open>What an operation that is given the continuations \<open>R\<close> and the permits \<open>H\<close> promises.\<close>

definition gov_result ::
  "Permit multiset \<Rightarrow> 'c multiset \<Rightarrow> 'c admission list \<times> ('p, 'c, 'z) GovSt_scheme \<Rightarrow> bool" where
  "gov_result H R r \<longleftrightarrow>
     gov_inv (H + ev_permits (fst r)) (snd r) \<and> waiting (snd r) + mset (map fst (fst r)) = R \<and> ev_ok (fst r)"

lemma gov_result_seq:
  assumes "gov_result H R (e1, s1)" "gov_result (H + ev_permits e1) (waiting s1) (e2, s2)"
  shows "gov_result H R (e1 @ e2, s2)"
proof -
  have "waiting s2 + mset (map fst (e1 @ e2)) = (waiting s2 + mset (map fst e2)) + mset (map fst e1)"
    by simp
  also have "\<dots> = R" using assms by (simp add: gov_result_def)
  finally show ?thesis using assms by (simp add: gov_result_def add.assoc)
qed

lemma gov_inv_nowMs: "gov_inv H s \<Longrightarrow> gov_inv H (snd (nowMs s))"
  using queues_ok_cong [of "snd (nowMs s)" s] slots_ok_cong [of "snd (nowMs s)" s H]
  by (simp add: gov_inv_def pf_frames)

lemma waiting_nowMs [simp]: "waiting (snd (nowMs s)) = waiting s"
  by (simp add: waiting_def pf_frames)

lemma issue_result:
  assumes "gov_inv H s"
  shows "gov_result H (add_mset c (waiting s)) (let (p, s1) = issue key agent s in ([(c, Go, Some p)], s1))"
proof -
  obtain p s1 where i: "issue key agent s = (p, s1)" by (cases "issue key agent s")
  then have "s1 = take_slot (ToolKey_str key) agent s" by (simp add: issue_def)
  then have "queues_ok s1 = queues_ok s" "waiting s1 = waiting s"
    by (simp_all add: take_slot_def waiting_def queues_ok_def waiter_ok_def)
  then show ?thesis
    using assms slots_ok_issue [OF _ i, of H] i by (simp add: gov_result_def gov_inv_def)
qed

lemma gov_inv_dropWaiter:
  "gov_inv H s \<Longrightarrow> queue_of s ts = w # q \<Longrightarrow> gov_inv H (dropWaiter ts w q s)"
  using slots_ok_cong [of "dropWaiter ts w q s" s H]
  by (simp add: gov_inv_def queues_ok_dropWaiter dropWaiter_frames)

lemma tryDequeue_loop_result:
  "gov_inv H s \<Longrightarrow> queue_of s ts = q \<Longrightarrow> gov_result H (waiting s) (tryDequeue_loop ts q s)"
proof (induction q arbitrary: s)
  case (Cons w q)
  let ?s1 = "snd (nowMs (dropWaiter ts w q s))"
  have inv1: "gov_inv H ?s1" using Cons.prems by (simp add: gov_inv_nowMs gov_inv_dropWaiter)
  have q1: "queue_of ?s1 ts = q" by (simp add: pf_frames)
  have wait: "waiting s = add_mset (wt_cb w) (waiting ?s1)"
    using waiting_dropWaiter [OF Cons.prems(2)] by simp
  note ih = Cons.IH [OF inv1 q1]
  note iss = issue_result [OF inv1, of "wt_cb w" "wt_key w" "p_agentId (wt_who w)"]
  show ?case
    using Cons.prems ih iss wait by (auto simp: gov_result_def split_beta Let_def)
qed (simp add: gov_result_def)

lemma tryDequeue_result:
  assumes "gov_inv H s"
  shows "gov_result H (waiting s) (tryDequeue ts s)"
proof -
  let ?s1 = "s\<lparr>gv_queues := um_set ts (queue_of s ts) (gv_queues s)\<rparr>"
  have "queues_ok ?s1"
    using assms queues_ok_set [of s "queue_of s ts" ts] by (simp add: gov_inv_def queues_ok_def)
  then have "gov_inv H ?s1"
    using assms slots_ok_cong [of ?s1 s H] by (simp add: gov_inv_def)
  moreover have "waiting ?s1 = waiting s"
    using waiting_set [where s = s and ts = ts and q = "queue_of s ts"] by simp
  ultimately show ?thesis
    using tryDequeue_loop_result [of H ?s1 ts "queue_of s ts"] by (simp add: tryDequeue_def Let_def)
qed

lemma releaseSlot_result:
  assumes "gov_inv H s" "p \<in># H"
  shows "gov_result (H - {#p#}) (waiting s) (releaseSlot (pm_key p) (pm_agentId p) s)"
proof -
  let ?s1 = "s\<lparr>gv_toolInUse := decr_use (ToolKey_str (pm_key p)) (gv_toolInUse s),
        gv_principalInUse := decr_use (pm_agentId p) (gv_principalInUse s),
        env_counters := (env_counters s)\<lparr>cn_permitHeld := cn_permitHeld (env_counters s) - 1\<rparr>\<rparr>"
  have "gov_inv (H - {#p#}) ?s1"
    using assms slots_ok_decr [of H s p] queues_ok_cong [of ?s1 s] by (simp add: gov_inv_def)
  moreover have "waiting ?s1 = waiting s" by (simp add: waiting_def)
  ultimately show ?thesis
    using tryDequeue_result [of "H - {#p#}" ?s1 "ToolKey_str (pm_key p)"]
    by (simp add: releaseSlot_def Let_def)
qed

text \<open>A new waiter at the end of its queue, its timer just armed.\<close>

lemma queues_ok_enqueue:
  assumes ok: "queues_ok s" and arm: "env_runAfter ms (TQueueTimeout ts i) (s\<lparr>gv_nextWaitId := Suc i\<rparr>) = (tid, s2)"
    and i: "i = gv_nextWaitId s" and w: "ToolKey_str (wt_key w) = ts" "wt_timer w = tid" "wt_id w = i"
  shows "queues_ok (s2\<lparr>gv_queues := um_set ts (queue_of s2 ts @ [w]) (gv_queues s2)\<rparr>)"
proof -
  have wf: "el_wf (env_loop (s\<lparr>gv_nextWaitId := Suc i\<rparr>))" using ok by (simp add: queues_ok_def)
  have s2: "gv_queues s2 = gv_queues s" "gv_nextWaitId s2 = Suc i"
    using arm by (auto simp: env_runAfter_def split_beta)
  note tm = env_runAfter_props [OF wf arm]
  have old: "waiter_ok s2 ts' v \<and> wt_id v < i" if "v \<in> set (queue_of s ts')" for ts' v
  proof -
    have "waiter_ok s ts' v" using ok that by (simp add: queues_ok_def)
    then show ?thesis using tm s2 i by (auto simp: waiter_ok_def)
  qed
  have "waiter_ok s2 ts w" using tm w s2 by (simp add: waiter_ok_def)
  moreover have "i \<notin> wt_id ` set (queue_of s ts)" using old by (metis image_iff less_irrefl)
  ultimately show ?thesis
    using ok old tm(1) s2 w by (auto simp: queues_ok_def waiter_ok_def)
qed

lemma acquire_result:
  assumes "gov_inv H s"
  shows "gov_result H (add_mset c (waiting s)) (acquire who key d c s)"
proof (cases "canTake s (ToolKey_str key) (p_agentId who)")
  case True
  then show ?thesis using issue_result [OF assms, of c key "p_agentId who"] by (simp add: acquire_def Let_def)
next
  case False
  define ts where "ts = ToolKey_str key"
  define now where "now = fst (nowMs s)"
  define s1 where "s1 = snd (nowMs s)"
  define dl where "dl = (if d = 0 then now + toolWaitMs (gv_cfg s) ts else d)"
  have inv1: "gov_inv H s1" and w1: "waiting s1 = waiting s"
    using assms by (simp_all add: s1_def gov_inv_nowMs)
  show ?thesis
  proof (cases "dl \<le> now")
    case True
    then have "acquire who key d c s = ([(c, Reject, None)], s1)"
      using False by (simp add: acquire_def Let_def split_beta dl_def ts_def now_def s1_def split: if_splits)
    then show ?thesis using inv1 w1 by (simp add: gov_result_def)
  next
    case nlate: False
    define i where "i = gv_nextWaitId s1"
    obtain tid s2 where arm: "env_runAfter (dl - now) (TQueueTimeout ts i) (s1\<lparr>gv_nextWaitId := Suc i\<rparr>) = (tid, s2)"
      by (cases "env_runAfter (dl - now) (TQueueTimeout ts i) (s1\<lparr>gv_nextWaitId := Suc i\<rparr>)")
    define w where "w = \<lparr>wt_who = who, wt_key = key, wt_deadlineMs = dl, wt_timer = tid, wt_cb = c, wt_id = i\<rparr>"
    define s3 where "s3 = s2\<lparr>gv_queues := um_set ts (queue_of s2 ts @ [w]) (gv_queues s2)\<rparr>"
    have "acquire who key d c s = ([], s3)"
      using False nlate arm
      by (cases "d = 0") (simp_all add: acquire_def Let_def split_beta dl_def ts_def now_def s1_def i_def s3_def w_def)
    moreover have "queues_ok s3"
      using queues_ok_enqueue [OF _ arm] inv1 by (simp add: gov_inv_def i_def s3_def w_def ts_def)
    moreover have s2: "s2 = s1\<lparr>gv_nextWaitId := Suc i, env_clk := env_clk s2, env_loop := env_loop s2\<rparr>"
      using arm by (auto simp: env_runAfter_def split_beta)
    moreover have "slots_ok H s3"
    proof -
      have "gv_toolInUse s3 = gv_toolInUse s1" "gv_principalInUse s3 = gv_principalInUse s1"
        "env_counters s3 = env_counters s1"
        by (simp_all add: s3_def) (subst s2, simp)+
      then show ?thesis using slots_ok_cong [of s3 s1 H] inv1 by (simp add: gov_inv_def)
    qed
    moreover have "waiting s3 = add_mset c (waiting s)"
    proof -
      have "gv_queues s2 = gv_queues s1" by (subst s2) simp
      then have "waiting s2 = waiting s" using w1 by (simp add: waiting_def)
      then show ?thesis
        using waiting_set [where s = s2 and ts = ts and q = "queue_of s2 ts @ [w]"] by (simp add: s3_def w_def)
    qed
    ultimately show ?thesis by (simp add: gov_result_def gov_inv_def)
  qed
qed

lemma takeWaiter_Some:
  "takeWaiter i q = Some (w, q') \<Longrightarrow> wt_id w = i \<and> mset q = add_mset w (mset q') \<and> set q' \<subseteq> set q \<and> w \<in> set q"
  by (induction q arbitrary: w q') (auto split: if_splits)

lemma takeWaiter_None: "takeWaiter i q = None \<longleftrightarrow> i \<notin> wt_id ` set q"
  by (induction q) auto

text \<open>The event loop has already taken the callback of the expired timer out of its table
  when the closure runs.\<close>

lemma onQueueTimeout_result:
  assumes inv: "gov_inv H s" and t: "timerBegin t (env_loop s) = ((b, Some (TQueueTimeout ts i)), el)"
  shows "gov_result H (waiting s) (onQueueTimeout ts i (s\<lparr>env_loop := el\<rparr>))"
proof -
  have ok: "queues_ok s" and wf: "el_wf (env_loop s)" using inv by (simp_all add: gov_inv_def queues_ok_def)
  have wfel: "el_wf el" using el_wf_timerBegin [OF wf, of t] t by simp
  have cb: "timerCb s (tm_id t) = Some (TQueueTimeout ts i)"
    and el: "um_find (el_timerCbs el) j = (if j = tm_id t then None else timerCb s j)" for j
    using t by (auto simp: timerBegin_def um_find_erase split: if_splits)
  define q' where "q' = (case takeWaiter i (queue_of s ts) of None \<Rightarrow> queue_of s ts | Some (w, q) \<Rightarrow> q)"
  define s' where "s' = s\<lparr>env_loop := el, gv_queues := um_set ts q' (gv_queues s)\<rparr>"
  have sub: "set q' \<subseteq> set (queue_of s ts)"
    using takeWaiter_Some [of i "queue_of s ts"] by (auto simp: q'_def split: option.splits)
  have dist: "distinct (map wt_id (queue_of s ts))" using ok by (simp add: queues_ok_def)
  then have d': "distinct (map wt_id q') \<and> i \<notin> wt_id ` set q'"
  proof (cases "takeWaiter i (queue_of s ts)")
    case None
    then have "i \<notin> wt_id ` set (queue_of s ts)" using takeWaiter_None by metis
    then show ?thesis using dist None by (simp add: q'_def)
  next
    case (Some p)
    obtain w q where p: "p = (w, q)" by (cases p)
    have ms: "mset (queue_of s ts) = mset (w # q)" "wt_id w = i"
      using takeWaiter_Some [of i "queue_of s ts" w q] Some p by simp_all
    have "mset (map wt_id (queue_of s ts)) = mset (map wt_id (w # q))"
      using ms(1) by (metis mset_map)
    then have "distinct (map wt_id (w # q))"
      using dist mset_eq_imp_distinct_iff by blast
    with ms(2) show ?thesis using Some p by (simp add: q'_def)
  qed
  have keep: "waiter_ok s' ts' v" if v: "v \<in> set (queue_of s' ts')" for ts' v
  proof -
    have "waiter_ok s ts' v" using ok v sub by (auto simp: queues_ok_def s'_def split: if_splits)
    moreover have "(ts', wt_id v) \<noteq> (ts, i)" using v d' by (auto simp: s'_def)
    ultimately show ?thesis using cb by (auto simp: waiter_ok_def s'_def el)
  qed
  have "queues_ok s'"
    using keep ok wfel d' by (simp add: queues_ok_def s'_def)
  moreover have "slots_ok H s'" using inv slots_ok_cong [of s' s H] by (simp add: gov_inv_def s'_def)
  moreover have "waiting s' + mset (map wt_cb (queue_of s ts)) = waiting s + mset (map wt_cb q')"
    using waiting_set [where s = s and ts = ts and q = q'] by (simp add: s'_def waiting_def)
  ultimately show ?thesis
    using takeWaiter_Some [of i "queue_of s ts"]
    by (auto simp: gov_result_def gov_inv_def onQueueTimeout_def Let_def q'_def s'_def mset_map
        split: option.splits)
qed

lemma gov_inv_timerBegin_other:
  assumes inv: "gov_inv H s" and t: "timerBegin t (env_loop s) = ((b, cb), el)"
    and cb: "\<And>ts i. cb \<noteq> Some (TQueueTimeout ts i)"
  shows "gov_inv H (s\<lparr>env_loop := el\<rparr>)" "waiting (s\<lparr>env_loop := el\<rparr>) = waiting s"
proof -
  have ok: "queues_ok s" and wf: "el_wf (env_loop s)" using inv by (simp_all add: gov_inv_def queues_ok_def)
  have "el_wf el" using el_wf_timerBegin [OF wf, of t] t by simp
  moreover have "waiter_ok (s\<lparr>env_loop := el\<rparr>) ts w" if w: "waiter_ok s ts w" for ts w
  proof -
    have "wt_timer w \<noteq> tm_id t"
      using w t cb els.cb_issued [OF wf] el_wf_cb [OF wf] by (auto simp: waiter_ok_def timerBegin_def split: if_splits)
    then show ?thesis
      using w t by (auto simp: waiter_ok_def timerBegin_def um_find_erase split: if_splits)
  qed
  ultimately have "queues_ok (s\<lparr>env_loop := el\<rparr>)" using ok by (simp add: queues_ok_def)
  then show "gov_inv H (s\<lparr>env_loop := el\<rparr>)"
    using inv slots_ok_cong [of "s\<lparr>env_loop := el\<rparr>" s H] by (simp add: gov_inv_def)
  show "waiting (s\<lparr>env_loop := el\<rparr>) = waiting s" by (simp add: waiting_def)
qed

lemma gov_inv_onToolsListed: "gov_inv H s \<Longrightarrow> gov_inv H (onToolsListed b ts s)"
  using slots_ok_cong [of "onToolsListed b ts s" s H] queues_ok_cong [of "onToolsListed b ts s" s]
  by (simp add: gov_inv_def onToolsListed_def)

lemma drainQueue_result:
  "gov_inv H s \<Longrightarrow> queue_of s ts = q \<Longrightarrow>
   gov_result H (waiting s) (drainQueue ts q s) \<and> ev_permits (fst (drainQueue ts q s)) = {#} \<and>
   queue_of (snd (drainQueue ts q s)) ts' = (if ts' = ts then [] else queue_of s ts')"
proof (induction q arbitrary: s)
  case (Cons w q)
  have "gov_inv H (dropWaiter ts w q s)" using Cons.prems by (rule gov_inv_dropWaiter)
  moreover have "queue_of (dropWaiter ts w q s) ts = q" by (simp add: pf_frames)
  ultimately show ?case
    using Cons.IH [of "dropWaiter ts w q s"] waiting_dropWaiter [OF Cons.prems(2)]
    by (auto simp: gov_result_def split_beta Let_def pf_frames)
qed (auto simp: gov_result_def)

lemma drainQueues_result:
  "gov_inv H s \<Longrightarrow> (\<And>ts q. (ts, q) \<in> set m \<Longrightarrow> queue_of s ts = q) \<Longrightarrow> um_wf m \<Longrightarrow>
   gov_result H (waiting s) (drainQueues m s) \<and> ev_permits (fst (drainQueues m s)) = {#} \<and>
   (\<forall>ts. queue_of (snd (drainQueues m s)) ts = (if ts \<in> fst ` set m then [] else queue_of s ts))"
proof (induction m arbitrary: s)
  case (Cons p m)
  obtain ts q where p: "p = (ts, q)" by (cases p)
  let ?s1 = "snd (drainQueue ts q s)"
  have d: "gov_result H (waiting s) (drainQueue ts q s)" "ev_permits (fst (drainQueue ts q s)) = {#}"
    "queue_of ?s1 ts' = (if ts' = ts then [] else queue_of s ts')" for ts'
    using drainQueue_result [of H s ts q ts'] Cons.prems(1,2) p by auto
  have new: "ts \<notin> fst ` set m" using Cons.prems(3) p by (simp add: um_wf_def)
  have "queue_of ?s1 ts' = q'" if "(ts', q') \<in> set m" for ts' q'
    using that new d(3) Cons.prems(2) [of ts' q'] by force
  moreover have "gov_inv H ?s1" "um_wf m"
    using d Cons.prems(3) by (simp_all add: gov_result_def um_wf_def)
  ultimately show ?case
    using Cons.IH [of ?s1] d p
      gov_result_seq [of H "waiting s" "fst (drainQueue ts q s)" ?s1
        "fst (drainQueues m ?s1)" "snd (drainQueues m ?s1)"]
    by (simp add: split_beta Let_def)
qed (auto simp: gov_result_def)

lemma rejectAllQueued_result:
  assumes "gov_inv H s"
  shows "gov_result H (waiting s) (rejectAllQueued s)" "ev_permits (fst (rejectAllQueued s)) = {#}"
    "queue_of (snd (rejectAllQueued s)) ts = []"
proof -
  have wf: "um_wf (gv_queues s)" using assms by (simp add: gov_inv_def queues_ok_def)
  have "queue_of s ts = q" if "(ts, q) \<in> set (gv_queues s)" for ts q
    using um_wf_find [OF wf that] by (simp add: um_at_def)
  note r = drainQueues_result [OF assms this wf]
  show "gov_result H (waiting s) (rejectAllQueued s)" "ev_permits (fst (rejectAllQueued s)) = {#}"
    using r by (simp_all add: rejectAllQueued_def)
  have "queue_of s ts = []" if "ts \<notin> fst ` set (gv_queues s)"
    using that by (simp add: um_at_def map_of_eq_None_iff [symmetric])
  then show "queue_of (snd (rejectAllQueued s)) ts = []"
    using r unfolding rejectAllQueued_def by (metis (no_types, lifting))
qed

lemma waiting_empty_iff:
  fixes s :: "('p, 'c, 'z) GovSt_scheme"
  assumes wf: "um_wf (gv_queues s)"
  shows "waiting s = {#} \<longleftrightarrow> (\<forall>ts. queue_of s ts = [])"
proof -
  have "sum_list (map ((\<lambda>q. mset (map wt_cb q)) \<circ> snd) m) = {#} \<longleftrightarrow> (\<forall>x \<in> set m. snd x = [])"
    for m :: "(string, 'c Waiter list) umap"
    by (induction m) auto
  then have "waiting s = {#} \<longleftrightarrow> (\<forall>x \<in> set (gv_queues s). snd x = [])"
    unfolding waiting_def .
  also have "\<dots> \<longleftrightarrow> (\<forall>ts. queue_of s ts = [])"
    using wf by (force simp: um_at_def um_wf_find_iff split: option.splits dest: um_wf_find)
  finally show ?thesis .
qed

section \<open>Continuations are conserved in every state\<close>

lemma waiting_issue: "waiting (snd (issue k a s)) = waiting s"
  by (simp add: issue_def take_slot_def waiting_def)

lemma tryDequeue_loop_waiting:
  "queue_of s ts = q \<Longrightarrow>
   waiting (snd (tryDequeue_loop ts q s)) + mset (map fst (fst (tryDequeue_loop ts q s))) = waiting s"
proof (induction q arbitrary: s)
  case (Cons w q)
  let ?s1 = "snd (nowMs (dropWaiter ts w q s))"
  have "queue_of ?s1 ts = q" by (simp add: pf_frames)
  moreover have "waiting s = add_mset (wt_cb w) (waiting ?s1)"
    using waiting_dropWaiter [OF Cons.prems] by simp
  ultimately show ?case
    using Cons.IH [of ?s1] by (auto simp: split_beta Let_def waiting_issue)
qed simp

lemma releaseSlot_waiting:
  "waiting (snd (releaseSlot key a s)) + mset (map fst (fst (releaseSlot key a s))) = waiting s"
proof -
  let ?s1 = "s\<lparr>gv_toolInUse := decr_use (ToolKey_str key) (gv_toolInUse s),
        gv_principalInUse := decr_use a (gv_principalInUse s),
        env_counters := (env_counters s)\<lparr>cn_permitHeld := cn_permitHeld (env_counters s) - 1\<rparr>\<rparr>"
  let ?q = "queue_of ?s1 (ToolKey_str key)"
  let ?s2 = "?s1\<lparr>gv_queues := um_set (ToolKey_str key) ?q (gv_queues ?s1)\<rparr>"
  have "waiting ?s2 = waiting ?s1"
    using waiting_set [where s = ?s1 and ts = "ToolKey_str key" and q = ?q] by simp
  moreover have "waiting ?s1 = waiting s" by (simp add: waiting_def)
  ultimately show ?thesis
    using tryDequeue_loop_waiting [of ?s2 "ToolKey_str key" ?q]
    by (simp add: releaseSlot_def tryDequeue_def Let_def)
qed

section \<open>The interface\<close>

text \<open>
  The contract of the abstract class \<^verbatim>\<open>Governor\<close> with its RAII permits: \<open>inv H s\<close> says that
  the permits \<open>H\<close> are out; acquiring answers the continuation at once or lets it wait,
  releasing a permit that is out may answer waiting ones; every answer is \<open>Go\<close> with a permit
  or \<open>Reject\<close> without one.
\<close>

fun release_all ::
  "(Permit \<Rightarrow> 's \<Rightarrow> 'c admission list \<times> 's) \<Rightarrow> Permit list \<Rightarrow> 's \<Rightarrow> 'c admission list \<times> 's" where
  "release_all rel [] s = ([], s)"
| "release_all rel (p # ps) s =
    (let (e, s1) = rel p s; (e', s2) = release_all rel ps s1 in (e @ e', s2))"

locale governor_iface =
  fixes inv :: "Permit multiset \<Rightarrow> 's \<Rightarrow> bool"
    and waits :: "'s \<Rightarrow> 'c multiset"
    and acq :: "Principal \<Rightarrow> ToolKey \<Rightarrow> u64 \<Rightarrow> 'c \<Rightarrow> 's \<Rightarrow> 'c admission list \<times> 's"
    and rel :: "Permit \<Rightarrow> 's \<Rightarrow> 'c admission list \<times> 's"
  assumes acq_inv: "inv H s \<Longrightarrow> inv (H + ev_permits (fst (acq who k d c s))) (snd (acq who k d c s))"
    and acq_waits: "inv H s \<Longrightarrow>
      waits (snd (acq who k d c s)) + mset (map fst (fst (acq who k d c s))) = add_mset c (waits s)"
    and acq_ok: "inv H s \<Longrightarrow> ev_ok (fst (acq who k d c s))"
    and rel_inv: "inv H s \<Longrightarrow> p \<in># H \<Longrightarrow> inv (H - {#p#} + ev_permits (fst (rel p s))) (snd (rel p s))"
    and rel_waits: "inv H s \<Longrightarrow> p \<in># H \<Longrightarrow> waits (snd (rel p s)) + mset (map fst (fst (rel p s))) = waits s"
    and rel_ok: "inv H s \<Longrightarrow> p \<in># H \<Longrightarrow> ev_ok (fst (rel p s))"
begin

text \<open>A client that releases permits one after the other, keeping those of its admissions.\<close>

lemma rel_all:
  "inv (mset ps + H) s \<Longrightarrow> release_all rel ps s = (evs, s') \<Longrightarrow>
   inv (H + ev_permits evs) s' \<and> waits s' + mset (map fst evs) = waits s \<and> ev_ok evs"
proof (induction ps arbitrary: H s evs)
  case (Cons p ps)
  obtain e s1 where r: "rel p s = (e, s1)" by (cases "rel p s")
  obtain e' where r': "release_all rel ps s1 = (e', s')" and evs: "evs = e @ e'"
    using Cons.prems(2) r by (auto simp: Let_def split: prod.splits)
  have p: "p \<in># mset (p # ps) + H" by simp
  have "inv (mset ps + (H + ev_permits e)) s1"
    using rel_inv [OF Cons.prems(1) p] r by (simp add: ac_simps)
  from Cons.IH [OF this r']
  have ih: "inv (H + ev_permits e + ev_permits e') s'" "waits s' + mset (map fst e') = waits s1" "ev_ok e'"
    by simp_all
  have "waits s' + mset (map fst evs) = waits s1 + mset (map fst e)"
    unfolding evs ih(2) [symmetric] by simp
  also have "\<dots> = waits s" using r rel_waits [OF Cons.prems(1) p] by simp
  finally show ?case
    using ih evs r rel_ok [OF Cons.prems(1) p] by (simp add: add.assoc)
qed simp

end

interpretation lg: governor_iface gov_inv waiting acquire "\<lambda>p. releaseSlot (pm_key p) (pm_agentId p)"
  by unfold_locales (use acquire_result releaseSlot_result in \<open>fastforce simp: gov_result_def\<close>)+

section \<open>Limits\<close>

text \<open>The largest limit a tool can have: whether its own limit is active depends on the
  listings received so far.\<close>

definition toolCap :: "YamlConfig \<Rightarrow> string \<Rightarrow> int" where
  "toolCap cfg ts =
     (case um_find (cf_governorTools cfg) ts of
        None \<Rightarrow> cf_perToolConcurrency cfg
      | Some g \<Rightarrow> max (gt_maxConcurrency g) (cf_perToolConcurrency cfg))"

definition gov_limits :: "YamlConfig \<Rightarrow> Permit multiset \<Rightarrow> bool" where
  "gov_limits cfg H \<longleftrightarrow>
     (\<forall>ts. held_tool H ts \<le> max 0 (toolCap cfg ts)) \<and>
     (\<forall>a. held_agent H a \<le> max 0 (cf_perPrincipalConcurrency cfg))"

lemma toolLimit_le_cap: "toolLimit cfg ts \<le> toolCap cfg ts"
  by (auto simp: toolLimit_def toolCap_def split: option.splits)

lemma gov_limits_issue:
  assumes "gov_limits (gv_cfg s) H" "slots_ok H s" "canTake s (ToolKey_str key) agent"
  shows "gov_limits (gv_cfg s) (add_mset \<lparr>pm_key = key, pm_agentId = agent\<rparr> H)"
  using assms toolLimit_le_cap [of "gv_cfg s" "ToolKey_str key"]
  by (auto simp: gov_limits_def slots_ok_def canTake_def le_max_iff_disj)

lemma held_mono: "held_tool (H - {#p#}) ts \<le> held_tool H ts" "held_agent (H - {#p#}) a \<le> held_agent H a"
  unfolding held_tool_def held_agent_def
  by (simp_all add: size_mset_mono multiset_filter_mono)

lemma gov_limits_release: "gov_limits cfg H \<Longrightarrow> gov_limits cfg (H - {#p#})"
  using held_mono [of H p] unfolding gov_limits_def by (meson order_trans)

lemma tryDequeue_loop_limits:
  "gov_inv H s \<Longrightarrow> queue_of s ts = q \<Longrightarrow> gov_limits (gv_cfg s) H \<Longrightarrow>
   gov_limits (gv_cfg s) (H + ev_permits (fst (tryDequeue_loop ts q s))) \<and>
   gv_cfg (snd (tryDequeue_loop ts q s)) = gv_cfg s"
proof (induction q arbitrary: s)
  case (Cons w q)
  let ?s1 = "snd (nowMs (dropWaiter ts w q s))"
  have inv1: "gov_inv H ?s1" using Cons.prems by (simp add: gov_inv_nowMs gov_inv_dropWaiter)
  have q1: "queue_of ?s1 ts = q" and cfg1: "gv_cfg ?s1 = gv_cfg s" by (simp_all add: pf_frames)
  have k: "ToolKey_str (wt_key w) = ts"
    using Cons.prems by (auto simp: gov_inv_def queues_ok_def waiter_ok_def)
  have "gov_limits (gv_cfg s) (add_mset \<lparr>pm_key = wt_key w, pm_agentId = p_agentId (wt_who w)\<rparr> H)"
    if "canTake s ts (p_agentId (wt_who w))"
    using gov_limits_issue [of s H "wt_key w"] Cons.prems k that by (simp add: gov_inv_def)
  then show ?case
    using Cons.IH [OF inv1 q1] Cons.prems(3) cfg1
    by (auto simp: split_beta Let_def issue_def take_slot_def)
qed simp

lemma releaseSlot_limits:
  assumes "gov_inv H s" "p \<in># H" "gov_limits (gv_cfg s) H" "releaseSlot (pm_key p) (pm_agentId p) s = (evs, s')"
  shows "gov_limits (gv_cfg s') (H - {#p#} + ev_permits evs) \<and> gv_cfg s' = gv_cfg s"
proof -
  let ?ts = "ToolKey_str (pm_key p)"
  let ?s1 = "s\<lparr>gv_toolInUse := decr_use ?ts (gv_toolInUse s),
        gv_principalInUse := decr_use (pm_agentId p) (gv_principalInUse s),
        env_counters := (env_counters s)\<lparr>cn_permitHeld := cn_permitHeld (env_counters s) - 1\<rparr>\<rparr>"
  let ?s2 = "?s1\<lparr>gv_queues := um_set ?ts (queue_of s ?ts) (gv_queues s)\<rparr>"
  have "queues_ok ?s2"
    using assms(1) queues_ok_set [of ?s1 "queue_of s ?ts" ?ts] queues_ok_cong [of ?s1 s]
    by (simp add: gov_inv_def queues_ok_def)
  then have "gov_inv (H - {#p#}) ?s2"
    using slots_ok_decr [of H s p] assms slots_ok_cong [of ?s2 ?s1 "H - {#p#}"] by (simp add: gov_inv_def)
  then show ?thesis
    using tryDequeue_loop_limits [of "H - {#p#}" ?s2 ?ts "queue_of s ?ts"]
      gov_limits_release [OF assms(3), of p] assms(4)
    by (auto simp: releaseSlot_def tryDequeue_def Let_def)
qed

lemma acquire_limits:
  assumes "gov_inv H s" "gov_limits (gv_cfg s) H" "acquire who key d c s = (evs, s')"
  shows "gov_limits (gv_cfg s') (H + ev_permits evs) \<and> gv_cfg s' = gv_cfg s"
proof (cases "canTake s (ToolKey_str key) (p_agentId who)")
  case True
  then show ?thesis
    using assms gov_limits_issue [of s H key "p_agentId who"]
    by (auto simp: acquire_def Let_def issue_def take_slot_def gov_inv_def)
next
  case False
  then have "ev_permits evs = {#}" "gv_cfg s' = gv_cfg s"
    using assms(3) by (auto simp: acquire_def Let_def split_beta nowMs_def env_runAfter_def split: if_splits)
  then show ?thesis using assms(2) by simp
qed

lemma toolCap_listed: "toolCap (gv_cfg (onToolsListed b ts s)) t = toolCap (gv_cfg s) t"
proof -
  have "um_find (map (\<lambda>(k, g). (k, f k g)) m) t = map_option (f t) (um_find m t)"
    for f :: "string \<Rightarrow> GovernorToolCfg \<Rightarrow> GovernorToolCfg" and m
    by (induction m) auto
  then show ?thesis
    by (auto simp: toolCap_def onToolsListed_def split: option.splits)
qed

section \<open>Reachable states\<close>

text \<open>\<open>gov_reach s0 H R A s\<close>: from \<open>s0\<close> the governor came to \<open>s\<close>, where \<open>H\<close> are the permits
  its callers hold, \<open>R\<close> the continuations handed to \<open>acquire\<close> so far and \<open>A\<close> those called.
  A caller releases only a permit it holds; an expired timer is dispatched as in the event
  loop.\<close>

inductive gov_reach ::
  "('p, 'c) GovSt \<Rightarrow> Permit multiset \<Rightarrow> 'c multiset \<Rightarrow> 'c multiset \<Rightarrow> ('p, 'c) GovSt \<Rightarrow> bool"
  for s0 where
  reach_init: "gov_reach s0 {#} {#} {#} s0"
| reach_acquire:
    "gov_reach s0 H R A s \<Longrightarrow> acquire who key d c s = (evs, s') \<Longrightarrow>
     gov_reach s0 (H + ev_permits evs) (add_mset c R) (A + mset (map fst evs)) s'"
| reach_release:
    "gov_reach s0 H R A s \<Longrightarrow> p \<in># H \<Longrightarrow> releaseSlot (pm_key p) (pm_agentId p) s = (evs, s') \<Longrightarrow>
     gov_reach s0 (H - {#p#} + ev_permits evs) R (A + mset (map fst evs)) s'"
| reach_timeout:
    "gov_reach s0 H R A s \<Longrightarrow> timerBegin t (env_loop s) = ((b, Some (TQueueTimeout ts i)), el) \<Longrightarrow>
     onQueueTimeout ts i (s\<lparr>env_loop := el\<rparr>) = (evs, s') \<Longrightarrow>
     gov_reach s0 H R (A + mset (map fst evs)) s'"
| reach_listed:
    "gov_reach s0 H R A s \<Longrightarrow> gov_reach s0 H R A (onToolsListed backend tools s)"
| reach_drain:
    "gov_reach s0 H R A s \<Longrightarrow> rejectAllQueued s = (evs, s') \<Longrightarrow>
     gov_reach s0 H R (A + mset (map fst evs)) s'"

definition gov_init :: "('p, 'c, 'z) GovSt_scheme \<Rightarrow> bool" where
  "gov_init s \<longleftrightarrow>
     gv_toolInUse s = [] \<and> gv_principalInUse s = [] \<and> gv_queues s = [] \<and>
     el_wf (env_loop s) \<and> cn_permitHeld (env_counters s) = 0"

lemma gov_inv_init: "gov_init s \<Longrightarrow> gov_inv {#} s"
  by (simp add: gov_init_def gov_inv_def slots_ok_def queues_ok_def permitHeld_def)

lemma gov_limits_cong:
  "(\<And>ts. toolCap cfg' ts = toolCap cfg ts) \<Longrightarrow>
   cf_perPrincipalConcurrency cfg' = cf_perPrincipalConcurrency cfg \<Longrightarrow> gov_limits cfg' H = gov_limits cfg H"
  by (simp add: gov_limits_def)

lemma drain_cfg: "gv_cfg (snd (drainQueue ts q s)) = gv_cfg s" "gv_cfg (snd (drainQueues m s)) = gv_cfg s"
proof -
  show one: "gv_cfg (snd (drainQueue ts q s)) = gv_cfg s" for ts q and s :: "('a, 'b, 'c) GovSt_scheme"
    by (induction q arbitrary: s) (simp_all add: split_beta Let_def pf_frames)
  show "gv_cfg (snd (drainQueues m s)) = gv_cfg s"
    by (induction m arbitrary: s) (auto simp: split_beta Let_def one)
qed

text \<open>The invariant of all reachable states.\<close>

lemma gov_reach_inv:
  assumes "gov_reach s0 H R A s" "gov_init s0"
  shows "gov_inv H s \<and> R = A + waiting s \<and> gov_limits (gv_cfg s) H"
  using assms(1)
proof (induction rule: gov_reach.induct)
  case reach_init
  then show ?case
    using assms(2) by (simp add: gov_inv_init waiting_def gov_limits_def gov_init_def)
next
  case (reach_acquire H R A s who key d c evs s')
  have inv: "gov_inv H s" using reach_acquire.IH by simp
  have "waiting s' + mset (map fst evs) = add_mset c (waiting s)" "gov_inv (H + ev_permits evs) s'"
    using acquire_result [OF inv, of c who key d] reach_acquire.hyps(2) by (simp_all add: gov_result_def)
  moreover have "gov_limits (gv_cfg s') (H + ev_permits evs)"
    using acquire_limits [OF inv _ reach_acquire.hyps(2)] reach_acquire.IH by blast
  ultimately show ?case using reach_acquire.IH by (simp add: ac_simps)
next
  case (reach_release H R A s p evs s')
  have inv: "gov_inv H s" using reach_release.IH by simp
  have "waiting s' + mset (map fst evs) = waiting s" "gov_inv (H - {#p#} + ev_permits evs) s'"
    using releaseSlot_result [OF inv reach_release.hyps(2)] reach_release.hyps(3)
    by (simp_all add: gov_result_def)
  moreover have "gov_limits (gv_cfg s') (H - {#p#} + ev_permits evs)"
    using releaseSlot_limits [OF inv reach_release.hyps(2) _ reach_release.hyps(3)] reach_release.IH
    by blast
  ultimately show ?case using reach_release.IH by (simp add: ac_simps)
next
  case (reach_timeout H R A s t b ts i el evs s')
  have r: "gov_result H (waiting s) (evs, s')"
    using onQueueTimeout_result [of H s t b ts i el] reach_timeout by simp
  moreover have "gv_cfg s' = gv_cfg s" "ev_permits evs = {#}"
    using reach_timeout.hyps(3) by (auto simp: onQueueTimeout_def Let_def split: option.splits)
  ultimately show ?case using reach_timeout.IH by (simp add: gov_result_def ac_simps)
next
  case (reach_listed H R A s backend tools)
  have "waiting (onToolsListed backend tools s) = waiting s" by (simp add: waiting_def onToolsListed_def)
  moreover have "gov_limits (gv_cfg (onToolsListed backend tools s)) H = gov_limits (gv_cfg s) H"
    by (rule gov_limits_cong [OF toolCap_listed]) (simp add: onToolsListed_def)
  ultimately show ?case using reach_listed.IH by (simp add: gov_inv_onToolsListed)
next
  case (reach_drain H R A s evs s')
  have "gov_result H (waiting s) (evs, s')" "ev_permits evs = {#}"
    using rejectAllQueued_result [of H s] reach_drain by simp_all
  moreover have "gv_cfg s' = gv_cfg s"
    using reach_drain.hyps(2) drain_cfg(2) [of "gv_queues s" s] by (simp add: rejectAllQueued_def)
  ultimately show ?case using reach_drain.IH by (simp add: gov_result_def ac_simps)
qed

section \<open>A state for the witnesses\<close>

definition gov_sample :: "(nat, nat) GovSt" where
  "gov_sample =
     \<lparr>env_tick = (\<lambda>n. 1000), env_steady = (\<lambda>n. 0), env_clk = 0, env_delayNs = (\<lambda>ms. uint ms * 1000000),
      env_draws = (\<lambda>n. []), env_fallback = (\<lambda>n i. 0), env_rnd = 0,
      env_loop = EventLoop_init\<lparr>el_looping := True\<rparr>, env_counters = Counters_init,
      gv_cfg = YamlConfig_default\<lparr>cf_perToolConcurrency := 1, cf_perPrincipalConcurrency := 1, cf_governorTools := []\<rparr>,
      gv_toolInUse = [], gv_principalInUse = [], gv_queues = [], gv_nextWaitId = 1\<rparr>"

definition agent_sample :: "string \<Rightarrow> Principal" where
  "agent_sample a = \<lparr>p_agentId = a, p_level = 1, p_grantBump = 0, p_hasLevel = True, p_admin = False, p_levelName = ''x''\<rparr>"

definition key_sample :: "string \<Rightarrow> ToolKey" where
  "key_sample t = \<lparr>tk_backend = ''b'', tk_tool = t\<rparr>"

text \<open>Agent \<open>a\<close> holds the only slot of its first tool and waits for a second tool.\<close>

definition gov_sample_go :: "(nat, nat) GovSt" where
  "gov_sample_go = snd (acquire (agent_sample ''a'') (key_sample ''t'') 2000 7 gov_sample)"

definition gov_sample_wait :: "(nat, nat) GovSt" where
  "gov_sample_wait = snd (acquire (agent_sample ''a'') (key_sample ''u'') 2000 8 gov_sample_go)"

lemmas gov_sample_defs = gov_sample_def agent_sample_def key_sample_def gov_sample_go_def gov_sample_wait_def
  YamlConfig_default_def EventLoop_init_def Counters_init_def canTake_def toolLimit_def take_slot_def issue_def
  ToolKey_str_def nowMs_def env_runAfter_def runAfter_def runTimer_def insertTimer_def um_at_def

lemma gov_sample_init: "gov_init gov_sample"
  by (simp add: gov_init_def gov_sample_defs el_wf_def)

lemma gov_sample_go_eq:
  "acquire (agent_sample ''a'') (key_sample ''t'') 2000 7 gov_sample =
     ([(7, Go, Some \<lparr>pm_key = key_sample ''t'', pm_agentId = ''a''\<rparr>)], gov_sample_go)"
  by (simp add: gov_sample_go_def acquire_def Let_def gov_sample_defs)

lemma gov_sample_wait_eq:
  "acquire (agent_sample ''a'') (key_sample ''u'') 2000 8 gov_sample_go = ([], gov_sample_wait)"
  by (simp add: gov_sample_wait_def acquire_def Let_def gov_sample_defs)

lemma gov_sample_reach:
  "gov_reach gov_sample {#\<lparr>pm_key = key_sample ''t'', pm_agentId = ''a''\<rparr>#} {#8, 7#} {#7#} gov_sample_wait"
  using reach_acquire [OF reach_acquire [OF reach_init gov_sample_go_eq] gov_sample_wait_eq] by simp

section \<open>Properties\<close>

text \<open>C14: in every reachable state the counters per tool and per agent, the number reported by
  \<open>permitHeld()\<close> and the exported counter are exactly the permits the callers hold: no permit
  leaks and none is returned twice.\<close>

theorem governor_accounting:
  assumes "gov_init s0" "gov_reach s0 H R A s"
  shows "um_at 0 (gv_toolInUse s) ts = held_tool H ts \<and>
         um_at 0 (gv_principalInUse s) a = held_agent H a \<and>
         permitHeld s = int (size H) \<and> cn_permitHeld (env_counters s) = int (size H)"
  using gov_reach_inv [OF assms(2,1)] by (simp add: gov_inv_def slots_ok_def)

theorem governor_accounting_witness:
  "um_at 0 (gv_toolInUse gov_sample_wait) ''b__t'' = held_tool {#\<lparr>pm_key = key_sample ''t'', pm_agentId = ''a''\<rparr>#} ''b__t'' \<and>
   permitHeld gov_sample_wait = 1"
  using governor_accounting [OF gov_sample_init gov_sample_reach] by simp



text \<open>every continuation handed to \<open>acquire\<close> has been called exactly once or is still in a
  queue: none is lost, none is called twice.\<close>

theorem governor_answers_once:
  assumes "gov_init s0" "gov_reach s0 H R A s"
  shows "R = A + waiting s"
  using gov_reach_inv [OF assms(2,1)] by simp

theorem governor_answers_once_witness: "{#8, 7#} = {#7#} + waiting gov_sample_wait"
  using governor_answers_once [OF gov_sample_init gov_sample_reach] .

text \<open>a waiter cannot wait for ever: in a reachable state its time-out is armed, and when that
  timer expires the waiter, and nobody else, is rejected.\<close>

theorem governor_waiter_times_out:
  assumes "gov_init s0" "gov_reach s0 H R A s" "w \<in> set (queue_of s ts)" "tm_id t = wt_timer w"
  shows "\<exists>el. timerBegin t (env_loop s) = ((True, Some (TQueueTimeout ts (wt_id w))), el) \<and>
              fst (onQueueTimeout ts (wt_id w) (s\<lparr>env_loop := el\<rparr>)) = [(wt_cb w, Reject, None)]"
proof -
  have ok: "queues_ok s" using gov_reach_inv [OF assms(2,1)] by (simp add: gov_inv_def)
  then have w: "timerCb s (wt_timer w) = Some (TQueueTimeout ts (wt_id w))" and wf: "el_wf (env_loop s)"
    and d: "distinct (map wt_id (queue_of s ts))"
    using assms(3) by (auto simp: queues_ok_def waiter_ok_def)
  have "wt_timer w \<notin> set (el_canceled (env_loop s))" using el_wf_cb [OF wf w] by simp
  moreover have "takeWaiter (wt_id w) (queue_of s ts) \<noteq> None"
    using assms(3) by (auto simp: takeWaiter_None)
  then obtain v q where v: "takeWaiter (wt_id w) (queue_of s ts) = Some (v, q)" by auto
  then have "v = w"
    using takeWaiter_Some [OF v] assms(3) d by (meson distinct_map inj_onD)
  ultimately show ?thesis
    using w v assms(4) by (simp add: timerBegin_def onQueueTimeout_def Let_def)
qed

theorem governor_waiter_times_out_witness:
  "\<exists>w el. w \<in> set (queue_of gov_sample_wait ''b__u'') \<and>
     timerBegin \<lparr>tm_when = 0, tm_interval = 0, tm_id = 1\<rparr> (env_loop gov_sample_wait) =
       ((True, Some (TQueueTimeout ''b__u'' (wt_id w))), el)"
proof -
  have "\<exists>w. w \<in> set (queue_of gov_sample_wait ''b__u'') \<and> wt_timer w = 1"
    by (simp add: acquire_def gov_sample_defs Let_def)
  then obtain w where "w \<in> set (queue_of gov_sample_wait ''b__u'')" "wt_timer w = 1" by blast
  then show ?thesis
    using governor_waiter_times_out [OF gov_sample_init gov_sample_reach, of w "''b__u''" "\<lparr>tm_when = 0, tm_interval = 0, tm_id = 1\<rparr>"]
    by auto
qed

lemma tryDequeue_loop_fifo:
  "queue_of s ts = q \<Longrightarrow> \<exists>served. q = served @ queue_of (snd (tryDequeue_loop ts q s)) ts \<and>
     map fst (fst (tryDequeue_loop ts q s)) = map wt_cb served \<and>
     list_all (\<lambda>e. fst (snd e) = Reject) (butlast (fst (tryDequeue_loop ts q s)))"
proof (induction q arbitrary: s)
  case (Cons w q)
  let ?s1 = "snd (nowMs (dropWaiter ts w q s))"
  have "queue_of ?s1 ts = q" by (simp add: pf_frames)
  from Cons.IH [OF this] obtain served where ih:
    "q = served @ queue_of (snd (tryDequeue_loop ts q ?s1)) ts"
    "map fst (fst (tryDequeue_loop ts q ?s1)) = map wt_cb served"
    "list_all (\<lambda>e. fst (snd e) = Reject) (butlast (fst (tryDequeue_loop ts q ?s1)))" by blast
  consider (full) "\<not> canTake s ts (p_agentId (wt_who w))"
    | (late) "canTake s ts (p_agentId (wt_who w))" "wt_deadlineMs w \<le> fst (nowMs (dropWaiter ts w q s))"
    | (go) "canTake s ts (p_agentId (wt_who w))" "\<not> wt_deadlineMs w \<le> fst (nowMs (dropWaiter ts w q s))"
    by blast
  then show ?case
  proof cases
    case full
    then show ?thesis using Cons.prems by simp
  next
    case late
    then show ?thesis
      using ih by (intro exI [of _ "w # served"]) (simp add: split_beta Let_def)
  next
    case go
    then show ?thesis
      by (intro exI [of _ "[w]"]) (simp add: split_beta Let_def issue_def take_slot_def pf_frames)
  qed
qed simp

text \<open>a released slot serves its tool's queue in FIFO order: the waiters called are a prefix of
  the queue, all of them but the last one are rejected (their deadline has passed), so at
  most one is admitted.\<close>

theorem governor_fifo:
  "\<exists>served. queue_of s ts = served @ queue_of (snd (tryDequeue ts s)) ts \<and>
     map fst (fst (tryDequeue ts s)) = map wt_cb served \<and>
     list_all (\<lambda>e. fst (snd e) = Reject) (butlast (fst (tryDequeue ts s)))"
  using tryDequeue_loop_fifo [where s = "s\<lparr>gv_queues := um_set ts (queue_of s ts) (gv_queues s)\<rparr>"
      and q = "queue_of s ts" and ts = ts]
  by (simp add: tryDequeue_def Let_def)

text \<open>shutting down rejects every waiter: afterwards no queue holds a continuation, the
  continuations called are exactly those that waited, and no permit was given out.\<close>

theorem rejectAllQueued_empties:
  assumes "gov_init s0" "gov_reach s0 H R A s"
  shows "waiting (snd (rejectAllQueued s)) = {#} \<and>
         mset (map fst (fst (rejectAllQueued s))) = waiting s \<and>
         ev_permits (fst (rejectAllQueued s)) = {#}"
proof -
  have inv: "gov_inv H s" using gov_reach_inv [OF assms(2,1)] by simp
  note r = rejectAllQueued_result [OF inv]
  have "um_wf (gv_queues (snd (rejectAllQueued s)))"
    using r(1) by (simp add: gov_result_def gov_inv_def queues_ok_def)
  then have "waiting (snd (rejectAllQueued s)) = {#}"
    using r(3) by (simp add: waiting_empty_iff)
  then show ?thesis using r by (simp add: gov_result_def)
qed

theorem rejectAllQueued_empties_witness: "waiting (snd (rejectAllQueued gov_sample_wait)) = {#}"
  using rejectAllQueued_empties [OF gov_sample_init gov_sample_reach] by simp

lemma tryDequeue_loop_other:
  "ts' \<noteq> ts \<Longrightarrow> queue_of (snd (tryDequeue_loop ts q s)) ts' = queue_of s ts'"
  by (induction q arbitrary: s) (auto simp: split_beta Let_def issue_def take_slot_def pf_frames)

text \<open>returning a permit looks at the queue of its own tool only: a waiter of another tool
  that was blocked by the limit of its agent stays queued although it could be admitted now
  (it is served by a later release on its tool, or times out).\<close>

theorem release_skips_other_queues:
  assumes "w \<in> set (queue_of s ts)" "ts \<noteq> ToolKey_str key"
  shows "w \<in> set (queue_of (snd (releaseSlot key a s)) ts)"
  using assms by (simp add: releaseSlot_def tryDequeue_def Let_def tryDequeue_loop_other)

theorem release_skips_other_queues_witness:
  "\<exists>w. w \<in> set (queue_of (snd (releaseSlot (key_sample ''t'') ''a'' gov_sample_wait)) ''b__u'') \<and>
     p_agentId (wt_who w) = ''a'' \<and>
     canTake (snd (releaseSlot (key_sample ''t'') ''a'' gov_sample_wait)) ''b__u'' ''a''"
proof -
  have "\<exists>w. w \<in> set (queue_of gov_sample_wait ''b__u'') \<and> p_agentId (wt_who w) = ''a''"
    by (simp add: acquire_def gov_sample_defs Let_def)
  then obtain w where "w \<in> set (queue_of gov_sample_wait ''b__u'')" "p_agentId (wt_who w) = ''a''" by blast
  moreover have "canTake (snd (releaseSlot (key_sample ''t'') ''a'' gov_sample_wait)) ''b__u'' ''a''"
    by (simp add: releaseSlot_def tryDequeue_def decr_use_def acquire_def gov_sample_defs Let_def)
  ultimately show ?thesis
    using release_skips_other_queues [of w gov_sample_wait "''b__u''" "key_sample ''t''" "''a''"]
    by (auto simp: key_sample_def ToolKey_str_def)
qed

end
