(* ===== verification/Grants.thy ===== *)
theory Grants
  imports Env Config
begin

text \<open>
  Temporary elevations (\<^verbatim>\<open>src/policy/JsonlGrantStore.cpp\<close>): an append-only file of JSON
  lines and a snapshot of it in memory. The file is part of the state (its lines and its
  modification time, or its absence); an append is a job that the worker pool runs later, or
  that runs at once when the pool refuses it. Lemmas: the bump of an agent is the largest
  rank among its approved, unexpired grants; approval gives it for exactly the time to live;
  the file is read back as it was written.
\<close>

section \<open>Data\<close>

record GrantRecord =
  gr_id :: string
  gr_agent :: string
  gr_bumpTo :: string
  gr_rank :: rank
  gr_status :: string
  gr_expiresAt :: u64
  gr_tsMs :: u64

type_synonym GrantTable = "(string, GrantRecord) umap"

text \<open>The store, the file behind it, and the append jobs the worker pool still has to run.\<close>

record JsonlGrantStore =
  gs_ttlMs :: u64
  gs_table :: GrantTable
  gs_lastMtimeNs :: int
  gs_dirty :: bool
  gs_expireEmitted :: "(string, bool) umap"
  gs_file :: "(string list \<times> int) option"
  gs_jobs :: "string list"

definition JsonlGrantStore_make :: "u64 \<Rightarrow> (string list \<times> int) option \<Rightarrow> JsonlGrantStore" where
  "JsonlGrantStore_make ttlMs file =
     \<lparr>gs_ttlMs = ttlMs, gs_table = [], gs_lastMtimeNs = -1, gs_dirty = False, gs_expireEmitted = [],
      gs_file = file, gs_jobs = []\<rparr>"

section \<open>Reading the file\<close>

text \<open>The fields of a line; a field of the wrong type throws.\<close>

definition parseRecord :: "'j json_api \<Rightarrow> 'j \<Rightarrow> exn + GrantRecord" where
  "parseRecord J j =
    (case j_value_str J j ''id'' [] of None \<Rightarrow> Inl TypeError | Some i \<Rightarrow>
     case j_value_str J j ''agent'' [] of None \<Rightarrow> Inl TypeError | Some a \<Rightarrow>
     case j_value_str J j ''bump_to'' [] of None \<Rightarrow> Inl TypeError | Some b \<Rightarrow>
     case j_value_int J j ''rank'' 0 of None \<Rightarrow> Inl TypeError | Some r \<Rightarrow>
     case j_value_str J j ''status'' [] of None \<Rightarrow> Inl TypeError | Some st \<Rightarrow>
     case j_value_u64 J j ''expiresAt'' 0 of None \<Rightarrow> Inl TypeError | Some e \<Rightarrow>
     case j_value_u64 J j ''ts_ms'' 0 of None \<Rightarrow> Inl TypeError | Some t \<Rightarrow>
       Inr \<lparr>gr_id = i, gr_agent = a, gr_bumpTo = b, gr_rank = of_int r, gr_status = st,
            gr_expiresAt = e, gr_tsMs = t\<rparr>)"

fun parseLines :: "'j json_api \<Rightarrow> string list \<Rightarrow> GrantTable \<Rightarrow> exn + GrantTable" where
  "parseLines J [] tbl = Inr tbl"
| "parseLines J (line # ls) tbl =
    (if line = [] then parseLines J ls tbl
     else case j_parse J line of
            None \<Rightarrow> parseLines J ls tbl
          | Some j \<Rightarrow>
              if \<not> j_is_object J j then parseLines J ls tbl
              else case parseRecord J j of
                     Inl e \<Rightarrow> Inl e
                   | Inr r \<Rightarrow> parseLines J ls (if gr_id r = [] then tbl else um_set (gr_id r) r tbl))"

definition parseFile :: "'j json_api \<Rightarrow> JsonlGrantStore \<Rightarrow> exn + GrantTable" where
  "parseFile J s = parseLines J (case gs_file s of None \<Rightarrow> [] | Some (ls, _) \<Rightarrow> ls) []"

text \<open>The grants that have expired and were not reported before; \<open>now\<close> is the clock.\<close>

definition grant_expired :: "u64 \<Rightarrow> GrantRecord \<Rightarrow> bool" where
  "grant_expired now g \<longleftrightarrow> gr_status g = ''approved'' \<and> gr_expiresAt g > 0 \<and> now \<ge> gr_expiresAt g"

fun collectExpired ::
  "u64 \<Rightarrow> GrantTable \<Rightarrow> (string, bool) umap \<Rightarrow> GrantRecord list \<times> (string, bool) umap" where
  "collectExpired now [] em = ([], em)"
| "collectExpired now ((k, g) # tbl) em =
    (if grant_expired now g then
       (if \<not> um_at False em (gr_id g) then
          (let (gs, em') = collectExpired now tbl (um_set (gr_id g) True em) in (g # gs, em'))
        else collectExpired now tbl em)
     else collectExpired now tbl em)"

text \<open>\<open>refreshOnWorker\<close>: the result is the list of grants to report, and the store. An
  exception leaves the store as it was.\<close>

definition refreshOnWorker ::
  "'j json_api \<Rightarrow> u64 \<Rightarrow> JsonlGrantStore \<Rightarrow> exn + (GrantRecord list \<times> JsonlGrantStore)" where
  "refreshOnWorker J now s =
    (case gs_file s of
       None \<Rightarrow>
         if gs_dirty s then Inr ([], s)
         else if gs_lastMtimeNs s \<noteq> 0 then Inr ([], s\<lparr>gs_lastMtimeNs := 0, gs_table := []\<rparr>)
         else Inr ([], s)
     | Some (_, mtime) \<Rightarrow>
         if gs_dirty s then Inr ([], s)
         else if mtime = gs_lastMtimeNs s then Inr ([], s)
         else case parseFile J s of
                Inl e \<Rightarrow> Inl e
              | Inr nxt \<Rightarrow>
                  (let (expired, em) = collectExpired now nxt (gs_expireEmitted s)
                   in Inr (expired, s\<lparr>gs_lastMtimeNs := mtime, gs_table := nxt, gs_expireEmitted := em\<rparr>)))"

section \<open>Reading the snapshot\<close>

definition grant_live :: "string \<Rightarrow> u64 \<Rightarrow> GrantRecord \<Rightarrow> bool" where
  "grant_live agentId now g \<longleftrightarrow> gr_agent g = agentId \<and> gr_status g = ''approved'' \<and> now < gr_expiresAt g"

definition effectiveBump :: "string \<Rightarrow> u64 \<Rightarrow> JsonlGrantStore \<Rightarrow> rank" where
  "effectiveBump agentId now s =
     fold (\<lambda>(k, g) bump. if \<not> grant_live agentId now g then bump
                          else if gr_rank g > bump then gr_rank g else bump) (gs_table s) 0"

definition shortestRemainingMs :: "string \<Rightarrow> u64 \<Rightarrow> JsonlGrantStore \<Rightarrow> u64" where
  "shortestRemainingMs agentId now s =
     fold (\<lambda>(k, g) best. if \<not> grant_live agentId now g then best
                          else if gr_expiresAt g - now < best then gr_expiresAt g - now else best)
       (gs_table s) (- 1)"

section \<open>Appending\<close>

definition grant_json :: "'j json_api \<Rightarrow> GrantRecord \<Rightarrow> 'j" where
  "grant_json J r =
     j_obj J [(''id'', j_str J (gr_id r)), (''agent'', j_str J (gr_agent r)), (''bump_to'', j_str J (gr_bumpTo r)),
              (''rank'', j_uint J (ucast (gr_rank r))), (''status'', j_str J (gr_status r)),
              (''expiresAt'', j_uint J (gr_expiresAt r)), (''ts_ms'', j_uint J (gr_tsMs r))]"

text \<open>The job: write the line, then clear the dirty flag. \<open>mtime\<close> is the new modification time.\<close>

definition runJob :: "int \<Rightarrow> string \<Rightarrow> JsonlGrantStore \<Rightarrow> JsonlGrantStore" where
  "runJob mtime line s =
     s\<lparr>gs_file := Some ((case gs_file s of None \<Rightarrow> [] | Some (ls, _) \<Rightarrow> ls) @ [line], mtime), gs_dirty := False\<rparr>"

text \<open>\<open>posted\<close>: whether the worker pool accepts the job.\<close>

definition appendLine :: "'j json_api \<Rightarrow> bool \<Rightarrow> int \<Rightarrow> GrantRecord \<Rightarrow> JsonlGrantStore \<Rightarrow> JsonlGrantStore" where
  "appendLine J posted mtime r s =
    (let s1 = s\<lparr>gs_table := um_set (gr_id r) r (gs_table s), gs_lastMtimeNs := -1, gs_dirty := True\<rparr>;
         line = j_dump J (grant_json J r)
     in if posted then s1\<lparr>gs_jobs := gs_jobs s1 @ [line]\<rparr> else runJob mtime line s1)"

text \<open>A worker takes the first job of the pool.\<close>

definition workerStep :: "int \<Rightarrow> JsonlGrantStore \<Rightarrow> JsonlGrantStore" where
  "workerStep mtime s =
     (case gs_jobs s of [] \<Rightarrow> s | line # ls \<Rightarrow> runJob mtime line (s\<lparr>gs_jobs := ls\<rparr>))"

text \<open>\<open>hex\<close> is the random part of the new identifier.\<close>

definition appendPending ::
  "'j json_api \<Rightarrow> bool \<Rightarrow> int \<Rightarrow> string \<Rightarrow> string \<Rightarrow> string \<Rightarrow> rank \<Rightarrow> u64 \<Rightarrow> JsonlGrantStore \<Rightarrow> string \<times> JsonlGrantStore" where
  "appendPending J posted mtime hex agent bumpTo rk now s =
    (let r = \<lparr>gr_id = ''g_'' @ hex, gr_agent = agent, gr_bumpTo = bumpTo, gr_rank = rk, gr_status = ''pending'',
              gr_expiresAt = 0, gr_tsMs = now\<rparr>
     in (gr_id r, appendLine J posted mtime r s))"

definition approveById ::
  "'j json_api \<Rightarrow> bool \<Rightarrow> int \<Rightarrow> u64 \<Rightarrow> string \<Rightarrow> u64 \<Rightarrow> u64 \<Rightarrow> JsonlGrantStore \<Rightarrow> exn + (bool \<times> JsonlGrantStore)" where
  "approveById J posted mtime clock i now ttlOverride s0 =
    (case refreshOnWorker J clock s0 of
       Inl e \<Rightarrow> Inl e
     | Inr (_, s) \<Rightarrow>
         (case um_find (gs_table s) i of
            None \<Rightarrow> Inr (False, s)
          | Some g \<Rightarrow>
              (let ttl = (if ttlOverride > 0 then ttlOverride else gs_ttlMs s);
                   r = g\<lparr>gr_status := ''approved'', gr_expiresAt := now + ttl, gr_tsMs := now\<rparr>
               in Inr (True, appendLine J posted mtime r s))))"

definition approveDirect ::
  "'j json_api \<Rightarrow> bool \<Rightarrow> int \<Rightarrow> string \<Rightarrow> string \<Rightarrow> rank \<Rightarrow> string \<Rightarrow> u64 \<Rightarrow> JsonlGrantStore \<Rightarrow> bool \<times> JsonlGrantStore" where
  "approveDirect J posted mtime hex agent rk bumpTo now s =
    (let r = \<lparr>gr_id = ''g_'' @ hex, gr_agent = agent, gr_bumpTo = bumpTo, gr_rank = rk, gr_status = ''approved'',
              gr_expiresAt = now + gs_ttlMs s, gr_tsMs = now\<rparr>
     in (True, appendLine J posted mtime r s))"

section \<open>The bump\<close>

lemma Max_insert_max: "finite R \<Longrightarrow> Max (insert (max b c) R) = Max (insert b (insert c R))" for b c :: rank
  by (cases "R = {}") (simp_all add: max.assoc)

lemma fold_bump:
  "fold (\<lambda>(k, g) bump. if \<not> P g then bump else if gr_rank g > bump then gr_rank g else bump) tbl b =
     Max (insert b (gr_rank ` {g \<in> snd ` set tbl. P g}))"
proof (induction tbl arbitrary: b)
  case (Cons x tbl)
  obtain k g where x: "x = (k, g)" by (cases x)
  let ?R = "gr_rank ` {g \<in> snd ` set tbl. P g}"
  have fin: "finite ?R" by simp
  show ?case
  proof (cases "P g")
    case True
    have "{h \<in> snd ` set (x # tbl). P h} = insert g {h \<in> snd ` set tbl. P h}" using x True by auto
    moreover have "(if gr_rank g > b then gr_rank g else b) = max b (gr_rank g)" by (auto simp: max_def)
    ultimately show ?thesis using True x Cons.IH Max_insert_max [OF fin, of b "gr_rank g"] by simp
  next
    case False
    have "{h \<in> snd ` set (x # tbl). P h} = {h \<in> snd ` set tbl. P h}" using x False by auto
    then show ?thesis using False x Cons.IH by simp
  qed
qed simp

text \<open>the bump of an agent is the largest rank among its own approved and unexpired grants, and
  zero if there is none: pending, denied, expired and other agents' grants never count.\<close>

theorem effectiveBump_max:
  "effectiveBump a now s =
     Max (insert 0 (gr_rank ` {g \<in> snd ` set (gs_table s). gr_agent g = a \<and> gr_status g = ''approved'' \<and> now < gr_expiresAt g}))"
  using fold_bump [of "grant_live a now" "gs_table s" 0] by (simp add: effectiveBump_def grant_live_def)

lemma live_bump:
  assumes "um_find (gs_table s) k = Some g" "grant_live a now g"
  shows "gr_rank g \<le> effectiveBump a now s"
proof -
  have "g \<in> {g \<in> snd ` set (gs_table s). grant_live a now g}"
    using assms map_of_SomeD [OF assms(1)] by force
  then show ?thesis
    using fold_bump [of "grant_live a now" "gs_table s" 0] by (simp add: effectiveBump_def)
qed

lemma appendLine_table: "gs_table (appendLine J posted mtime r s) = um_set (gr_id r) r (gs_table s)"
  by (simp add: appendLine_def runJob_def Let_def)

text \<open>an approved grant takes effect at once and exactly until its time to live is over: until
  then the bump of its agent is at least its rank, afterwards the grant no longer counts.\<close>

theorem approval_window:
  assumes "approveById J posted mtime clock i now ovr s0 = Inr (True, s')"
    and "refreshOnWorker J clock s0 = Inr (ex, s)" "um_find (gs_table s) i = Some g" "gr_id g = i"
    and "ttl = (if ovr > 0 then ovr else gs_ttlMs s)"
  shows "(t < now + ttl \<longrightarrow> gr_rank g \<le> effectiveBump (gr_agent g) t s') \<and>
         (\<exists>g'. um_find (gs_table s') i = Some g' \<and> (grant_live (gr_agent g) t g' \<longleftrightarrow> t < now + ttl))"
proof -
  let ?r = "g\<lparr>gr_status := ''approved'', gr_expiresAt := now + ttl, gr_tsMs := now\<rparr>"
  have s': "s' = appendLine J posted mtime ?r s"
    using assms by (simp add: approveById_def Let_def)
  then have f: "um_find (gs_table s') i = Some ?r"
    using assms(4) by (simp add: appendLine_table um_find_set)
  moreover have "grant_live (gr_agent g) t ?r \<longleftrightarrow> t < now + ttl" by (simp add: grant_live_def)
  ultimately show ?thesis using live_bump [OF f, of "gr_agent g" t] by auto
qed

definition grant_sample :: "string \<Rightarrow> GrantRecord" where
  "grant_sample i = \<lparr>gr_id = i, gr_agent = ''ann'', gr_bumpTo = ''ops'', gr_rank = 2, gr_status = ''pending'',
     gr_expiresAt = 0, gr_tsMs = 7\<rparr>"

definition grant_store_sample :: JsonlGrantStore where
  "grant_store_sample = (JsonlGrantStore_make 900000 None)\<lparr>gs_table := [(''g_1'', grant_sample ''g_1'')], gs_dirty := True\<rparr>"

theorem approval_window_witness:
  "\<exists>s'. approveById jv_api True 1 50 ''g_1'' 100 0 grant_store_sample = Inr (True, s') \<and>
        2 \<le> effectiveBump ''ann'' 200 s'"
proof -
  have r: "refreshOnWorker jv_api 50 grant_store_sample = Inr ([], grant_store_sample)"
    by (simp add: refreshOnWorker_def grant_store_sample_def JsonlGrantStore_make_def)
  have f: "um_find (gs_table grant_store_sample) ''g_1'' = Some (grant_sample ''g_1'')"
    by (simp add: grant_store_sample_def)
  then have "\<exists>s'. approveById jv_api True 1 50 ''g_1'' 100 0 grant_store_sample = Inr (True, s')"
    using r by (simp add: approveById_def Let_def)
  then obtain s' where a: "approveById jv_api True 1 50 ''g_1'' 100 0 grant_store_sample = Inr (True, s')" by blast
  have "gr_rank (grant_sample ''g_1'') \<le> effectiveBump (gr_agent (grant_sample ''g_1'')) 200 s'"
    using approval_window [OF a r f _ refl, of 200]
    by (simp add: grant_sample_def grant_store_sample_def JsonlGrantStore_make_def)
  then show ?thesis using a by (simp add: grant_sample_def)
qed

section \<open>The file\<close>

text \<open>What the code relies on in the JSON library, for one record: the text of an object parses to
  that object, and \<^verbatim>\<open>value\<close> reads the fields that were put in.\<close>

definition json_keeps :: "'j json_api \<Rightarrow> GrantRecord \<Rightarrow> bool" where
  "json_keeps J r \<longleftrightarrow>
     j_dump J (grant_json J r) \<noteq> [] \<and> j_parse J (j_dump J (grant_json J r)) = Some (grant_json J r) \<and>
     j_is_object J (grant_json J r) \<and>
     j_value_str J (grant_json J r) ''id'' [] = Some (gr_id r) \<and>
     j_value_str J (grant_json J r) ''agent'' [] = Some (gr_agent r) \<and>
     j_value_str J (grant_json J r) ''bump_to'' [] = Some (gr_bumpTo r) \<and>
     j_value_int J (grant_json J r) ''rank'' 0 = Some (uint (gr_rank r)) \<and>
     j_value_str J (grant_json J r) ''status'' [] = Some (gr_status r) \<and>
     j_value_u64 J (grant_json J r) ''expiresAt'' 0 = Some (gr_expiresAt r) \<and>
     j_value_u64 J (grant_json J r) ''ts_ms'' 0 = Some (gr_tsMs r)"

lemma parseRecord_json: "json_keeps J r \<Longrightarrow> parseRecord J (grant_json J r) = Inr r"
  by (simp add: json_keeps_def parseRecord_def)

lemma parseLines_append:
  "parseLines J (xs @ ys) tbl = (case parseLines J xs tbl of Inl e \<Rightarrow> Inl e | Inr t \<Rightarrow> parseLines J ys t)"
  by (induction xs arbitrary: tbl) (auto split: option.splits sum.splits)

lemma parseLines_written:
  "json_keeps J r \<Longrightarrow> gr_id r \<noteq> [] \<Longrightarrow> parseLines J [j_dump J (grant_json J r)] tbl = Inr (um_set (gr_id r) r tbl)"
  using parseRecord_json [of J r] by (simp add: json_keeps_def)

definition file_lines :: "JsonlGrantStore \<Rightarrow> string list" where
  "file_lines s = (case gs_file s of None \<Rightarrow> [] | Some (ls, _) \<Rightarrow> ls)"

lemma runJob_parse:
  assumes "parseFile J s = Inr tbl" "json_keeps J r" "gr_id r \<noteq> []"
  shows "parseFile J (runJob mtime (j_dump J (grant_json J r)) s) = Inr (um_set (gr_id r) r tbl)"
  using assms parseLines_written [OF assms(2,3)]
  by (auto simp: parseFile_def runJob_def parseLines_append split: option.splits)

lemma parseFile_cong: "gs_file s' = gs_file s \<Longrightarrow> parseFile J s' = parseFile J s"
  by (simp add: parseFile_def)

text \<open>what is appended is read back: when the snapshot agrees with the file, a grant is
  appended and the worker has written it, then the next refresh reads exactly the snapshot
  that the append had put in place.\<close>

theorem append_refresh_roundtrip:
  assumes "parseFile J s = Inr (gs_table s)" "gs_jobs s = []" "json_keeps J r" "gr_id r \<noteq> []" "mtime \<noteq> -1"
    and "s1 = appendLine J True m0 r s"
  shows "\<exists>ex s2. refreshOnWorker J now (workerStep mtime s1) = Inr (ex, s2) \<and> gs_table s2 = gs_table s1 \<and>
                 um_find (gs_table s2) (gr_id r) = Some r \<and> gs_lastMtimeNs s2 = mtime"
proof -
  let ?line = "j_dump J (grant_json J r)"
  let ?s0 = "s\<lparr>gs_table := um_set (gr_id r) r (gs_table s), gs_lastMtimeNs := -1, gs_dirty := True, gs_jobs := []\<rparr>"
  have w: "workerStep mtime s1 = runJob mtime ?line ?s0"
    using assms(2) by (simp add: assms(6) appendLine_def workerStep_def Let_def)
  have p: "parseFile J (runJob mtime ?line ?s0) = Inr (um_set (gr_id r) r (gs_table s))"
    using runJob_parse [OF _ assms(3,4), of ?s0 "gs_table s" mtime] assms(1) parseFile_cong [of ?s0 s J] by simp
  have f: "\<exists>ls. gs_file (runJob mtime ?line ?s0) = Some (ls, mtime)" "\<not> gs_dirty (runJob mtime ?line ?s0)"
    "gs_lastMtimeNs (runJob mtime ?line ?s0) = -1"
    by (simp_all add: runJob_def)
  then show ?thesis
    using p assms(5) unfolding w
    by (auto simp: refreshOnWorker_def assms(6) appendLine_table um_find_set split_beta Let_def)
qed

text \<open>A JSON parameter that knows how to read back the sample grants.\<close>

definition jv_grants :: "jv json_api" where
  "jv_grants = jv_api\<lparr>j_parse := (\<lambda>txt. find (\<lambda>v. jv_dump v = txt)
     [grant_json jv_api (grant_sample ''g_1''), grant_json jv_api (grant_sample ''g_2''), JObj [(''id'', JInt 5)]])\<rparr>"

lemma jv_grants_keeps: "json_keeps jv_grants (grant_sample ''g_1'')" "json_keeps jv_grants (grant_sample ''g_2'')"
  by (simp_all add: json_keeps_def jv_grants_def grant_json_def grant_sample_def jv_api_def jv_contains_def jv_at_def)

theorem append_refresh_roundtrip_witness:
  "\<exists>ex s2. refreshOnWorker jv_grants 9 (workerStep 5 (appendLine jv_grants True 0 (grant_sample ''g_1'') (JsonlGrantStore_make 900000 None)))
      = Inr (ex, s2) \<and> um_find (gs_table s2) ''g_1'' = Some (grant_sample ''g_1'')"
proof -
  have "parseFile jv_grants (JsonlGrantStore_make 900000 None) = Inr (gs_table (JsonlGrantStore_make 900000 None))"
    "gs_jobs (JsonlGrantStore_make 900000 None) = []"
    by (simp_all add: parseFile_def JsonlGrantStore_make_def)
  from append_refresh_roundtrip [OF this jv_grants_keeps(1) _ _ refl, where mtime = 5 and ?m0.0 = 0 and now = 9]
  show ?thesis by (auto simp: grant_sample_def)
qed

text \<open>the dirty flag is one bit for all pending writes. With two appends pending, the first
  write clears it although the second one is not in the file yet; a refresh then drops the
  second grant from the snapshot.\<close>

theorem refresh_drops_pending_append:
  assumes "parseFile J s = Inr (gs_table s)" "gs_jobs s = []" "json_keeps J r1" "gr_id r1 \<noteq> []" "mtime \<noteq> -1"
    and "gr_id r2 \<noteq> gr_id r1" "um_find (gs_table s) (gr_id r2) = None"
    and "s2 = appendLine J True m0 r2 (appendLine J True m0 r1 s)"
  shows "um_find (gs_table s2) (gr_id r2) = Some r2 \<and>
         (\<exists>ex s3. refreshOnWorker J now (workerStep mtime s2) = Inr (ex, s3) \<and> um_find (gs_table s3) (gr_id r2) = None)"
proof -
  let ?line = "j_dump J (grant_json J r1)"
  let ?s0 = "s2\<lparr>gs_jobs := [j_dump J (grant_json J r2)]\<rparr>"
  have w: "workerStep mtime s2 = runJob mtime ?line ?s0"
    using assms(2) by (simp add: assms(8) appendLine_def workerStep_def Let_def)
  have "gs_file ?s0 = gs_file s" by (simp add: assms(8) appendLine_def Let_def)
  then have p: "parseFile J (runJob mtime ?line ?s0) = Inr (um_set (gr_id r1) r1 (gs_table s))"
    using runJob_parse [OF _ assms(3,4), of ?s0 "gs_table s" mtime] assms(1) parseFile_cong [of ?s0 s J] by simp
  have f: "\<exists>ls. gs_file (runJob mtime ?line ?s0) = Some (ls, mtime)" "\<not> gs_dirty (runJob mtime ?line ?s0)"
    "gs_lastMtimeNs (runJob mtime ?line ?s0) = -1"
    by (simp_all add: runJob_def assms(8) appendLine_def Let_def)
  then have "\<exists>ex s3. refreshOnWorker J now (workerStep mtime s2) = Inr (ex, s3) \<and>
      gs_table s3 = um_set (gr_id r1) r1 (gs_table s)"
    using p assms(5) unfolding w by (auto simp: refreshOnWorker_def split_beta Let_def)
  then show ?thesis
    using assms(6,7) by (auto simp: assms(8) appendLine_table um_find_set)
qed

theorem refresh_drops_pending_append_witness:
  "\<exists>ex s3. refreshOnWorker jv_grants 9 (workerStep 5 (appendLine jv_grants True 0 (grant_sample ''g_2'')
       (appendLine jv_grants True 0 (grant_sample ''g_1'') (JsonlGrantStore_make 900000 None)))) = Inr (ex, s3) \<and>
     um_find (gs_table s3) ''g_2'' = None"
proof -
  have "parseFile jv_grants (JsonlGrantStore_make 900000 None) = Inr (gs_table (JsonlGrantStore_make 900000 None))"
    "gs_jobs (JsonlGrantStore_make 900000 None) = []"
    by (simp_all add: parseFile_def JsonlGrantStore_make_def)
  from refresh_drops_pending_append [OF this jv_grants_keeps(1) _ _ _ _ refl, of 5 "grant_sample ''g_2''" 0 9]
  show ?thesis by (simp add: grant_sample_def JsonlGrantStore_make_def)
qed

text \<open>one line with a field of the wrong type makes every refresh throw, so that the snapshot is
  never updated from the file again, whatever the other lines are.\<close>

theorem bad_line_blocks_refresh:
  assumes "gs_file s = Some (ls, mtime)" "line \<in> set ls" "line \<noteq> []" "j_parse J line = Some j"
    and "j_is_object J j" "j_value_str J j ''id'' [] = None" "\<not> gs_dirty s" "mtime \<noteq> gs_lastMtimeNs s"
  shows "refreshOnWorker J now s = Inl TypeError"
proof -
  have err: "parseRecord J x = Inl e \<Longrightarrow> e = TypeError" for x e
    by (auto simp: parseRecord_def split: option.splits)
  have "parseLines J ls tbl = Inl TypeError" for tbl
    using assms(2)
  proof (induction ls arbitrary: tbl)
    case (Cons l ls)
    show ?case
    proof (cases "l = line")
      case True
      then show ?thesis using assms(3-6) by (simp add: parseRecord_def)
    next
      case False
      then show ?thesis using Cons by (auto split: option.splits sum.splits dest: err)
    qed
  qed simp
  then show ?thesis using assms by (simp add: refreshOnWorker_def parseFile_def)
qed

theorem bad_line_blocks_refresh_witness:
  "refreshOnWorker jv_grants 9 (JsonlGrantStore_make 900000 (Some ([jv_dump (JObj [(''id'', JInt 5)])], 3))) = Inl TypeError"
  by (rule bad_line_blocks_refresh [where j = "JObj [(''id'', JInt 5)]" and ls = "[jv_dump (JObj [(''id'', JInt 5)])]" and mtime = 3
        and line = "jv_dump (JObj [(''id'', JInt 5)])"])
    (simp_all add: JsonlGrantStore_make_def jv_grants_def jv_api_def jv_contains_def jv_at_def grant_json_def grant_sample_def nat_digits_small)

end
