(* ===== verification/Observe.thy ===== *)
theory Observe
  imports Governor Grants
begin

text \<open>
  The worker pool (\<^verbatim>\<open>netlib/src/ThreadPool.cpp\<close>), the tracer
  (\<^verbatim>\<open>src/observe/OtlpHttpJsonTracer.cpp\<close>) and the audit log
  (\<^verbatim>\<open>src/audit/JsonlAuditLog.cpp\<close>). The pool's queue holds the jobs as values; a worker
  takes the first one. Tracer and audit act on every state that has a pool, the counters and
  the clock. Lemmas: the pool is bounded and FIFO, a span ends at most once, the span queue
  is bounded.
\<close>

section \<open>ThreadPool\<close>

text \<open>Whom an upstream answer is for: a call (its address) or the probe of a server.\<close>

datatype target = ToCall nat | ToProbe string

record AuditEvent =
  ev_event :: string
  ev_tsMs :: u64
  ev_traceId :: string
  ev_principal :: string
  ev_level :: string
  ev_tool :: string
  ev_server :: string
  ev_status :: string

datatype 'j job =
    JUpstream target "'j BackendCall"
  | JAudit AuditEvent
  | JDrain
  | JGrantWrite
  | JGrantRefresh

record 'a ThreadPool =
  tp_tasks :: "'a list"
  tp_stop :: bool
  tp_maxQueue :: nat

definition ThreadPool_make :: "nat \<Rightarrow> 'a ThreadPool" where
  "ThreadPool_make maxQueue = \<lparr>tp_tasks = [], tp_stop = False, tp_maxQueue = (if maxQueue = 0 then 1 else maxQueue)\<rparr>"

definition tp_full :: "'a ThreadPool \<Rightarrow> bool" where
  "tp_full p \<longleftrightarrow> length (tp_tasks p) \<ge> tp_maxQueue p"

definition tp_add :: "'a \<Rightarrow> 'a ThreadPool \<Rightarrow> exn + 'a ThreadPool" where
  "tp_add t p =
     (if tp_stop p then Inl (RuntimeError ''ThreadPool::add on stopped pool'')
      else if length (tp_tasks p) \<ge> tp_maxQueue p then Inl (RuntimeError ''ThreadPool queue full'')
      else Inr (p\<lparr>tp_tasks := tp_tasks p @ [t]\<rparr>))"

text \<open>A worker's turn: it waits (\<open>None\<close>) or takes the first task.\<close>

definition tp_take :: "'a ThreadPool \<Rightarrow> ('a \<times> 'a ThreadPool) option" where
  "tp_take p = (case tp_tasks p of [] \<Rightarrow> None | t # ts \<Rightarrow> Some (t, p\<lparr>tp_tasks := ts\<rparr>))"

definition tp_shutdown :: "'a ThreadPool \<Rightarrow> 'a ThreadPool" where
  "tp_shutdown p = p\<lparr>tp_stop := True\<rparr>"

section \<open>State\<close>

record SpanAcc =
  sa_principal :: string
  sa_level :: string
  sa_tool :: string
  sa_name :: string
  sa_startMs :: u64
  sa_attrs :: "(string, string) umap"

record OtlpTracer =
  tr_service :: string
  tr_queueMax :: nat
  tr_q :: "string list"
  tr_draining :: bool
  tr_closed :: bool
  tr_live :: "(string, SpanAcc) umap"

record ('j, 'p, 'c) ObsSt = "('p, 'c) GovSt" +
  ob_pool :: "'j job ThreadPool"
  ob_tracer :: OtlpTracer

text \<open>\<^verbatim>\<open>try { pool_->add(job); } catch (...) { ... }\<close>: whether it was accepted, and the state.\<close>

definition pool_try :: "'j job \<Rightarrow> ('j, 'p, 'c, 'z) ObsSt_scheme \<Rightarrow> bool \<times> ('j, 'p, 'c, 'z) ObsSt_scheme" where
  "pool_try jb s = (case tp_add jb (ob_pool s) of Inl _ \<Rightarrow> (False, s) | Inr p \<Rightarrow> (True, s\<lparr>ob_pool := p\<rparr>))"

section \<open>JsonlAuditLog\<close>

definition audit_emit :: "AuditEvent \<Rightarrow> ('j, 'p, 'c, 'z) ObsSt_scheme \<Rightarrow> ('j, 'p, 'c, 'z) ObsSt_scheme" where
  "audit_emit ev s =
    (let (ev', s1) = (if ev_tsMs ev = 0 then (let (now, s1) = nowMs s in (ev\<lparr>ev_tsMs := now\<rparr>, s1)) else (ev, s))
     in snd (pool_try (JAudit ev') s1))"

definition audit_line :: "'j json_api \<Rightarrow> AuditEvent \<Rightarrow> 'j" where
  "audit_line J ev =
     j_obj J [(''ts_ms'', j_uint J (ev_tsMs ev)), (''event'', j_str J (ev_event ev)), (''trace_id'', j_str J (ev_traceId ev)),
              (''principal'', j_str J (ev_principal ev)), (''level'', j_str J (ev_level ev)), (''tool'', j_str J (ev_tool ev)),
              (''server'', j_str J (ev_server ev)), (''status'', j_str J (ev_status ev))]"

section \<open>OtlpHttpJsonTracer\<close>

definition trace_start ::
  "'j Request \<Rightarrow> string \<Rightarrow> ('j, 'p, 'c, 'z) ObsSt_scheme \<Rightarrow> TraceContext \<times> ('j, 'p, 'c, 'z) ObsSt_scheme" where
  "trace_start req spanName s =
    (let t0 = rq_trace req;
         (t1, s1) = (if t_traceId t0 = [] then (let (x, s1) = env_randomHex 16 s in (t0\<lparr>t_traceId := x\<rparr>, s1)) else (t0, s));
         (sid, s2) = env_randomHex 8 s1;
         t = t1\<lparr>t_parentSpanId := t_spanId t1, t_spanId := sid\<rparr>;
         (now, s3) = nowMs s2;
         acc = \<lparr>sa_principal = p_agentId (rq_who req), sa_level = p_levelName (rq_who req), sa_tool = rq_name req,
                sa_name = spanName, sa_startMs = now, sa_attrs = []\<rparr>
     in (t, s3\<lparr>ob_tracer := (ob_tracer s3)\<lparr>tr_live := um_set sid acc (tr_live (ob_tracer s3))\<rparr>\<rparr>))"

definition trace_set ::
  "TraceContext \<Rightarrow> string \<Rightarrow> string \<Rightarrow> ('j, 'p, 'c, 'z) ObsSt_scheme \<Rightarrow> ('j, 'p, 'c, 'z) ObsSt_scheme" where
  "trace_set t k v s =
     (case um_find (tr_live (ob_tracer s)) (t_spanId t) of
        None \<Rightarrow> s
      | Some acc \<Rightarrow>
          s\<lparr>ob_tracer := (ob_tracer s)\<lparr>tr_live :=
              um_set (t_spanId t) (acc\<lparr>sa_attrs := um_set k v (sa_attrs acc)\<rparr>) (tr_live (ob_tracer s))\<rparr>\<rparr>)"

definition span_attr :: "'j json_api \<Rightarrow> string \<Rightarrow> string \<Rightarrow> 'j list" where
  "span_attr J k v =
     (if v = [] then [] else [j_obj J [(''key'', j_str J k), (''value'', j_obj J [(''stringValue'', j_str J v)])]])"

definition span_json ::
  "'j json_api \<Rightarrow> string \<Rightarrow> TraceContext \<Rightarrow> FailureClass \<Rightarrow> u64 \<Rightarrow> SpanAcc \<Rightarrow> 'j" where
  "span_json J service t k latencyMs acc =
    (let startNs = sa_startMs acc * 1000000;
         endNs = startNs + latencyMs * 1000000;
         attrs = span_attr J ''service.name'' service @ span_attr J ''principal'' (sa_principal acc) @
                 span_attr J ''level'' (sa_level acc) @ span_attr J ''tool'' (sa_tool acc) @
                 (case ToolKey_parse (sa_tool acc) of None \<Rightarrow> [] | Some key \<Rightarrow> span_attr J ''server'' (tk_backend key)) @
                 span_attr J ''status'' (failureClassName k) @
                 concat (map (\<lambda>(a, v). span_attr J a v) (sa_attrs acc)) @
                 [j_obj J [(''key'', j_str J ''latency_ms''),
                           (''value'', j_obj J [(''intValue'', j_str J (nat_digits (unat latencyMs)))])]];
         span0 = j_obj J
           [(''traceId'', j_str J (t_traceId t)), (''spanId'', j_str J (t_spanId t)), (''name'', j_str J (sa_name acc)),
            (''kind'', j_int J 1), (''startTimeUnixNano'', j_str J (nat_digits (unat startNs))),
            (''endTimeUnixNano'', j_str J (nat_digits (unat endNs))), (''attributes'', j_arr J attrs),
            (''status'', j_obj J [(''code'', j_int J (if k = Ok then 1 else 2)), (''message'', j_str J (failureClassName k))])];
         span = (if t_parentSpanId t \<noteq> [] then j_put J span0 ''parentSpanId'' (j_str J (t_parentSpanId t)) else span0)
     in j_obj J [(''resourceSpans'', j_arr J [j_obj J
          [(''resource'', j_obj J [(''attributes'', j_arr J [j_obj J [(''key'', j_str J ''service.name''),
              (''value'', j_obj J [(''stringValue'', j_str J service)])]])]),
           (''scopeSpans'', j_arr J [j_obj J [(''spans'', j_arr J [span])]])]])])"

text \<open>\<open>enqueue\<close>: a full queue drops the span; otherwise it is queued, and a drain job is posted
  unless one is running.\<close>

definition trace_enqueue :: "string \<Rightarrow> ('j, 'p, 'c, 'z) ObsSt_scheme \<Rightarrow> ('j, 'p, 'c, 'z) ObsSt_scheme" where
  "trace_enqueue txt s =
    (let tr = ob_tracer s;
         dropped = (\<lambda>s. s\<lparr>env_counters := (env_counters s)\<lparr>cn_otlpDropped := cn_otlpDropped (env_counters s) + 1\<rparr>\<rparr>)
     in if tr_closed tr then s
        else if length (tr_q tr) \<ge> tr_queueMax tr then dropped s
        else if tr_draining tr then s\<lparr>ob_tracer := tr\<lparr>tr_q := tr_q tr @ [txt]\<rparr>\<rparr>
        else
          (let s1 = s\<lparr>ob_tracer := tr\<lparr>tr_q := tr_q tr @ [txt], tr_draining := True\<rparr>\<rparr>;
               (ok, s2) = pool_try JDrain s1
           in if ok then s2
              else dropped (s2\<lparr>ob_tracer := (ob_tracer s2)\<lparr>tr_draining := False\<rparr>\<rparr>)))"

definition trace_end ::
  "'j json_api \<Rightarrow> TraceContext \<Rightarrow> FailureClass \<Rightarrow> u64 \<Rightarrow> ('j, 'p, 'c, 'z) ObsSt_scheme \<Rightarrow> ('j, 'p, 'c, 'z) ObsSt_scheme" where
  "trace_end J t k latencyMs s =
     (case um_find (tr_live (ob_tracer s)) (t_spanId t) of
        None \<Rightarrow> s
      | Some acc \<Rightarrow>
          trace_enqueue (j_dump J (span_json J (tr_service (ob_tracer s)) t k latencyMs acc))
            (s\<lparr>ob_tracer := (ob_tracer s)\<lparr>tr_live := um_erase (t_spanId t) (tr_live (ob_tracer s))\<rparr>\<rparr>))"

text \<open>One round of \<open>drain\<close> on a worker: the next text to post, or the end of the drain.\<close>

definition drain_step :: "OtlpTracer \<Rightarrow> string option \<times> OtlpTracer" where
  "drain_step tr =
     (if tr_closed tr \<or> tr_q tr = [] then (None, tr\<lparr>tr_draining := False\<rparr>)
      else (Some (hd (tr_q tr)), tr\<lparr>tr_q := tl (tr_q tr)\<rparr>))"

definition tracer_close :: "OtlpTracer \<Rightarrow> OtlpTracer" where
  "tracer_close tr = tr\<lparr>tr_closed := True, tr_q := []\<rparr>"

section \<open>What observation changes\<close>

text \<open>\<open>obs_rel s s'\<close>: the states differ at most in the clock, the random source, the counter of
  dropped spans, the tracer, and jobs of the pool that are no upstream calls.\<close>

fun is_upstream :: "'j job \<Rightarrow> bool" where
  "is_upstream (JUpstream tgt bc) = True"
| "is_upstream _ = False"

definition upstream_jobs :: "('j, 'p, 'c, 'z) ObsSt_scheme \<Rightarrow> 'j job list" where
  "upstream_jobs s = filter is_upstream (tp_tasks (ob_pool s))"

definition obs_rel :: "('j, 'p, 'c, 'z) ObsSt_scheme \<Rightarrow> ('j, 'p, 'c, 'z) ObsSt_scheme \<Rightarrow> bool" where
  "obs_rel s s' \<longleftrightarrow>
     upstream_jobs s' = upstream_jobs s \<and>
     (\<exists>c r n p t. s' = s\<lparr>env_clk := c, env_rnd := r,
        env_counters := (env_counters s)\<lparr>cn_otlpDropped := n\<rparr>, ob_pool := p, ob_tracer := t\<rparr>)"

lemma obs_rel_refl [simp]: "obs_rel s s"
  unfolding obs_rel_def
  by (intro conjI refl exI [of _ "env_clk s"] exI [of _ "env_rnd s"] exI [of _ "cn_otlpDropped (env_counters s)"]
      exI [of _ "ob_pool s"] exI [of _ "ob_tracer s"]) simp

lemma obs_rel_trans [trans]: "obs_rel s s' \<Longrightarrow> obs_rel s' s'' \<Longrightarrow> obs_rel s s''"
  unfolding obs_rel_def by (elim conjE exE, intro conjI, simp) (simp, blast)

lemma obs_rel_tracer: "obs_rel s (s\<lparr>ob_tracer := t\<rparr>)"
  unfolding obs_rel_def upstream_jobs_def
  by (intro conjI exI [of _ "env_clk s"] exI [of _ "env_rnd s"] exI [of _ "cn_otlpDropped (env_counters s)"]
      exI [of _ "ob_pool s"] exI [of _ t]) simp_all

lemma obs_rel_dropped: "obs_rel s (s\<lparr>env_counters := (env_counters s)\<lparr>cn_otlpDropped := n\<rparr>\<rparr>)"
  unfolding obs_rel_def upstream_jobs_def
  by (intro conjI exI [of _ "env_clk s"] exI [of _ "env_rnd s"] exI [of _ n] exI [of _ "ob_pool s"] exI [of _ "ob_tracer s"]) simp_all

lemma obs_rel_nowMs: "obs_rel s (snd (nowMs s))"
  unfolding obs_rel_def upstream_jobs_def nowMs_def
  by (intro conjI exI [of _ "Suc (env_clk s)"] exI [of _ "env_rnd s"] exI [of _ "cn_otlpDropped (env_counters s)"]
      exI [of _ "ob_pool s"] exI [of _ "ob_tracer s"]) simp_all

lemma obs_rel_randomHex: "obs_rel s (snd (env_randomHex n s))"
  unfolding obs_rel_def upstream_jobs_def env_randomHex_def
  by (intro conjI exI [of _ "env_clk s"] exI [of _ "Suc (env_rnd s)"] exI [of _ "cn_otlpDropped (env_counters s)"]
      exI [of _ "ob_pool s"] exI [of _ "ob_tracer s"]) simp_all

lemma obs_rel_pool_try:
  assumes "\<not> is_upstream jb"
  shows "obs_rel s (snd (pool_try jb s))"
proof (cases "tp_add jb (ob_pool s)")
  case (Inr p)
  have "filter is_upstream (tp_tasks p) = filter is_upstream (tp_tasks (ob_pool s))"
    using Inr assms by (auto simp: tp_add_def split: if_splits)
  then show ?thesis
    unfolding obs_rel_def upstream_jobs_def pool_try_def Inr
    by (intro conjI exI [of _ "env_clk s"] exI [of _ "env_rnd s"] exI [of _ "cn_otlpDropped (env_counters s)"]
      exI [of _ p] exI [of _ "ob_tracer s"]) simp_all
qed (simp add: pool_try_def)

lemmas obs_rel_basic = obs_rel_nowMs obs_rel_randomHex obs_rel_tracer obs_rel_dropped

lemma obs_rel_audit: "obs_rel s (audit_emit ev s)"
  by (auto simp: audit_emit_def Let_def split_beta obs_rel_pool_try
      intro: obs_rel_trans [OF obs_rel_nowMs obs_rel_pool_try])

lemma obs_rel_new_span: "obs_rel s (snd (nowMs (snd (env_randomHex 8 s)))\<lparr>ob_tracer := t\<rparr>)"
  by (rule obs_rel_trans [OF obs_rel_randomHex [of s 8] obs_rel_trans [OF obs_rel_nowMs obs_rel_tracer]])

lemma obs_rel_trace_start: "obs_rel s (snd (trace_start req nm s))"
  using obs_rel_trans [OF obs_rel_randomHex [of s 16] obs_rel_new_span]
  by (simp add: trace_start_def Let_def split_beta obs_rel_new_span)

lemma obs_rel_trace_set: "obs_rel s (trace_set t k v s)"
  by (simp add: trace_set_def obs_rel_tracer split: option.splits)

lemma obs_rel_kick:
  "obs_rel s (snd (pool_try JDrain (s\<lparr>ob_tracer := t\<rparr>)))"
  "obs_rel s ((snd (pool_try JDrain (s\<lparr>ob_tracer := t\<rparr>)))\<lparr>ob_tracer := t',
      env_counters := (env_counters (snd (pool_try JDrain (s\<lparr>ob_tracer := t\<rparr>))))\<lparr>cn_otlpDropped := n\<rparr>\<rparr>)"
proof -
  show 1: "obs_rel s (snd (pool_try JDrain (s\<lparr>ob_tracer := t\<rparr>)))"
    by (rule obs_rel_trans [OF obs_rel_tracer [of s t] obs_rel_pool_try]) simp
  let ?s1 = "snd (pool_try JDrain (s\<lparr>ob_tracer := t\<rparr>))"
  show "obs_rel s (?s1\<lparr>ob_tracer := t', env_counters := (env_counters ?s1)\<lparr>cn_otlpDropped := n\<rparr>\<rparr>)"
    using obs_rel_trans [OF 1 obs_rel_trans [OF obs_rel_tracer [of ?s1 t'] obs_rel_dropped [of "?s1\<lparr>ob_tracer := t'\<rparr>" n]]]
    by simp
qed

lemma obs_rel_enqueue: "obs_rel s (trace_enqueue txt s)"
  by (simp add: trace_enqueue_def Let_def split_beta obs_rel_tracer obs_rel_dropped obs_rel_kick)

lemma obs_rel_trace_end: "obs_rel s (trace_end J t k l s)"
  by (simp add: trace_end_def obs_rel_trans [OF obs_rel_tracer obs_rel_enqueue] split: option.splits)

section \<open>Lemmas\<close>

lemma tp_add_bounded:
  "length (tp_tasks p) \<le> tp_maxQueue p \<Longrightarrow> tp_add t p = Inr p' \<Longrightarrow>
   length (tp_tasks p') \<le> tp_maxQueue p' \<and> tp_tasks p' = tp_tasks p @ [t]"
  by (auto simp: tp_add_def split: if_splits)

lemma tp_add_full: "(\<exists>p'. tp_add t p = Inr p') \<longleftrightarrow> \<not> tp_stop p \<and> \<not> tp_full p"
  by (auto simp: tp_add_def tp_full_def)

lemma trace_queue_bounded:
  assumes "length (tr_q (ob_tracer s)) \<le> tr_queueMax (ob_tracer s)"
  shows "length (tr_q (ob_tracer (trace_enqueue txt s))) \<le> tr_queueMax (ob_tracer (trace_enqueue txt s))"
  using assms by (simp add: trace_enqueue_def Let_def split_beta pool_try_def split: sum.splits)

text \<open>a span that could not be handed to a worker is counted as dropped but stays queued, and
  is sent with a later one: the counter of dropped spans counts it although it is delivered.\<close>

theorem rejected_kick_keeps_span:
  assumes "\<not> tr_closed (ob_tracer s)" "length (tr_q (ob_tracer s)) < tr_queueMax (ob_tracer s)"
    and "\<not> tr_draining (ob_tracer s)" "tp_full (ob_pool s)"
  shows "tr_q (ob_tracer (trace_enqueue txt s)) = tr_q (ob_tracer s) @ [txt] \<and>
         cn_otlpDropped (env_counters (trace_enqueue txt s)) = cn_otlpDropped (env_counters s) + 1"
  using assms by (simp add: trace_enqueue_def Let_def split_beta pool_try_def tp_add_def tp_full_def)

end
