(* ===== verification/Call.thy ===== *)
theory Call
  imports Facet InFlight Health Tasks Observe
begin

text \<open>
  The life of a forwarded call (class \<^verbatim>\<open>Call\<close> in \<^verbatim>\<open>src/pipeline/Pipeline.cpp\<close>) in the
  state of the whole gateway (\<open>World\<close>). Closures are values: \<open>finish\<close> is the continuation that
  \<^verbatim>\<open>Pipeline::handle\<close> builds, \<open>acont\<close> the one it hands to the governor. A call lives at an
  address of the heap \<open>w_calls\<close>; it is destroyed when no worker job, no queued function and no
  timer refers to it (\<open>dropRef\<close>, where the code drops a \<^verbatim>\<open>shared_ptr\<close>). All pointers of
  \<^verbatim>\<open>Pipeline::Deps\<close> are set, as \<^verbatim>\<open>Gateway\<close> sets them.
\<close>

unbundle bit_operations_syntax

section \<open>State\<close>

record 'j finish =
  fi_token :: nat
  fi_t0 :: u64
  fi_req :: "'j Request"
  fi_total :: TraceContext

record 'j acont =
  ac_req :: "'j Request"
  ac_key :: ToolKey
  ac_hash :: string
  ac_done :: "'j finish"

datatype 'j pfun = FUpstream target "'j Response"

record 'j Call =
  cl_permit :: Permit
  cl_req :: "'j Request"
  cl_done :: "'j finish"
  cl_trace :: TraceContext
  cl_upTrace :: TraceContext
  cl_upSpanLive :: bool
  cl_responded :: bool
  cl_upstreamDone :: bool
  cl_cancelled :: bool
  cl_promoteTimer :: nat
  cl_inflightId :: string
  cl_paramsHash :: string
  cl_taskId :: string
  cl_key :: ToolKey
  cl_attempt :: int
  cl_t0 :: u64

record 'j World = "('j, 'j pfun, 'j acont) ObsSt" +
  w_cfg :: YamlConfig
  w_catalog :: Catalog
  w_index :: "'j ToolIndex"
  w_inflight :: InFlight
  w_circuit :: CountCircuit
  w_health :: ProbeHealth
  w_tasks :: "'j MemTaskStore"
  w_grants :: JsonlGrantStore
  w_retry :: RetryPolicy
  w_calls :: "(nat, 'j Call) umap"
  w_nextCall :: nat
  w_live :: "(string, nat) umap"
  w_byTask :: "(string, nat) umap"
  w_stopping :: bool
  w_running :: "'j job list"
  w_outs :: "(nat \<times> 'j Response) list"

section \<open>Hashes, summaries, fixed answers\<close>

definition fnv_mix :: "string \<Rightarrow> u64 \<Rightarrow> u64" where
  "fnv_mix s h = fold (\<lambda>c h. (h XOR of_nat (of_char c)) * 1099511628211) s h"

text \<open>\<^verbatim>\<open>%016llx\<close>.\<close>

definition hex16 :: "u64 \<Rightarrow> string" where
  "hex16 h = map (\<lambda>i. kHex ! unat (drop_bit (60 - 4 * i) h AND 15)) [0..<16]"

definition paramsHashOf :: "'j json_api \<Rightarrow> 'j \<Rightarrow> string" where
  "paramsHashOf J params =
     (if \<not> j_is_object J params then j_dump J params
      else hex16 (fold (\<lambda>(k, v) h. if k = ''_meta'' then h else fnv_mix (j_dump J v) (fnv_mix k h))
                    (j_items J params) 14695981039346656037))"

definition summaryOf :: "'j json_api \<Rightarrow> 'j \<Rightarrow> string" where
  "summaryOf J params =
    (let p = (if j_is_object J params \<and> j_contains J params ''_meta'' then j_erase J params ''_meta'' else params);
         s = j_dump J p
     in if length s > 200 then take 200 s @ ''...'' else s)"

definition missingTasksError :: "'j json_api \<Rightarrow> 'j" where
  "missingTasksError J =
     jsonRpcError J (-32021) ''Missing required client capability''
       (j_obj J [(''requiredCapabilities'', j_obj J [(''extensions'', j_obj J [(kTasksExt, j_obj J [])])])])"

definition unknownTool :: "'j json_api \<Rightarrow> 'j" where
  "unknownTool J = callToolText J ''unknown tool'' True"

definition denyTool :: "'j json_api \<Rightarrow> 'j" where
  "denyTool J = callToolText J ''not allowed'' True"

definition createTaskResult :: "'j json_api \<Rightarrow> 'j Task \<Rightarrow> 'j" where
  "createTaskResult J t =
     j_obj J [(''resultType'', j_str J ''task''), (''taskId'', j_str J (ta_taskId t)), (''status'', j_str J (ta_status t)),
              (''createdAt'', j_str J (iso8601Utc (ta_createdAtMs t))),
              (''lastUpdatedAt'', j_str J (iso8601Utc (ta_lastUpdatedAtMs t))),
              (''ttlMs'', j_uint J (ta_ttlMs t)), (''pollIntervalMs'', j_int J 500)]"

definition answer :: "'j json_api \<Rightarrow> FailureClass \<Rightarrow> 'j \<Rightarrow> 'j Response" where
  "answer J k body = (Response_default J)\<lparr>r_klass := k, r_body := body\<rparr>"

section \<open>Answering\<close>

definition pipeline_audit :: "string \<Rightarrow> 'j Request \<Rightarrow> FailureClass \<Rightarrow> string \<Rightarrow> 'j World \<Rightarrow> 'j World" where
  "pipeline_audit event req k tool w =
    (let tl = (if tool = [] then rq_name req else tool) in
     audit_emit
       \<lparr>ev_event = event, ev_tsMs = 0, ev_traceId = t_traceId (rq_trace req), ev_principal = p_agentId (rq_who req),
        ev_level = p_levelName (rq_who req), ev_tool = tl,
        ev_server = (case ToolKey_parse tl of None \<Rightarrow> [] | Some key \<Rightarrow> tk_backend key),
        ev_status = failureClassName k\<rparr> w)"

text \<open>The lambda \<open>finish\<close> of \<^verbatim>\<open>Pipeline::handle\<close>; the call of the frontend's \<open>onDone\<close> is an entry
  of \<open>w_outs\<close>.\<close>

definition finish_call :: "'j json_api \<Rightarrow> 'j finish \<Rightarrow> 'j Response \<Rightarrow> 'j World \<Rightarrow> 'j World" where
  "finish_call J f r w =
    (let (now, w1) = nowMs w;
         r1 = r\<lparr>r_gatewayMs := now - fi_t0 f\<rparr>;
         r2 = (if r_upstreamId r1 = [] then r1\<lparr>r_upstreamId := rq_upstreamId (fi_req f)\<rparr> else r1);
         w2 = trace_end J (rq_trace (fi_req f)) (r_klass r2) (r_gatewayMs r2) w1;
         w3 = trace_end J (fi_total f) (r_klass r2) (r_gatewayMs r2) w2
     in w3\<lparr>w_outs := w_outs w3 @ [(fi_token f, r2)]\<rparr>)"

definition upd_call :: "nat \<Rightarrow> ('j Call \<Rightarrow> 'j Call) \<Rightarrow> 'j World \<Rightarrow> 'j World" where
  "upd_call a f w =
     (case um_find (w_calls w) a of None \<Rightarrow> w | Some c \<Rightarrow> w\<lparr>w_calls := um_set a (f c) (w_calls w)\<rparr>)"

definition respond :: "'j json_api \<Rightarrow> nat \<Rightarrow> 'j Response \<Rightarrow> 'j World \<Rightarrow> 'j World" where
  "respond J a r w =
     (case um_find (w_calls w) a of
        None \<Rightarrow> w
      | Some c \<Rightarrow>
          if cl_responded c then w
          else
            (let w1 = upd_call a (\<lambda>c. c\<lparr>cl_responded := True\<rparr>) w;
                 (now, w2) = nowMs w1;
                 r1 = r\<lparr>r_gatewayMs := now - cl_t0 c\<rparr>;
                 w3 = (if \<not> r_isError r1 \<and> r_klass r1 = Ok \<and> rq_method (cl_req c) = ''tools/call''
                       then pipeline_audit ''ok'' (cl_req c) Ok
                              (if ToolKey_str (cl_key c) = [] then rq_name (cl_req c) else ToolKey_str (cl_key c)) w2
                       else w2)
             in finish_call J (cl_done c) r1 w3))"

definition cancelledAnswer :: "'j json_api \<Rightarrow> 'j Response" where
  "cancelledAnswer J = answer J Cancelled (callToolText J ''cancelled; remote may still run'' True)"

definition update_task :: "string \<Rightarrow> string \<Rightarrow> 'j \<Rightarrow> 'j World \<Rightarrow> 'j World" where
  "update_task tid st body w =
    (let (now, w1) = nowMs w in w1\<lparr>w_tasks := tasks_updateStatus tid st body now (w_tasks w1)\<rparr>)"

definition cancelWait :: "'j json_api \<Rightarrow> nat \<Rightarrow> 'j World \<Rightarrow> 'j World" where
  "cancelWait J a w =
     (case um_find (w_calls w) a of
        None \<Rightarrow> w
      | Some c \<Rightarrow>
          (let w1 = upd_call a (\<lambda>c. c\<lparr>cl_cancelled := True\<rparr>) w;
               w2 = (if \<not> cl_responded c then respond J a (cancelledAnswer J) w1 else w1)
           in if cl_taskId c \<noteq> [] then update_task (cl_taskId c) ''cancelled'' (j_null J) w2 else w2))"

section \<open>Tasks of a call\<close>

definition attachTask :: "nat \<Rightarrow> string \<Rightarrow> 'j World \<Rightarrow> 'j World" where
  "attachTask a tid w =
     (case um_find (w_calls w) a of
        None \<Rightarrow> w
      | Some c \<Rightarrow>
          (let w1 = upd_call a (\<lambda>c. c\<lparr>cl_taskId := tid\<rparr>) w;
               w2 = w1\<lparr>w_byTask := um_set tid a (w_byTask w1),
                       w_inflight := InFlight_setTaskId (cl_inflightId c) tid (w_inflight w1)\<rparr>
           in trace_set (cl_trace c) ''task_id'' tid w2))"

text \<open>A new task for a request, created at \<open>created\<close>, and its insertion: whether it was accepted.\<close>

definition makeTask :: "'j json_api \<Rightarrow> 'j Request \<Rightarrow> ToolKey \<Rightarrow> u64 \<Rightarrow> 'j World \<Rightarrow> 'j Task \<times> 'j World" where
  "makeTask J req key created w =
    (let (hex, w1) = env_randomHex 8 w; (now, w2) = nowMs w1
     in (\<lparr>ta_taskId = ''tsk_'' @ hex, ta_agentId = p_agentId (rq_who req), ta_key = key, ta_status = ''working'',
          ta_resultOrError = j_null J, ta_createdAtMs = created, ta_lastUpdatedAtMs = now,
          ta_ttlMs = cf_taskTtlMs (w_cfg w2), ta_owner = rq_who req\<rparr>, w2))"

definition insert_task :: "'j Task \<Rightarrow> 'j World \<Rightarrow> bool \<times> 'j World" where
  "insert_task t w =
    (let (now, w1) = nowMs w; (ok, m) = tasks_insert now t (w_tasks w1) in (ok, w1\<lparr>w_tasks := m\<rparr>))"

definition read_task :: "string \<Rightarrow> 'j World \<Rightarrow> 'j Task option \<times> 'j World" where
  "read_task tid w =
    (let (now, w1) = nowMs w; (t, m) = tasks_get now tid (w_tasks w1) in (t, w1\<lparr>w_tasks := m\<rparr>))"

definition promote_answer :: "'j json_api \<Rightarrow> string \<Rightarrow> 'j World \<Rightarrow> 'j Response \<times> 'j World" where
  "promote_answer J tid w =
    (let (t, w1) = read_task tid w
     in ((case t of None \<Rightarrow> answer J Unavailable (callToolText J ''task not found'' True)
          | Some t \<Rightarrow> (Response_default J)\<lparr>r_body := createTaskResult J t\<rparr>), w1))"

definition onPromote :: "'j json_api \<Rightarrow> nat \<Rightarrow> 'j World \<Rightarrow> 'j World" where
  "onPromote J a w =
     (case um_find (w_calls w) a of
        None \<Rightarrow> w
      | Some c \<Rightarrow>
          if cl_responded c \<or> cl_cancelled c then w
          else if c_tasks (rq_caps (cl_req c)) then
            (if cl_taskId c = [] then
               (let (t, w1) = makeTask J (cl_req c) (cl_key c) (cl_t0 c) w;
                    (ok, w2) = insert_task t w1
                in if \<not> ok then respond J a (answer J Unavailable (callToolText J ''task store full'' True)) w2
                   else (let (r, w3) = promote_answer J (ta_taskId t) (attachTask a (ta_taskId t) w2) in respond J a r w3))
             else (let (r, w1) = promote_answer J (cl_taskId c) w in respond J a r w1))
          else
            respond J a ((Response_default J)\<lparr>r_isError := True, r_klass := Capability, r_httpStatus := 400,
                           r_body := missingTasksError J\<rparr>) w)"

section \<open>Upstream\<close>

definition makeBackendCall :: "'j json_api \<Rightarrow> 'j Call \<Rightarrow> 'j BackendCall" where
  "makeBackendCall J c =
    (let params0 = (if j_is_object J (rq_params (cl_req c)) then rq_params (cl_req c) else j_obj J []);
         params = j_put J (j_erase J params0 ''_meta'') ''name'' (j_str J (tk_tool (cl_key c)));
         meta0 = (if j_is_object J (rq_meta (cl_req c)) then rq_meta (cl_req c) else j_obj J []);
         meta1 = j_put J (j_erase J meta0 kConfirmKey) kMetaProtocol (j_str J kProtocolVersion);
         meta = (if \<not> j_contains J meta1 kMetaCaps then j_put J meta1 kMetaCaps (j_obj J []) else meta1)
     in \<lparr>bc_method = ''tools/call'', bc_name = tk_tool (cl_key c), bc_params = params, bc_meta = meta,
         bc_deadlineMs = rq_deadlineMs (cl_req c), bc_trace = cl_trace c\<rparr>)"

definition armPromote :: "nat \<Rightarrow> 'j World \<Rightarrow> 'j World" where
  "armPromote a w =
     (case um_find (w_calls w) a of
        None \<Rightarrow> w
      | Some c \<Rightarrow>
          (let ms0 = cf_promoteAfterMs (w_cfg w);
               ms1 = (if health_state (w_health w) (tk_backend (cl_key c)) = Degraded then ms0 div 2 else ms0);
               ms = (if ms1 = 0 then 1 else ms1);
               (tid, w1) = env_runAfter ms (TPromote a) w
           in upd_call a (\<lambda>c. c\<lparr>cl_promoteTimer := tid\<rparr>) w1))"

text \<open>\<^verbatim>\<open>HttpMcpBackend::call\<close>: hand the call to a worker; a full pool answers through the loop.\<close>

definition backend_call :: "'j json_api \<Rightarrow> target \<Rightarrow> 'j BackendCall \<Rightarrow> 'j World \<Rightarrow> 'j World" where
  "backend_call J tgt bc w =
    (let r = (Response_default J)\<lparr>r_isError := True, r_klass := Unavailable,
                r_body := jsonRpcError J (-32000) ''worker queue full'' (j_obj J [])\<rparr>;
         failQueue = (\<lambda>w. w\<lparr>env_loop := queueInLoop (PRun (FUpstream tgt r)) (env_loop w)\<rparr>)
     in if tp_full (ob_pool w) then failQueue w
        else (let (ok, w1) = pool_try (JUpstream tgt bc) w in if ok then w1 else failQueue w1))"

text \<open>Record the outcome at the breaker, and whether it was open before.\<close>

definition circuit_record :: "nat \<Rightarrow> 'j Response \<Rightarrow> 'j World \<Rightarrow> bool \<times> 'j World" where
  "circuit_record a r w =
     (case um_find (w_calls w) a of
        None \<Rightarrow> (False, w)
      | Some c \<Rightarrow>
          (let be = tk_backend (cl_key c);
               (now, w1) = nowMs w;
               (open1, cc) = isOpen be now (w_circuit w1);
               w2 = w1\<lparr>w_circuit := cc\<rparr>
           in if r_klass r = Ok \<and> \<not> r_isError r then (open1, w2\<lparr>w_circuit := circuit_onSuccess be (w_circuit w2)\<rparr>)
              else
                (let (now2, w3) = nowMs w2;
                     (became, cc2) = circuit_onFailure be now2 (w_circuit w3);
                     w4 = w3\<lparr>w_circuit := cc2\<rparr>
                 in (open1, if became then pipeline_audit ''circuit_open'' (cl_req c) Unavailable (ToolKey_str (cl_key c)) w4
                            else w4))))"

definition cancel_promote :: "nat \<Rightarrow> 'j World \<Rightarrow> 'j World" where
  "cancel_promote a w =
     (case um_find (w_calls w) a of
        None \<Rightarrow> w
      | Some c \<Rightarrow>
          if cl_promoteTimer c \<noteq> 0 then upd_call a (\<lambda>c. c\<lparr>cl_promoteTimer := 0\<rparr>) (env_cancel (cl_promoteTimer c) w) else w)"

text \<open>The end of \<open>onUpstream\<close>: no further attempt.\<close>

definition upstream_final :: "'j json_api \<Rightarrow> nat \<Rightarrow> 'j Response \<Rightarrow> 'j World \<Rightarrow> 'j World" where
  "upstream_final J a r w =
     (case um_find (w_calls w) a of
        None \<Rightarrow> w
      | Some c \<Rightarrow>
          (let w1 = cancel_promote a (upd_call a (\<lambda>c. c\<lparr>cl_upstreamDone := True\<rparr>) w);
               w2 = (if cl_taskId c \<noteq> []
                     then update_task (cl_taskId c) (if r_klass r = Ok \<and> \<not> r_isError r then ''completed'' else ''failed'') (r_body r) w1
                     else w1)
           in if \<not> cl_responded c then
                respond J a
                  (if r_klass r \<noteq> Ok \<and> (\<not> j_is_object J (r_body r) \<or> \<not> j_contains J (r_body r) ''content'')
                   then r\<lparr>r_body := callToolText J (failureClassName (r_klass r)) True\<rparr> else r) w2
              else w2))"

text \<open>\<^verbatim>\<open>Call::onUpstream\<close>, with the retry (\<^verbatim>\<open>fireAttempt()\<close>) as an argument.\<close>

definition onUpstream_with ::
  "'j json_api \<Rightarrow> ('j World \<Rightarrow> exn + 'j World) \<Rightarrow> nat \<Rightarrow> 'j Response \<Rightarrow> 'j World \<Rightarrow> exn + 'j World" where
  "onUpstream_with J retry a r w =
     (case um_find (w_calls w) a of
        None \<Rightarrow> Inr w
      | Some c \<Rightarrow>
          (let w1 = (if cl_upSpanLive c
                     then upd_call a (\<lambda>c. c\<lparr>cl_upSpanLive := False\<rparr>) (trace_end J (cl_upTrace c) (r_klass r) (r_upstreamMs r) w)
                     else w)
           in if cl_cancelled c then Inr (upd_call a (\<lambda>c. c\<lparr>cl_upstreamDone := True\<rparr>) w1)
              else
                (let meta = (case Catalog_find (w_catalog w1) (tk_backend (cl_key c)) of None \<Rightarrow> BackendMeta_default | Some e \<Rightarrow> ce_meta e);
                     (open1, w2) = circuit_record a r w1;
                     outstanding = (cl_responded c \<or> cl_cancelled c \<or> r_klass r = Timeout \<or> r_klass r = Cancelled);
                     (now, w3) = nowMs w2
                 in if \<not> cl_responded c \<and> \<not> cl_cancelled c \<and>
                       shouldRetry (w_retry w3) (r_klass r) (cl_key c) meta (cl_attempt c) (rq_deadlineMs (cl_req c)) now open1 outstanding
                    then retry w3
                    else Inr (upstream_final J a r w3))))"

text \<open>\<open>fireAttempt\<close> calls itself through \<open>onUpstream\<close> only when the backend is missing; \<open>fuel\<close> bounds
  the call stack.\<close>

fun fireAttempt :: "'j json_api \<Rightarrow> nat \<Rightarrow> nat \<Rightarrow> 'j World \<Rightarrow> exn + 'j World" where
  "fireAttempt J 0 a w = Inl StackOverflow"
| "fireAttempt J (Suc fuel) a w =
     (case um_find (w_calls w) a of
        None \<Rightarrow> Inr w
      | Some c \<Rightarrow>
          (case Catalog_backend (w_catalog w) (tk_backend (cl_key c)) of
             None \<Rightarrow> onUpstream_with J (fireAttempt J fuel a) a (answer J Unavailable (callToolText J ''upstream unavailable'' True)) w
           | Some be \<Rightarrow>
               (let w1 = upd_call a (\<lambda>c. c\<lparr>cl_attempt := cl_attempt c + 1\<rparr>) w;
                    w2 = (if cl_attempt c + 1 = 1 then armPromote a w1 else w1);
                    (t, w3) = trace_start ((cl_req c)\<lparr>rq_trace := cl_trace c\<rparr>) ''upstream'' w2;
                    w4 = upd_call a (\<lambda>c. c\<lparr>cl_upTrace := t, cl_upSpanLive := True\<rparr>) w3
                in Inr (backend_call J (ToCall a) (makeBackendCall J c) w4))))"

definition kStack :: nat where "kStack = 10000"

definition onUpstream :: "'j json_api \<Rightarrow> nat \<Rightarrow> 'j Response \<Rightarrow> 'j World \<Rightarrow> exn + 'j World" where
  "onUpstream J a r w = onUpstream_with J (fireAttempt J kStack a) a r w"

section \<open>Destruction\<close>

text \<open>Who refers to a call: a job of the pool or of a worker, a queued function, its promote timer.\<close>

definition job_refs :: "nat \<Rightarrow> 'j job \<Rightarrow> bool" where
  "job_refs a jb = (case jb of JUpstream (ToCall b) bc \<Rightarrow> b = a | _ \<Rightarrow> False)"

definition pending_refs :: "nat \<Rightarrow> (timer_cb, 'j pfun) Pending \<Rightarrow> bool" where
  "pending_refs a p = (case p of PRun (FUpstream (ToCall b) r) \<Rightarrow> b = a | PInsertTimer t (TPromote b) \<Rightarrow> b = a | _ \<Rightarrow> False)"

definition call_refs :: "nat \<Rightarrow> 'j World \<Rightarrow> bool" where
  "call_refs a w \<longleftrightarrow>
     list_ex (job_refs a) (tp_tasks (ob_pool w)) \<or> list_ex (job_refs a) (w_running w) \<or>
     list_ex (pending_refs a) (el_pending (env_loop w)) \<or>
     list_ex (\<lambda>kv. snd kv = TPromote a) (el_timerCbs (env_loop w))"

text \<open>\<^verbatim>\<open>Call::~Call\<close> and then the destructor of the permit, which may admit waiting calls.\<close>

definition destroyCall :: "'j json_api \<Rightarrow> nat \<Rightarrow> 'j World \<Rightarrow> 'j acont admission list \<times> 'j World" where
  "destroyCall J a w =
     (case um_find (w_calls w) a of
        None \<Rightarrow> ([], w)
      | Some c \<Rightarrow>
          (let w1 = (if cl_promoteTimer c \<noteq> 0 then env_cancel (cl_promoteTimer c) w else w);
               w2 = (if cl_upSpanLive c then (let (now, w2) = nowMs w1 in trace_end J (cl_upTrace c) Cancelled (now - cl_t0 c) w2) else w1);
               w3 = (if \<not> cl_responded c then respond J a (cancelledAnswer J) w2 else w2);
               w4 = (if cl_inflightId c \<noteq> []
                     then (let (f, w4) = InFlight_erase (cl_inflightId c) (w_inflight w3) w3 in w4\<lparr>w_inflight := f\<rparr>) else w3);
               w5 = (if cl_taskId c \<noteq> [] then w4\<lparr>w_byTask := um_erase (cl_taskId c) (w_byTask w4)\<rparr> else w4);
               w6 = (if cl_inflightId c \<noteq> [] then w5\<lparr>w_live := um_erase (cl_inflightId c) (w_live w5)\<rparr> else w5);
               w7 = w6\<lparr>w_calls := um_erase a (w_calls w6)\<rparr>
           in releaseSlot (pm_key (cl_permit c)) (pm_agentId (cl_permit c)) w7))"

definition dropRef :: "'j json_api \<Rightarrow> nat \<Rightarrow> 'j World \<Rightarrow> 'j acont admission list \<times> 'j World" where
  "dropRef J a w = (if call_refs a w then ([], w) else destroyCall J a w)"

section \<open>Admission\<close>

text \<open>The part of the continuation of \<open>acquire\<close> that starts a call: \<open>InFlight::insert\<close>, the constructor
  of \<^verbatim>\<open>Call\<close> and \<open>startUpstream\<close>.\<close>

definition newCall :: "'j json_api \<Rightarrow> 'j acont \<Rightarrow> Permit \<Rightarrow> u64 \<Rightarrow> 'j World \<Rightarrow> nat \<times> 'j World" where
  "newCall J k p now w =
    (let req = ac_req k;
         (iid, f, w1) = InFlight_insert (p_agentId (rq_who req)) (ac_key k) (ac_hash k) (summaryOf J (rq_params req)) now (w_inflight w) w;
         w2 = w1\<lparr>w_inflight := f\<rparr>;
         (t0, w3) = nowMs w2;
         a = w_nextCall w3;
         c = \<lparr>cl_permit = p, cl_req = req, cl_done = ac_done k, cl_trace = rq_trace req, cl_upTrace = TraceContext_default,
              cl_upSpanLive = False, cl_responded = False, cl_upstreamDone = False, cl_cancelled = False, cl_promoteTimer = 0,
              cl_inflightId = iid, cl_paramsHash = ac_hash k, cl_taskId = [],
              cl_key = (case ToolKey_parse (rq_name req) of None \<Rightarrow> \<lparr>tk_backend = [], tk_tool = []\<rparr> | Some key \<Rightarrow> key),
              cl_attempt = 0, cl_t0 = t0\<rparr>
     in (a, w3\<lparr>w_calls := um_set a c (w_calls w3), w_nextCall := Suc a, w_live := um_set iid a (w_live w3)\<rparr>))"

text \<open>The continuation of \<open>acquire\<close>. The governor gives a permit exactly with \<open>Go\<close> (\<open>ev_ok\<close>).\<close>

definition onAdmit :: "'j json_api \<Rightarrow> 'j acont admission \<Rightarrow> 'j World \<Rightarrow> exn + ('j acont admission list \<times> 'j World)" where
  "onAdmit J e w =
    (let (k, adm, perm) = e; req = ac_req k; be = tk_backend (ac_key k); ts = ToolKey_str (ac_key k) in
     case (if adm = Go then perm else None) of
       None \<Rightarrow>
         (let w1 = w\<lparr>env_counters := (env_counters w)\<lparr>cn_throttled := cn_throttled (env_counters w) + 1\<rparr>\<rparr>;
              w2 = pipeline_audit ''throttled'' req Throttled ts w1
          in Inr ([], finish_call J (ac_done k) (answer J Throttled (callToolText J ''throttled'' True)) w2))
     | Some p \<Rightarrow>
         (let (now, w1) = nowMs w;
              (open1, cc) = isOpen be now (w_circuit w1);
              w2 = w1\<lparr>w_circuit := cc\<rparr>
          in if open1 \<or> health_state (w_health w2) be = Down then
               (let (open2, cc2) = isOpen be now (w_circuit w2);
                    w3 = w2\<lparr>w_circuit := cc2\<rparr>;
                    w4 = (if open2 then
                            pipeline_audit ''circuit_open'' req Unavailable ts
                              (w3\<lparr>env_counters := (env_counters w3)\<lparr>cn_circuitOpen := cn_circuitOpen (env_counters w3) + 1\<rparr>\<rparr>)
                          else w3);
                    w5 = finish_call J (ac_done k) (answer J Unavailable (callToolText J ''upstream unavailable'' True)) w4
                in Inr (releaseSlot (pm_key p) (pm_agentId p) w5))
             else
               (let (a, w3) = newCall J k p now w2
                in case fireAttempt J kStack a w3 of Inl x \<Rightarrow> Inl x | Inr w4 \<Rightarrow> Inr (dropRef J a w4))))"

section \<open>Frames\<close>

text \<open>What the bookkeeping of a call leaves alone. \<open>gov_part\<close>: the governor; \<open>loop_part\<close>: the
  timers; \<open>calls_part\<close>: which calls exist, with their permits and promote timers; \<open>tokens\<close>:
  the requests that were answered or belong to a call that still has to answer.\<close>

definition gov_part ::
  "('p, 'c, 'z) GovSt_scheme \<Rightarrow> YamlConfig \<times> (string, int) umap \<times> (string, int) umap \<times> (string, 'c Waiter list) umap \<times> nat \<times> int" where
  "gov_part s = (gv_cfg s, gv_toolInUse s, gv_principalInUse s, gv_queues s, gv_nextWaitId s, cn_permitHeld (env_counters s))"

definition loop_part :: "('cb, 'p) EventLoop \<Rightarrow> Timer list \<times> nat list \<times> (nat, 'cb) umap \<times> nat \<times> bool \<times> bool" where
  "loop_part el =
     (el_timers el, el_canceled el, el_timerCbs el, el_nextTimerId el, el_looping el, list_all is_run (el_pending el))"

definition calls_part :: "'j World \<Rightarrow> (nat \<times> nat \<times> Permit) list" where
  "calls_part w = map (\<lambda>(a, c). (a, cl_promoteTimer c, cl_permit c)) (w_calls w)"

definition open_token :: "nat \<times> 'j Call \<Rightarrow> nat multiset" where
  "open_token ac = (if cl_responded (snd ac) then {#} else {#fi_token (cl_done (snd ac))#})"

definition tokens :: "'j World \<Rightarrow> nat multiset" where
  "tokens w = mset (map fst (w_outs w)) + sum_list (map open_token (w_calls w))"

definition shape where
  "shape w = (gov_part w, loop_part (env_loop w), calls_part w, w_nextCall w, w_cfg w, w_catalog w)"

lemma map_um_set_same:
  "um_find m a = Some c \<Longrightarrow> g (a, c') = g (a, c) \<Longrightarrow> map g (um_set a c' m) = map g m"
  by (induction m) (auto split: if_splits)

lemma obs_rel_world:
  assumes "obs_rel w w'"
  shows "shape w' = shape w" "tokens w' = tokens w" "w_calls w' = w_calls w" "w_circuit w' = w_circuit w"
    "w_outs w' = w_outs w" "gov_part w' = gov_part w" "w_inflight w' = w_inflight w" "w_tasks w' = w_tasks w"
  using assms
  by (auto simp: obs_rel_def shape_def gov_part_def calls_part_def tokens_def)

lemmas obs_frames [simp] =
  obs_rel_world [OF obs_rel_nowMs] obs_rel_world [OF obs_rel_randomHex]
  obs_rel_world [OF obs_rel_trace_end] obs_rel_world [OF obs_rel_trace_start] obs_rel_world [OF obs_rel_trace_set]
  obs_rel_world [OF obs_rel_audit]

lemma pipeline_audit_frames [simp]:
  "shape (pipeline_audit e req k t w) = shape w" "tokens (pipeline_audit e req k t w) = tokens w"
  "w_calls (pipeline_audit e req k t w) = w_calls w"
  by (simp_all add: pipeline_audit_def Let_def)

lemma finish_call_frames [simp]:
  "shape (finish_call J f r w) = shape w" "w_calls (finish_call J f r w) = w_calls w"
  "tokens (finish_call J f r w) = add_mset (fi_token f) (tokens w)"
proof -
  have out: "shape (w\<lparr>w_outs := x\<rparr>) = shape w" for w x
    by (simp add: shape_def gov_part_def calls_part_def)
  show "shape (finish_call J f r w) = shape w" by (simp add: finish_call_def Let_def split_beta out)
  show "w_calls (finish_call J f r w) = w_calls w" by (simp add: finish_call_def Let_def split_beta)
  show "tokens (finish_call J f r w) = add_mset (fi_token f) (tokens w)"
    by (simp add: finish_call_def Let_def split_beta tokens_def)
qed

lemma upd_call_frames:
  assumes "\<And>c. cl_promoteTimer (f c) = cl_promoteTimer c" "\<And>c. cl_permit (f c) = cl_permit c"
  shows "shape (upd_call a f w) = shape w"
    "(\<And>c. cl_responded (f c) = cl_responded c) \<Longrightarrow> (\<And>c. cl_done (f c) = cl_done c) \<Longrightarrow> tokens (upd_call a f w) = tokens w"
proof -
  show "shape (upd_call a f w) = shape w"
    using assms by (auto simp: upd_call_def shape_def gov_part_def calls_part_def map_um_set_same split: option.splits)
  show "tokens (upd_call a f w) = tokens w"
    if "\<And>c. cl_responded (f c) = cl_responded c" "\<And>c. cl_done (f c) = cl_done c"
    using that by (auto simp: upd_call_def tokens_def map_um_set_same open_token_def split: option.splits)
qed

lemma upd_call_calls:
  "w_calls (upd_call a f w) = (case um_find (w_calls w) a of None \<Rightarrow> w_calls w | Some c \<Rightarrow> um_set a (f c) (w_calls w))"
  by (simp add: upd_call_def split: option.splits)

lemma sum_um_set_pair:
  fixes g :: "'k \<times> 'v \<Rightarrow> 'a :: comm_monoid_add"
  shows "um_find m a = Some c \<Longrightarrow> sum_list (map g (um_set a c' m)) + g (a, c) = sum_list (map g m) + g (a, c')"
  by (induction m) (auto split: if_splits simp: ac_simps)

lemma respond_frames [simp]:
  "shape (respond J a r w) = shape w" "tokens (respond J a r w) = tokens w"
proof -
  show "shape (respond J a r w) = shape w"
    by (auto simp: respond_def Let_def split_beta upd_call_frames split: option.splits)
  show "tokens (respond J a r w) = tokens w"
  proof (cases "um_find (w_calls w) a")
    case (Some c)
    show ?thesis
    proof (cases "cl_responded c")
      case False
      have "add_mset (fi_token (cl_done c)) (tokens (upd_call a (\<lambda>c. c\<lparr>cl_responded := True\<rparr>) w)) = tokens w"
        using sum_um_set_pair [OF Some, of open_token "c\<lparr>cl_responded := True\<rparr>"] False Some
        by (simp add: upd_call_def tokens_def open_token_def)
      then show ?thesis using Some False by (simp add: respond_def Let_def split_beta)
    qed (simp add: respond_def Some)
  qed (simp add: respond_def)
qed

lemma world_fields_frames [simp]:
  "shape (w\<lparr>w_tasks := m\<rparr>) = shape w" "tokens (w\<lparr>w_tasks := m\<rparr>) = tokens w"
  "shape (w\<lparr>w_circuit := cc\<rparr>) = shape w" "tokens (w\<lparr>w_circuit := cc\<rparr>) = tokens w"
  "shape (w\<lparr>w_inflight := f\<rparr>) = shape w" "tokens (w\<lparr>w_inflight := f\<rparr>) = tokens w"
  "shape (w\<lparr>w_byTask := b, w_inflight := f\<rparr>) = shape w" "tokens (w\<lparr>w_byTask := b, w_inflight := f\<rparr>) = tokens w"
  "shape (w\<lparr>w_byTask := b\<rparr>) = shape w" "tokens (w\<lparr>w_byTask := b\<rparr>) = tokens w"
  "shape (w\<lparr>w_live := l\<rparr>) = shape w" "tokens (w\<lparr>w_live := l\<rparr>) = tokens w"
  by (simp_all add: shape_def gov_part_def calls_part_def tokens_def)

lemma update_task_frames [simp]:
  "shape (update_task tid st b w) = shape w" "tokens (update_task tid st b w) = tokens w"
  "w_calls (update_task tid st b w) = w_calls w"
  by (simp_all add: update_task_def Let_def split_beta)

lemma cancelWait_frames [simp]: "shape (cancelWait J a w) = shape w" "tokens (cancelWait J a w) = tokens w"
  by (simp_all add: cancelWait_def Let_def upd_call_frames split: option.splits)

lemma attachTask_frames [simp]:
  "shape (attachTask a tid w) = shape w" "tokens (attachTask a tid w) = tokens w"
  by (simp_all add: attachTask_def Let_def upd_call_frames split: option.splits)

lemma task_frames [simp]:
  "shape (snd (makeTask J req key t w)) = shape w" "tokens (snd (makeTask J req key t w)) = tokens w"
  "shape (snd (insert_task tk w)) = shape w" "tokens (snd (insert_task tk w)) = tokens w"
  "shape (snd (read_task tid w)) = shape w" "tokens (snd (read_task tid w)) = tokens w"
  "shape (snd (promote_answer J tid w)) = shape w" "tokens (snd (promote_answer J tid w)) = tokens w"
  by (simp_all add: makeTask_def insert_task_def read_task_def promote_answer_def Let_def split_beta)

lemma onPromote_frames [simp]: "shape (onPromote J a w) = shape w" "tokens (onPromote J a w) = tokens w"
  by (simp_all add: onPromote_def Let_def split_beta split: option.splits)

lemma circuit_record_frames [simp]:
  "shape (snd (circuit_record a r w)) = shape w" "tokens (snd (circuit_record a r w)) = tokens w"
  "w_calls (snd (circuit_record a r w)) = w_calls w"
  by (simp_all add: circuit_record_def Let_def split_beta split: option.splits)

lemma backend_call_frames [simp]:
  "shape (backend_call J tgt bc w) = shape w" "tokens (backend_call J tgt bc w) = tokens w"
proof -
  have q: "shape (w\<lparr>env_loop := queueInLoop (PRun f) (env_loop w)\<rparr>) = shape w"
    "tokens (w\<lparr>env_loop := queueInLoop (PRun f) (env_loop w)\<rparr>) = tokens w" for w :: "'a World" and f
    by (simp_all add: shape_def gov_part_def calls_part_def tokens_def loop_part_def queueInLoop_def)
  have t: "shape (snd (pool_try jb w)) = shape w" "tokens (snd (pool_try jb w)) = tokens w" for w :: "'a World" and jb
    by (simp_all add: shape_def gov_part_def calls_part_def tokens_def pool_try_def split: sum.splits)
  show "shape (backend_call J tgt bc w) = shape w" "tokens (backend_call J tgt bc w) = tokens w"
    by (simp_all add: backend_call_def Let_def split_beta q t)
qed

section \<open>Invariant\<close>

text \<open>The governor's promises under timer operations of others.\<close>

lemma gov_inv_env_cancel:
  assumes inv: "gov_inv H s" and t: "t < el_nextTimerId (env_loop s)"
    and other: "\<And>ts i. timerCb s t \<noteq> Some (TQueueTimeout ts i)"
  shows "gov_inv H (env_cancel t s)"
proof -
  have wf: "el_wf (env_loop s)" and ok: "queues_ok s" using inv by (simp_all add: gov_inv_def queues_ok_def)
  have "waiter_ok (env_cancel t s) ts w" if w: "waiter_ok s ts w" for ts w
  proof -
    have "wt_timer w \<noteq> t" using w other by (auto simp: waiter_ok_def)
    then show ?thesis
      using w els.stop_bind [OF wf, of t "wt_timer w"] by (simp add: waiter_ok_def env_cancel_def)
  qed
  then have "queues_ok (env_cancel t s)"
    using ok els.inv_stop [OF wf t] by (simp add: queues_ok_def env_cancel_def)
  then show ?thesis
    using inv slots_ok_cong [of "env_cancel t s" s H] by (simp add: gov_inv_def env_cancel_def)
qed

lemma gov_inv_env_runAfter:
  assumes inv: "gov_inv H s" and arm: "env_runAfter ms cb s = (i, s')"
  shows "gov_inv H s'"
proof -
  have wf: "el_wf (env_loop s)" and ok: "queues_ok s" using inv by (simp_all add: gov_inv_def queues_ok_def)
  note tm = env_runAfter_props [OF wf arm]
  have s': "gv_queues s' = gv_queues s" "gv_nextWaitId s' = gv_nextWaitId s" "gv_toolInUse s' = gv_toolInUse s"
    "gv_principalInUse s' = gv_principalInUse s" "env_counters s' = env_counters s"
    using arm by (auto simp: env_runAfter_def split_beta)
  have "waiter_ok s' ts w" if "waiter_ok s ts w" for ts w
    using that tm s' by (auto simp: waiter_ok_def)
  then have "queues_ok s'" using ok tm s' by (simp add: queues_ok_def)
  then show ?thesis using inv slots_ok_cong [of s' s H] s' by (simp add: gov_inv_def)
qed

definition call_permits :: "'j World \<Rightarrow> Permit multiset" where
  "call_permits w = mset (map (\<lambda>x. snd (snd x)) (calls_part w))"

text \<open>\<^verbatim>\<open>Gateway::start\<close> arms two periodic timers, the probes (1) and the refresh of the grants (2);
  every later timer fires once.\<close>

definition kBootTimers :: nat where "kBootTimers = 3"

definition boot_ok :: "(timer_cb, 'p) EventLoop \<Rightarrow> bool" where
  "boot_ok el \<longleftrightarrow>
     kBootTimers \<le> el_nextTimerId el \<and>
     (\<forall>t \<in> set (el_timers el). tm_interval t > 0 \<longrightarrow> tm_id t < kBootTimers) \<and>
     (\<forall>i < kBootTimers. \<forall>cb. um_find (el_timerCbs el) i = Some cb \<longrightarrow> cb = TProbe \<or> cb = TGrantRefresh)"

definition promote_ok :: "'j World \<Rightarrow> bool" where
  "promote_ok w \<longleftrightarrow>
     (\<forall>a t p. (a, t, p) \<in> set (calls_part w) \<longrightarrow> t \<noteq> 0 \<longrightarrow>
        kBootTimers \<le> t \<and> t < el_nextTimerId (env_loop w) \<and> (timerCb w t = None \<or> timerCb w t = Some (TPromote a)))"

definition calls_ok :: "'j World \<Rightarrow> bool" where
  "calls_ok w \<longleftrightarrow> distinct (map fst (calls_part w)) \<and> (\<forall>a \<in> set (map fst (calls_part w)). a < w_nextCall w)"

text \<open>The invariant of the world, where the permits \<open>H\<close> are on their way to a continuation and all
  others belong to the calls.\<close>

definition winv :: "Permit multiset \<Rightarrow> 'j World \<Rightarrow> bool" where
  "winv H w \<longleftrightarrow> gov_inv (H + call_permits w) w \<and> calls_ok w \<and> promote_ok w \<and> boot_ok (env_loop w)"

lemma winv_shape:
  assumes "shape w' = shape w"
  shows "winv H w' = winv H w"
proof -
  have l: "loop_part (env_loop w') = loop_part (env_loop w)" and g: "gov_part w' = gov_part w"
    and c: "calls_part w' = calls_part w" "w_nextCall w' = w_nextCall w"
    using assms by (simp_all add: shape_def)
  then have "el_wf (env_loop w') = el_wf (env_loop w)" by (simp add: loop_part_def el_wf_def)
  then show ?thesis
    using l g c
    by (simp add: winv_def gov_inv_def slots_ok_def queues_ok_def waiter_ok_def permitHeld_def call_permits_def
        calls_ok_def promote_ok_def boot_ok_def gov_part_def loop_part_def)
qed

lemma shape_permits: "shape w' = shape w \<Longrightarrow> call_permits w' = call_permits w"
  by (simp add: shape_def call_permits_def)

lemma shape_waiting: "shape w' = shape w \<Longrightarrow> waiting w' = waiting w"
  by (simp add: shape_def gov_part_def waiting_def)

lemma calls_part_mem: "um_find (w_calls w) a = Some c \<Longrightarrow> (a, cl_promoteTimer c, cl_permit c) \<in> set (calls_part w)"
  by (force simp: calls_part_def dest: map_of_SomeD)

lemma calls_part_find:
  assumes "calls_ok w" "(a, t, p) \<in> set (calls_part w)" "um_find (w_calls w) a = Some c"
  shows "t = cl_promoteTimer c \<and> p = cl_permit c"
proof -
  have "distinct (map fst (calls_part w))" using assms(1) by (simp add: calls_ok_def)
  then show ?thesis
    using assms(2) calls_part_mem [OF assms(3)] by (metis eq_key_imp_eq_value prod.inject)
qed

lemma cancel_next: "el_nextTimerId (cancel_timer b i el) = el_nextTimerId el"
  by (simp add: cancel_timer_def cancelInLoop_def queueInLoop_def)

lemma cancel_timers: "el_timers (cancel_timer b i el) = el_timers el"
  by (simp add: cancel_timer_def cancelInLoop_def queueInLoop_def)

lemma winv_cancel_timer:
  assumes "winv H w" "um_find (w_calls w) a = Some c" "cl_promoteTimer c \<noteq> 0"
  shows "winv H (env_cancel (cl_promoteTimer c) w)"
proof -
  let ?t = "cl_promoteTimer c"
  have t: "?t < el_nextTimerId (env_loop w)" "timerCb w ?t = None \<or> timerCb w ?t = Some (TPromote a)"
    using assms calls_part_mem [OF assms(2)] by (auto simp: winv_def promote_ok_def)
  have wf: "el_wf (env_loop w)" using assms(1) by (simp add: winv_def gov_inv_def queues_ok_def)
  have "gov_inv (H + call_permits w) (env_cancel ?t w)"
    using assms(1) t by (intro gov_inv_env_cancel) (auto simp: winv_def)
  moreover have "calls_part (env_cancel ?t w) = calls_part w" "w_nextCall (env_cancel ?t w) = w_nextCall w"
    by (simp_all add: calls_part_def env_cancel_def)
  moreover have "promote_ok (env_cancel ?t w)"
    using assms(1) els.stop_bind [OF wf, of ?t] calculation(2)
    by (fastforce simp: winv_def promote_ok_def env_cancel_def cancel_next)
  moreover have "boot_ok (env_loop (env_cancel ?t w))"
    using assms(1) els.stop_bind [OF wf, of ?t]
    by (auto simp: winv_def boot_ok_def env_cancel_def cancel_next cancel_timers)
  ultimately show ?thesis using assms(1) by (simp add: winv_def call_permits_def calls_ok_def)
qed

lemma winv_arm:
  assumes "winv H w" "env_runAfter ms cb w = (i, w')"
  shows "winv H w'" "calls_part w' = calls_part w" "w_calls w' = w_calls w" "tokens w' = tokens w" "gov_part w' = gov_part w"
    "kBootTimers \<le> i \<and> i < el_nextTimerId (env_loop w') \<and> timerCb w' i = Some cb"
proof -
  have wf: "el_wf (env_loop w)" using assms(1) by (simp add: winv_def gov_inv_def queues_ok_def)
  note tm = env_runAfter_props [OF wf assms(2)]
  show c: "calls_part w' = calls_part w" "w_calls w' = w_calls w" "tokens w' = tokens w" "gov_part w' = gov_part w"
    using assms(2) by (auto simp: env_runAfter_def split_beta calls_part_def tokens_def gov_part_def)
  have nx: "el_nextTimerId (env_loop w') = Suc (el_nextTimerId (env_loop w))" "w_nextCall w' = w_nextCall w"
    using assms(2) by (auto simp: env_runAfter_def split_beta runAfter_simps [OF el_wf_looping [OF wf]] insertTimer_def)
  have "gov_inv (H + call_permits w) w'"
    using assms by (intro gov_inv_env_runAfter [OF _ assms(2)]) (simp add: winv_def)
  moreover have "promote_ok w'"
    using assms(1) tm c(1) nx by (fastforce simp: winv_def promote_ok_def)
  moreover have b: "kBootTimers \<le> i" using assms(1) tm by (simp add: winv_def boot_ok_def)
  have "set (el_timers (env_loop w')) \<subseteq> insert \<lparr>tm_when = env_steady w (env_clk w) + env_delayNs w ms, tm_interval = 0, tm_id = i\<rparr> (set (el_timers (env_loop w)))"
    using assms(2) by (auto simp: env_runAfter_def split_beta runAfter_simps [OF el_wf_looping [OF wf]] insertTimer_def)
  then have "boot_ok (env_loop w')"
    using assms(1) tm b nx by (fastforce simp: winv_def boot_ok_def)
  ultimately show "winv H w'" using assms(1) c nx by (simp add: winv_def call_permits_def calls_ok_def)
  show "kBootTimers \<le> i \<and> i < el_nextTimerId (env_loop w') \<and> timerCb w' i = Some cb" using tm nx b by simp
qed

lemma map_um_set_at:
  "um_find m a = Some c \<Longrightarrow> distinct (map fst m) \<Longrightarrow>
   map g (um_set a c' m) = map (\<lambda>x. if fst x = a then g (a, c') else g x) m"
proof (induction m)
  case (Cons x m)
  then show ?case by (cases x) (auto simp: image_iff)
qed simp

lemma upd_promote_frames:
  "tokens (upd_call a (\<lambda>c. c\<lparr>cl_promoteTimer := t\<rparr>) w) = tokens w"
  "gov_part (upd_call a (\<lambda>c. c\<lparr>cl_promoteTimer := t\<rparr>) w) = gov_part w"
  by (auto simp: upd_call_def gov_part_def tokens_def map_um_set_same open_token_def split: option.splits)

text \<open>A new value of the promote timer field.\<close>

lemma winv_set_promote:
  assumes "winv H w" "t \<noteq> 0 \<longrightarrow> kBootTimers \<le> t \<and> t < el_nextTimerId (env_loop w) \<and> (timerCb w t = None \<or> timerCb w t = Some (TPromote a))"
  shows "winv H (upd_call a (\<lambda>c. c\<lparr>cl_promoteTimer := t\<rparr>) w)"
proof -
  let ?w = "upd_call a (\<lambda>c. c\<lparr>cl_promoteTimer := t\<rparr>) w"
  show "winv H ?w"
  proof (cases "um_find (w_calls w) a")
    case (Some c)
    have d: "distinct (map fst (w_calls w))"
      using assms(1) by (simp add: winv_def calls_ok_def calls_part_def o_def case_prod_beta)
    have cp: "calls_part ?w = map (\<lambda>x. if fst x = a then (a, t, cl_permit c) else (case x of (b, d) \<Rightarrow> (b, cl_promoteTimer d, cl_permit d))) (w_calls w)"
      using Some d by (simp add: upd_call_def calls_part_def map_um_set_at)
    have same: "map (\<lambda>x. snd (snd x)) (calls_part ?w) = map (\<lambda>x. snd (snd x)) (calls_part w)" "map fst (calls_part ?w) = map fst (calls_part w)"
      using Some by (simp_all add: upd_call_def calls_part_def map_um_set_same [OF Some])
    have env: "env_loop ?w = env_loop w" "w_nextCall ?w = w_nextCall w" using Some by (simp_all add: upd_call_def)
    have "promote_ok ?w"
      using assms unfolding promote_ok_def cp env winv_def
      by (auto simp: calls_part_def case_prod_beta split: if_splits)
    moreover have "gov_inv (H + call_permits ?w) ?w = gov_inv (H + call_permits w) w"
      using Some same(1)
      by (simp add: upd_call_def call_permits_def gov_inv_def slots_ok_def queues_ok_def waiter_ok_def permitHeld_def)
    moreover have "calls_ok ?w = calls_ok w"
      unfolding calls_ok_def env same(2) ..
    ultimately show ?thesis using assms(1) env by (simp add: winv_def)
  qed (use assms(1) in \<open>simp add: upd_call_def\<close>)
qed

text \<open>Operations that do not touch the governor: they keep the invariant and the tokens.\<close>

definition keeps :: "'j World \<Rightarrow> 'j World \<Rightarrow> bool" where
  "keeps w w' \<longleftrightarrow> tokens w' = tokens w \<and> gov_part w' = gov_part w \<and> (\<forall>H. winv H w \<longrightarrow> winv H w')"

lemma keeps_refl [simp]: "keeps w w"
  by (simp add: keeps_def)

lemma keeps_trans [trans]: "keeps w w' \<Longrightarrow> keeps w' w'' \<Longrightarrow> keeps w w''"
  by (simp add: keeps_def)

lemma keeps_shape: "shape w' = shape w \<Longrightarrow> tokens w' = tokens w \<Longrightarrow> keeps w w'"
  using winv_shape by (auto simp: keeps_def shape_def)

lemma keeps_arm: "keeps w (armPromote a w)"
proof (cases "um_find (w_calls w) a")
  case (Some c)
  define ms where "ms = (let ms1 = (if health_state (w_health w) (tk_backend (cl_key c)) = Degraded
      then cf_promoteAfterMs (w_cfg w) div 2 else cf_promoteAfterMs (w_cfg w)) in if ms1 = 0 then 1 else ms1)"
  obtain tid w1 where arm: "env_runAfter ms (TPromote a) w = (tid, w1)" by (cases "env_runAfter ms (TPromote a) w")
  have eq: "armPromote a w = upd_call a (\<lambda>c. c\<lparr>cl_promoteTimer := tid\<rparr>) w1"
    using Some arm by (simp add: armPromote_def ms_def Let_def split_beta)
  have "tokens w1 = tokens w" "gov_part w1 = gov_part w"
    using arm by (auto simp: env_runAfter_def split_beta tokens_def gov_part_def)
  moreover have "winv H (armPromote a w)" if "winv H w" for H
    unfolding eq using winv_arm [OF that arm] by (intro winv_set_promote) auto
  ultimately show ?thesis by (simp add: keeps_def eq upd_promote_frames)
qed (simp add: armPromote_def)

lemma keeps_cancel_promote: "keeps w (cancel_promote a w)"
proof (cases "um_find (w_calls w) a")
  case (Some c)
  show ?thesis
  proof (cases "cl_promoteTimer c = 0")
    case False
    have "tokens (env_cancel t w) = tokens w" "gov_part (env_cancel t w) = gov_part w" for t
      by (simp_all add: tokens_def gov_part_def env_cancel_def)
    moreover have "winv H (cancel_promote a w)" if "winv H w" for H
      using winv_set_promote [OF winv_cancel_timer [OF that Some False], of 0 a] Some False
      by (simp add: cancel_promote_def)
    ultimately show ?thesis using Some False by (simp add: keeps_def cancel_promote_def upd_promote_frames)
  qed (simp add: cancel_promote_def Some)
qed (simp add: cancel_promote_def)

lemma keeps_upstream_final: "keeps w (upstream_final J a r w)"
proof (cases "um_find (w_calls w) a")
  case (Some c)
  let ?u = "upd_call a (\<lambda>c. c\<lparr>cl_upstreamDone := True\<rparr>) w"
  have "keeps w ?u" by (rule keeps_shape) (simp_all add: upd_call_frames)
  also have "keeps ?u (cancel_promote a ?u)" by (rule keeps_cancel_promote)
  also have "keeps (cancel_promote a ?u) (upstream_final J a r w)"
    using Some by (intro keeps_shape) (simp_all add: upstream_final_def Let_def)
  finally show ?thesis .
qed (simp add: upstream_final_def)

lemma keeps_onUpstream_with:
  assumes "\<And>w w'. retry w = Inr w' \<Longrightarrow> keeps w w'" "onUpstream_with J retry a r w = Inr w'"
  shows "keeps w w'"
proof (cases "um_find (w_calls w) a")
  case (Some c)
  define w1 where "w1 = (if cl_upSpanLive c
     then upd_call a (\<lambda>c. c\<lparr>cl_upSpanLive := False\<rparr>) (trace_end J (cl_upTrace c) (r_klass r) (r_upstreamMs r) w) else w)"
  define w3 where "w3 = snd (nowMs (snd (circuit_record a r w1)))"
  have 1: "keeps w w1" by (rule keeps_shape) (simp_all add: w1_def upd_call_frames)
  have 3: "keeps w w3" by (rule keeps_trans [OF 1 keeps_shape]) (simp_all add: w3_def)
  have u: "keeps w (upd_call a (\<lambda>c. c\<lparr>cl_upstreamDone := True\<rparr>) w1)"
    by (rule keeps_trans [OF 1 keeps_shape]) (simp_all add: upd_call_frames)
  have "\<exists>b. onUpstream_with J retry a r w =
      (if cl_cancelled c then Inr (upd_call a (\<lambda>c. c\<lparr>cl_upstreamDone := True\<rparr>) w1)
       else if b then retry w3 else Inr (upstream_final J a r w3))"
    unfolding onUpstream_with_def Some option.case Let_def split_beta w1_def [symmetric] w3_def [symmetric]
    by (rule exI) (rule refl)
  then consider "w' = upd_call a (\<lambda>c. c\<lparr>cl_upstreamDone := True\<rparr>) w1" | "retry w3 = Inr w'" | "w' = upstream_final J a r w3"
    using assms(2) by (auto split: if_splits)
  then show ?thesis
    using u keeps_trans [OF 3 assms(1)] keeps_trans [OF 3 keeps_upstream_final] by cases auto
qed (use assms(2) in \<open>simp add: onUpstream_with_def\<close>)

lemma keeps_fireAttempt: "fireAttempt J fuel a w = Inr w' \<Longrightarrow> keeps w w'"
proof (induction fuel arbitrary: w w')
  case (Suc fuel)
  show ?case
  proof (cases "um_find (w_calls w) a")
    case (Some c)
    show ?thesis
    proof (cases "Catalog_backend (w_catalog w) (tk_backend (cl_key c))")
      case None
      then show ?thesis using Suc.prems Some by (auto intro: keeps_onUpstream_with [OF Suc.IH])
    next
      case be: (Some be)
      let ?w1 = "upd_call a (\<lambda>c. c\<lparr>cl_attempt := cl_attempt c + 1\<rparr>) w"
      let ?w2 = "if cl_attempt c + 1 = 1 then armPromote a ?w1 else ?w1"
      have "keeps w ?w1" by (rule keeps_shape) (simp_all add: upd_call_frames)
      also have "keeps ?w1 ?w2" by (simp add: keeps_arm)
      also have "keeps ?w2 w'"
        using Suc.prems Some be by (intro keeps_shape) (auto simp: Let_def split_beta upd_call_frames)
      finally show ?thesis .
    qed
  qed (use Suc in simp)
qed simp

lemma keeps_onUpstream: "onUpstream J a r w = Inr w' \<Longrightarrow> keeps w w'"
  using keeps_onUpstream_with keeps_fireAttempt unfolding onUpstream_def by blast

end
