(* ===== verification/Admit.thy ===== *)
theory Admit
  imports Call
begin

text \<open>
  The hand-over between the governor and the calls: what it costs to start a call, to destroy
  one and to run the admissions that a released permit makes (the continuation of
  \<^verbatim>\<open>acquire\<close> in \<^verbatim>\<open>Pipeline::handleCall\<close> and \<^verbatim>\<open>Call::~Call\<close>). \<open>run_admits\<close> is the
  nesting of continuations that the code has on its call stack. Lemmas: every step keeps the
  world's invariant and the account of the requests that still wait for an answer
  (\<open>owed\<close>), and the nesting ends.
\<close>

section \<open>What the governor leaves alone\<close>

definition loop_ext :: "('p, 'z) Env_scheme \<Rightarrow> ('p, 'z) Env_scheme \<Rightarrow> bool" where
  "loop_ext s s' \<longleftrightarrow>
     el_nextTimerId (env_loop s) \<le> el_nextTimerId (env_loop s') \<and>
     (\<forall>t \<in> set (el_timers (env_loop s')). t \<in> set (el_timers (env_loop s)) \<or> tm_interval t = 0) \<and>
     (\<forall>t < el_nextTimerId (env_loop s). timerCb s' t = timerCb s t \<or> timerCb s' t = None)"

text \<open>\<open>gov_same\<close>: the states differ at most in the clock, the loop, the counters and the governor.\<close>

definition gov_same :: "('p, 'c, 'z) GovSt_scheme \<Rightarrow> ('p, 'c, 'z) GovSt_scheme \<Rightarrow> bool" where
  "gov_same s s' \<longleftrightarrow>
     (\<exists>c el n cfg tu pu qs i. s' = s\<lparr>env_clk := c, env_loop := el, env_counters := n, gv_cfg := cfg, gv_toolInUse := tu,
        gv_principalInUse := pu, gv_queues := qs, gv_nextWaitId := i\<rparr>)"

definition gov_step :: "('p, 'c, 'z) GovSt_scheme \<Rightarrow> ('p, 'c, 'z) GovSt_scheme \<Rightarrow> bool" where
  "gov_step s s' \<longleftrightarrow> loop_ext s s' \<and> gov_same s s'"

lemma gov_sameI:
  "s' = s\<lparr>env_clk := env_clk s', env_loop := env_loop s', env_counters := env_counters s', gv_cfg := gv_cfg s',
     gv_toolInUse := gv_toolInUse s', gv_principalInUse := gv_principalInUse s', gv_queues := gv_queues s',
     gv_nextWaitId := gv_nextWaitId s'\<rparr> \<Longrightarrow> gov_same s s'"
  unfolding gov_same_def by blast

lemma gov_same_trans: "gov_same s s' \<Longrightarrow> gov_same s' s'' \<Longrightarrow> gov_same s s''"
  unfolding gov_same_def by (elim exE) (simp, blast)

lemma loop_ext_trans: "loop_ext s s' \<Longrightarrow> loop_ext s' s'' \<Longrightarrow> loop_ext s s''"
  unfolding loop_ext_def by (metis order.trans order.strict_trans2)

lemma gov_step_refl [simp]: "gov_step s s"
  by (simp add: gov_step_def loop_ext_def gov_sameI)

lemma gov_step_trans [trans]: "gov_step s s' \<Longrightarrow> gov_step s' s'' \<Longrightarrow> gov_step s s''"
  unfolding gov_step_def using loop_ext_trans gov_same_trans by blast

lemma gov_step_same: "env_loop s' = env_loop s \<Longrightarrow> gov_same s s' \<Longrightarrow> gov_step s s'"
  by (simp add: gov_step_def loop_ext_def)

lemma gov_step_nowMs: "gov_step s (snd (nowMs s))"
  by (rule gov_step_same, simp add: nowMs_def, rule gov_sameI) (simp add: nowMs_def)

lemma gov_step_issue: "gov_step s (snd (issue k a s))"
  by (rule gov_step_same, simp add: issue_def take_slot_def, rule gov_sameI) (simp add: issue_def take_slot_def)

lemma gov_step_dropWaiter: "gov_step s (dropWaiter ts w q s)"
  unfolding gov_step_def
proof
  show "loop_ext s (dropWaiter ts w q s)"
    by (auto simp: loop_ext_def dropWaiter_def env_cancel_def cancel_timer_def cancelInLoop_def
        queueInLoop_def um_find_erase Let_def)
  show "gov_same s (dropWaiter ts w q s)"
    by (rule gov_sameI) (simp add: dropWaiter_def env_cancel_def Let_def)
qed

lemma gov_step_tryDequeue_loop: "gov_step s (snd (tryDequeue_loop ts q s))"
proof (induction q arbitrary: s)
  case (Cons w q)
  have 1: "gov_step s (snd (nowMs (dropWaiter ts w q s)))"
    by (rule gov_step_trans [OF gov_step_dropWaiter gov_step_nowMs])
  show ?case
    using gov_step_trans [OF 1 Cons.IH] gov_step_trans [OF 1 gov_step_issue]
    by (simp add: split_beta Let_def)
qed simp

lemma gov_step_releaseSlot: "gov_step s (snd (releaseSlot k a s))"
  unfolding releaseSlot_def tryDequeue_def Let_def
  by (rule gov_step_trans [OF gov_step_same gov_step_tryDequeue_loop], simp, rule gov_sameI) simp

lemma gov_step_drainQueue: "gov_step s (snd (drainQueue ts q s))"
proof (induction q arbitrary: s)
  case (Cons w q)
  show ?case
    using gov_step_trans [OF gov_step_dropWaiter Cons.IH] by (simp add: split_beta Let_def)
qed simp

lemma gov_step_drainQueues: "gov_step s (snd (drainQueues m s))"
proof (induction m arbitrary: s)
  case (Cons x m)
  show ?case
    using gov_step_trans [OF gov_step_drainQueue Cons.IH] by (cases x) (simp add: split_beta Let_def)
qed simp

lemma gov_step_rejectAllQueued: "gov_step s (snd (rejectAllQueued s))"
  by (simp add: rejectAllQueued_def gov_step_drainQueues)

lemma gov_step_runAfter: "gov_step s (snd (env_runAfter ms cb s))"
  unfolding gov_step_def
proof
  show "loop_ext s (snd (env_runAfter ms cb s))"
    by (auto simp: loop_ext_def env_runAfter_def runAfter_def runTimer_def insertTimer_def queueInLoop_def
        um_find_set split_beta Let_def)
  show "gov_same s (snd (env_runAfter ms cb s))"
    by (rule gov_sameI) (simp add: env_runAfter_def split_beta)
qed

lemma gov_step_set:
  "gov_step s (s\<lparr>gv_nextWaitId := n\<rparr>)" "gov_step s (s\<lparr>gv_queues := x\<rparr>)"
  by (rule gov_step_same, simp, rule gov_sameI, simp)+

lemma gov_step_acquire: "gov_step s (snd (acquire who key d c s))"
proof -
  have r: "gov_step s ((snd (env_runAfter ms cb ((snd (nowMs s))\<lparr>gv_nextWaitId := n\<rparr>)))\<lparr>gv_queues := x\<rparr>)" for ms cb n x
    by (rule gov_step_trans [OF gov_step_nowMs gov_step_trans [OF gov_step_set(1)
        gov_step_trans [OF gov_step_runAfter gov_step_set(2)]]])
  show ?thesis
    using gov_step_issue [of s key "p_agentId who"] gov_step_nowMs [of s] r
    by (simp add: acquire_def Let_def split_beta)
qed

lemma gov_step_onQueueTimeout: "gov_step s (snd (onQueueTimeout ts i s))"
  by (simp add: onQueueTimeout_def Let_def gov_step_set split: option.splits)

section \<open>The account of a world\<close>

abbreviation ctok :: "'j acont \<Rightarrow> nat" where
  "ctok k \<equiv> fi_token (ac_done k)"

text \<open>The requests that were answered, that a call will answer, and that wait for admission.\<close>

definition owed :: "'j World \<Rightarrow> nat multiset" where
  "owed w = tokens w + image_mset ctok (waiting w)"

text \<open>A pending list of admissions with its world: the permits \<open>H\<close> are someone else's, \<open>T\<close> is the
  account.\<close>

definition pres :: "Permit multiset \<Rightarrow> nat multiset \<Rightarrow> 'j acont admission list \<times> 'j World \<Rightarrow> bool" where
  "pres H T r \<longleftrightarrow>
     winv (H + ev_permits (fst r)) (snd r) \<and> ev_ok (fst r) \<and>
     owed (snd r) + image_mset ctok (mset (map fst (fst r))) = T"

lemma gov_same_world:
  fixes w w' :: "'j World"
  assumes "gov_same w w'"
  shows "w_calls w' = w_calls w" "w_outs w' = w_outs w" "w_nextCall w' = w_nextCall w" "w_circuit w' = w_circuit w"
    "w_inflight w' = w_inflight w" "ob_pool w' = ob_pool w" "w_stopping w' = w_stopping w" "w_running w' = w_running w"
    "w_live w' = w_live w" "w_tasks w' = w_tasks w" "w_catalog w' = w_catalog w" "w_cfg w' = w_cfg w"
  using assms unfolding gov_same_def by (elim exE, simp)+

lemmas gov_step_world = gov_same_world [OF conjunct2 [OF iffD1 [OF gov_step_def]]]

lemma boot_ok_ext:
  assumes "boot_ok (env_loop s)" "loop_ext s s'"
  shows "boot_ok (env_loop s')"
  unfolding boot_ok_def
proof (intro conjI ballI impI allI)
  have n: "kBootTimers \<le> el_nextTimerId (env_loop s)" "el_nextTimerId (env_loop s) \<le> el_nextTimerId (env_loop s')"
    using assms by (simp_all add: boot_ok_def loop_ext_def)
  then show "kBootTimers \<le> el_nextTimerId (env_loop s')" by simp
  show "tm_id t < kBootTimers" if "t \<in> set (el_timers (env_loop s'))" "0 < tm_interval t" for t
    using that assms by (auto simp: boot_ok_def loop_ext_def)
  show "cb = TProbe \<or> cb = TGrantRefresh" if "i < kBootTimers" "timerCb s' i = Some cb" for i cb
  proof -
    have "timerCb s' i = timerCb s i \<or> timerCb s' i = None" using that(1) n(1) assms(2) by (simp add: loop_ext_def)
    then show ?thesis using that assms(1) by (auto simp: boot_ok_def)
  qed
qed

text \<open>An operation of the governor inside the world.\<close>

lemma pres_gov:
  fixes w :: "'j World"
  assumes inv: "winv H0 w" and res: "gov_result (H + call_permits w) R r" and stp: "gov_step w (snd r)"
  shows "pres H (tokens w + image_mset ctok R) r"
proof -
  note same = gov_step_world [OF stp]
  have cp: "calls_part (snd r) = calls_part w" using same by (simp add: calls_part_def)
  then have perm: "call_permits (snd r) = call_permits w" by (simp add: call_permits_def)
  have tok: "tokens (snd r) = tokens w" using same by (simp add: tokens_def)
  have "promote_ok (snd r)"
    unfolding promote_ok_def cp
  proof (intro allI impI)
    fix a t p assume "(a, t, p) \<in> set (calls_part w)" "t \<noteq> 0"
    then have "kBootTimers \<le> t" "t < el_nextTimerId (env_loop w)" "timerCb w t = None \<or> timerCb w t = Some (TPromote a)"
      using inv unfolding winv_def promote_ok_def by blast+
    then show "kBootTimers \<le> t \<and> t < el_nextTimerId (env_loop (snd r)) \<and> (timerCb (snd r) t = None \<or> timerCb (snd r) t = Some (TPromote a))"
      using stp by (auto simp: gov_step_def loop_ext_def)
  qed
  moreover have "boot_ok (env_loop (snd r))"
    using inv stp boot_ok_ext [of w "snd r"] by (simp add: winv_def gov_step_def)
  moreover have "calls_ok (snd r)" using inv same cp by (simp add: winv_def calls_ok_def)
  moreover have "gov_inv (H + ev_permits (fst r) + call_permits (snd r)) (snd r)"
    using res perm by (simp add: gov_result_def ac_simps)
  moreover have "owed (snd r) + image_mset ctok (mset (map fst (fst r))) = tokens w + image_mset ctok R"
  proof -
    have "R = waiting (snd r) + mset (map fst (fst r))" using res by (simp add: gov_result_def)
    then show ?thesis by (simp only: owed_def tok image_mset_union add.assoc)
  qed
  ultimately show ?thesis using res by (simp add: pres_def winv_def gov_result_def)
qed

lemma pres_release:
  assumes "winv (add_mset p H) w"
  shows "pres H (owed w) (releaseSlot (pm_key p) (pm_agentId p) w)"
proof -
  have "gov_inv (add_mset p (H + call_permits w)) w" using assms by (simp add: winv_def)
  from releaseSlot_result [OF this, of p] have "gov_result (H + call_permits w) (waiting w) (releaseSlot (pm_key p) (pm_agentId p) w)"
    by simp
  from pres_gov [OF assms this gov_step_releaseSlot] show ?thesis by (simp add: owed_def)
qed

lemma keeps_owed: "keeps w w' \<Longrightarrow> owed w' = owed w \<and> waiting w' = waiting w"
  by (simp add: keeps_def owed_def gov_part_def waiting_def)

lemma keeps_winv: "keeps w w' \<Longrightarrow> winv H w \<Longrightarrow> winv H w'"
  by (simp add: keeps_def)

section \<open>Destruction\<close>

text \<open>A destroyed call has answered, its permit goes back.\<close>

lemma responded_after_respond:
  "um_find (w_calls w) a = Some c \<Longrightarrow>
   \<exists>c'. um_find (w_calls (respond J a r w)) a = Some c' \<and> cl_responded c' \<and> cl_permit c' = cl_permit c"
  by (auto simp: respond_def upd_call_def Let_def split_beta um_find_set split: option.splits)

lemma erase_call:
  assumes inv: "winv H w" and c: "um_find (w_calls w) a = Some c" "cl_responded c"
  defines "w' \<equiv> w\<lparr>w_calls := um_erase a (w_calls w)\<rparr>"
  shows "winv (add_mset (cl_permit c) H) w'" "owed w' = owed w"
proof -
  have d: "distinct (map fst (w_calls w))"
    using inv by (simp add: winv_def calls_ok_def calls_part_def o_def case_prod_beta)
  have split: "\<exists>xs ys. m = xs @ (a, c) # ys \<and> um_erase a m = xs @ ys"
    if "distinct (map fst m)" "um_find m a = Some c" for m :: "(nat, 'a Call) umap"
    using that
  proof (induction m)
    case (Cons x m)
    show ?case
    proof (cases "fst x = a")
      case True
      then have "um_erase a m = m" using Cons.prems(1)
        by (auto simp: AList.delete_eq filter_id_conv image_iff)
      then show ?thesis using True Cons.prems(2) by (cases x) (force intro: exI [of _ "[]"])
    next
      case False
      then obtain xs ys where "m = xs @ (a, c) # ys" "um_erase a m = xs @ ys"
        using Cons by (cases x) (auto split: if_splits)
      then show ?thesis using False by (cases x) (auto intro: exI [of _ "x # xs"])
    qed
  qed simp
  obtain xs ys where xy: "w_calls w = xs @ (a, c) # ys" "w_calls w' = xs @ ys"
    using split [OF d c(1)] by (auto simp: w'_def)
  have g: "gov_part w' = gov_part w" "env_loop w' = env_loop w" "w_nextCall w' = w_nextCall w" "w_outs w' = w_outs w"
    by (simp_all add: w'_def gov_part_def)
  have "tokens w' = tokens w" using xy c(2) g by (simp add: tokens_def open_token_def)
  then show "owed w' = owed w" using g by (simp add: owed_def gov_part_def waiting_def)
  have perm: "call_permits w = add_mset (cl_permit c) (call_permits w')"
    by (simp add: call_permits_def calls_part_def xy)
  have "gov_inv (add_mset (cl_permit c) H + call_permits w') w' = gov_inv (H + call_permits w) w"
    using g perm by (simp add: gov_inv_def slots_ok_def queues_ok_def waiter_ok_def permitHeld_def gov_part_def)
  moreover have "calls_ok w'" using inv g by (auto simp: winv_def calls_ok_def calls_part_def xy)
  moreover have "promote_ok w'"
    using inv g unfolding winv_def promote_ok_def by (auto simp: calls_part_def xy)
  ultimately show "winv (add_mset (cl_permit c) H) w'" using inv g by (simp add: winv_def)
qed

text \<open>The state in which the destructor hands the permit back.\<close>

definition closedCall :: "'j json_api \<Rightarrow> nat \<Rightarrow> 'j Call \<Rightarrow> 'j World \<Rightarrow> 'j World" where
  "closedCall J a c w =
    (let w1 = (if cl_promoteTimer c \<noteq> 0 then env_cancel (cl_promoteTimer c) w else w);
         w2 = (if cl_upSpanLive c then (let (now, w2) = nowMs w1 in trace_end J (cl_upTrace c) Cancelled (now - cl_t0 c) w2) else w1)
     in if \<not> cl_responded c then respond J a (cancelledAnswer J) w2 else w2)"

definition forgotCall :: "'j Call \<Rightarrow> 'j World \<Rightarrow> 'j World" where
  "forgotCall c w3 =
    (let w4 = (if cl_inflightId c \<noteq> []
               then (let (f, w4) = InFlight_erase (cl_inflightId c) (w_inflight w3) w3 in w4\<lparr>w_inflight := f\<rparr>) else w3);
         w5 = (if cl_taskId c \<noteq> [] then w4\<lparr>w_byTask := um_erase (cl_taskId c) (w_byTask w4)\<rparr> else w4)
     in if cl_inflightId c \<noteq> [] then w5\<lparr>w_live := um_erase (cl_inflightId c) (w_live w5)\<rparr> else w5)"

lemma destroyCall_parts:
  assumes "um_find (w_calls w) a = Some c"
  shows "destroyCall J a w =
    (let w6 = forgotCall c (closedCall J a c w)
     in releaseSlot (pm_key (cl_permit c)) (pm_agentId (cl_permit c)) (w6\<lparr>w_calls := um_erase a (w_calls w6)\<rparr>))"
  unfolding destroyCall_def assms option.case forgotCall_def closedCall_def Let_def ..

lemma keeps_closedCall:
  assumes "um_find (w_calls w) a = Some c"
  shows "keeps w (closedCall J a c w)"
    and "\<exists>c'. um_find (w_calls (closedCall J a c w)) a = Some c' \<and> cl_responded c' \<and> cl_permit c' = cl_permit c"
proof -
  define w1 where "w1 = (if cl_promoteTimer c \<noteq> 0 then env_cancel (cl_promoteTimer c) w else w)"
  define w2 where "w2 = (if cl_upSpanLive c then trace_end J (cl_upTrace c) Cancelled (fst (nowMs w1) - cl_t0 c) (snd (nowMs w1)) else w1)"
  have eq: "closedCall J a c w = (if \<not> cl_responded c then respond J a (cancelledAnswer J) w2 else w2)"
    by (simp add: closedCall_def w1_def w2_def Let_def split_beta)
  have "tokens (env_cancel t w) = tokens w" "gov_part (env_cancel t w) = gov_part w" "w_calls (env_cancel t w) = w_calls w" for t
    by (simp_all add: tokens_def gov_part_def env_cancel_def)
  then have 1: "keeps w w1" "w_calls w1 = w_calls w"
    using winv_cancel_timer [OF _ assms] by (auto simp: w1_def keeps_def)
  have "keeps w1 w2" by (rule keeps_shape) (simp_all add: w2_def)
  then have 2: "keeps w w2" using 1 keeps_trans by blast
  have c2: "um_find (w_calls w2) a = Some c" using assms 1 by (simp add: w2_def)
  have "keeps w2 (closedCall J a c w)" by (rule keeps_shape) (simp_all add: eq)
  then show "keeps w (closedCall J a c w)" using 2 keeps_trans by blast
  show "\<exists>c'. um_find (w_calls (closedCall J a c w)) a = Some c' \<and> cl_responded c' \<and> cl_permit c' = cl_permit c"
    using responded_after_respond [OF c2] c2 by (auto simp: eq)
qed

lemma keeps_forgotCall: "keeps w (forgotCall c w)" "w_calls (forgotCall c w) = w_calls w"
proof -
  have i: "shape (snd (InFlight_erase i f w)) = shape w" "tokens (snd (InFlight_erase i f w)) = tokens w"
    "w_calls (snd (InFlight_erase i f w)) = w_calls w" for i f and w :: "'a World"
    by (simp_all add: InFlight_erase_def shape_def gov_part_def calls_part_def tokens_def)
  show "keeps w (forgotCall c w)"
    by (rule keeps_shape) (simp_all add: forgotCall_def Let_def split_beta i)
  show "w_calls (forgotCall c w) = w_calls w" by (simp add: forgotCall_def Let_def split_beta i)
qed

lemma pres_destroyCall:
  assumes "winv H w"
  shows "pres H (owed w) (destroyCall J a w)"
proof (cases "um_find (w_calls w) a")
  case None
  then show ?thesis using assms by (simp add: destroyCall_def pres_def)
next
  case (Some c)
  let ?w6 = "forgotCall c (closedCall J a c w)"
  obtain c' where c': "um_find (w_calls ?w6) a = Some c'" "cl_responded c'" "cl_permit c' = cl_permit c"
    using keeps_closedCall(2) [OF Some] keeps_forgotCall(2) by metis
  have k: "keeps w ?w6" by (rule keeps_trans [OF keeps_closedCall(1) [OF Some] keeps_forgotCall(1)])
  note e = erase_call [OF keeps_winv [OF k assms] c'(1,2)]
  from pres_release [OF e(1)] show ?thesis
    using e(2) keeps_owed [OF k] c'(3) by (simp add: destroyCall_parts [OF Some] Let_def)
qed

lemma pres_dropRef: "winv H w \<Longrightarrow> pres H (owed w) (dropRef J a w)"
  by (simp add: dropRef_def pres_destroyCall) (simp add: pres_def)

section \<open>Creation\<close>

lemma InFlight_insert_frames:
  fixes w :: "'j World"
  shows "shape (snd (snd (InFlight_insert ag key h sm now f w))) = shape w"
    "tokens (snd (snd (InFlight_insert ag key h sm now f w))) = tokens w"
  by (simp_all add: InFlight_insert_def env_randomHex_def Let_def split_beta shape_def gov_part_def calls_part_def tokens_def)

lemma um_set_new: "k \<notin> fst ` set m \<Longrightarrow> um_set k v m = m @ [(k, v)]"
  by (induction m) auto

text \<open>A new call holds the permit that was on its way and the continuation's token.\<close>

lemma add_call:
  fixes l
  assumes inv: "winv (add_mset (cl_permit c) H) w" and c: "cl_promoteTimer c = 0" "\<not> cl_responded c"
  defines "w' \<equiv> w\<lparr>w_calls := um_set (w_nextCall w) c (w_calls w), w_nextCall := Suc (w_nextCall w), w_live := l\<rparr>"
  shows "winv H w'" "tokens w' = add_mset (fi_token (cl_done c)) (tokens w)" "gov_part w' = gov_part w"
proof -
  let ?a = "w_nextCall w"
  have "?a \<notin> fst ` set (w_calls w)"
    using inv by (force simp: winv_def calls_ok_def calls_part_def)
  then have calls: "w_calls w' = w_calls w @ [(?a, c)]"
    unfolding w'_def using um_set_new by simp
  show g: "gov_part w' = gov_part w" by (simp add: w'_def gov_part_def)
  have e: "env_loop w' = env_loop w" "w_nextCall w' = Suc ?a" "w_outs w' = w_outs w" by (simp_all add: w'_def)
  show "tokens w' = add_mset (fi_token (cl_done c)) (tokens w)"
    using c e by (simp add: tokens_def calls open_token_def)
  have cp: "calls_part w' = calls_part w @ [(?a, 0, cl_permit c)]" using c by (simp add: calls_part_def calls)
  then have "gov_inv (H + call_permits w') w' = gov_inv (add_mset (cl_permit c) H + call_permits w) w"
    using g e by (simp add: call_permits_def gov_inv_def slots_ok_def queues_ok_def waiter_ok_def permitHeld_def gov_part_def)
  moreover have "calls_ok w'" using inv e cp by (force simp: winv_def calls_ok_def)
  moreover have "promote_ok w'" using inv e cp by (auto simp: winv_def promote_ok_def)
  ultimately show "winv H w'" using inv e by (simp add: winv_def)
qed

lemma newCall_result:
  assumes "winv (add_mset p H) w" "newCall J k p now w = (a, w')"
  shows "winv H w'" "owed w' = add_mset (ctok k) (owed w)" "waiting w' = waiting w"
proof -
  define ins where "ins = InFlight_insert (p_agentId (rq_who (ac_req k))) (ac_key k) (ac_hash k)
      (summaryOf J (rq_params (ac_req k))) now (w_inflight w) w"
  define w3 where "w3 = snd (nowMs ((snd (snd ins))\<lparr>w_inflight := fst (snd ins)\<rparr>))"
  have f: "shape w3 = shape w" "tokens w3 = tokens w"
    by (simp_all add: w3_def ins_def InFlight_insert_frames)
  then have inv3: "winv (add_mset p H) w3" using assms(1) winv_shape by blast
  have "\<exists>c l. w' = w3\<lparr>w_calls := um_set (w_nextCall w3) c (w_calls w3), w_nextCall := Suc (w_nextCall w3), w_live := l\<rparr> \<and>
      cl_permit c = p \<and> cl_promoteTimer c = 0 \<and> \<not> cl_responded c \<and> cl_done c = ac_done k"
    using assms(2) unfolding newCall_def Let_def split_beta ins_def [symmetric] w3_def [symmetric]
    by (auto intro!: exI)
  then obtain c l where w': "w' = w3\<lparr>w_calls := um_set (w_nextCall w3) c (w_calls w3), w_nextCall := Suc (w_nextCall w3), w_live := l\<rparr>"
    and c: "cl_permit c = p" "cl_promoteTimer c = 0" "\<not> cl_responded c" "cl_done c = ac_done k" by blast
  note r = add_call [of c H w3 l, OF _ c(2,3), folded w']
  show "winv H w'" using r(1) inv3 c(1) by simp
  have g: "waiting w' = waiting w" using r(3) inv3 c(1) f by (simp add: shape_def gov_part_def waiting_def)
  then show "waiting w' = waiting w" .
  show "owed w' = add_mset (ctok k) (owed w)" using r(2) inv3 c f g by (simp add: owed_def)
qed

section \<open>Admissions\<close>

lemma newCall_gov_part: "gov_part (snd (newCall J k p now w)) = gov_part w"
  by (simp add: newCall_def Let_def split_beta InFlight_insert_def env_randomHex_def nowMs_def gov_part_def)

lemma keeps_waiting: "keeps w w' \<Longrightarrow> waiting w' = waiting w"
  using keeps_owed by blast

lemma destroyCall_waiting:
  "size (waiting (snd (destroyCall J a w))) + length (fst (destroyCall J a w)) = size (waiting w)"
proof (cases "um_find (w_calls w) a")
  case (Some c)
  let ?w6 = "forgotCall c (closedCall J a c w)"
  let ?w7 = "?w6\<lparr>w_calls := um_erase a (w_calls ?w6)\<rparr>"
  have "waiting ?w7 = waiting w"
    using keeps_waiting [OF keeps_trans [OF keeps_closedCall(1) [OF Some] keeps_forgotCall(1)]]
    by (simp add: waiting_def)
  then show ?thesis
    using arg_cong [OF releaseSlot_waiting [of "pm_key (cl_permit c)" "pm_agentId (cl_permit c)" ?w7], of size]
    by (simp add: destroyCall_parts [OF Some] Let_def)
qed (simp add: destroyCall_def)

lemma dropRef_waiting: "size (waiting (snd (dropRef J a w))) + length (fst (dropRef J a w)) = size (waiting w)"
  by (simp add: dropRef_def destroyCall_waiting)

text \<open>The branches of \<open>onAdmit\<close>: refused, upstream not available, started.\<close>

definition refused :: "'j json_api \<Rightarrow> 'j acont \<Rightarrow> 'j World \<Rightarrow> 'j World" where
  "refused J k w =
     finish_call J (ac_done k) (answer J Throttled (callToolText J ''throttled'' True))
       (pipeline_audit ''throttled'' (ac_req k) Throttled (ToolKey_str (ac_key k))
         (w\<lparr>env_counters := (env_counters w)\<lparr>cn_throttled := cn_throttled (env_counters w) + 1\<rparr>\<rparr>))"

definition admit_open :: "'j acont \<Rightarrow> 'j World \<Rightarrow> bool \<times> u64 \<times> 'j World" where
  "admit_open k w =
    (let (now, w1) = nowMs w; (open1, cc) = isOpen (tk_backend (ac_key k)) now (w_circuit w1)
     in (open1 \<or> health_state (w_health w1) (tk_backend (ac_key k)) = Down, now, w1\<lparr>w_circuit := cc\<rparr>))"

definition unavailable :: "'j json_api \<Rightarrow> 'j acont \<Rightarrow> u64 \<Rightarrow> 'j World \<Rightarrow> 'j World" where
  "unavailable J k now w2 =
    (let (open2, cc2) = isOpen (tk_backend (ac_key k)) now (w_circuit w2);
         w3 = w2\<lparr>w_circuit := cc2\<rparr>;
         w4 = (if open2 then
                 pipeline_audit ''circuit_open'' (ac_req k) Unavailable (ToolKey_str (ac_key k))
                   (w3\<lparr>env_counters := (env_counters w3)\<lparr>cn_circuitOpen := cn_circuitOpen (env_counters w3) + 1\<rparr>\<rparr>)
               else w3)
     in finish_call J (ac_done k) (answer J Unavailable (callToolText J ''upstream unavailable'' True)) w4)"

lemma onAdmit_parts:
  "onAdmit J (k, adm, perm) w =
     (case (if adm = Go then perm else None) of
        None \<Rightarrow> Inr ([], refused J k w)
      | Some p \<Rightarrow>
          (case admit_open k w of
             (True, now, w2) \<Rightarrow> Inr (releaseSlot (pm_key p) (pm_agentId p) (unavailable J k now w2))
           | (False, now, w2) \<Rightarrow>
               (case newCall J k p now w2 of
                  (a, w3) \<Rightarrow> (case fireAttempt J kStack a w3 of Inl x \<Rightarrow> Inl x | Inr w4 \<Rightarrow> Inr (dropRef J a w4)))))"
  by (simp add: onAdmit_def admit_open_def refused_def unavailable_def Let_def split_beta split: option.splits sum.splits)

lemma counters_frames:
  fixes w :: "'j World"
  assumes "cn_permitHeld n = cn_permitHeld (env_counters w)"
  shows "shape (w\<lparr>env_counters := n\<rparr>) = shape w" "tokens (w\<lparr>env_counters := n\<rparr>) = tokens w"
  using assms by (simp_all add: shape_def gov_part_def calls_part_def tokens_def)

lemma branch_frames:
  "shape (refused J k w) = shape w" "tokens (refused J k w) = add_mset (ctok k) (tokens w)"
  "shape (snd (snd (admit_open k w))) = shape w" "tokens (snd (snd (admit_open k w))) = tokens w"
  "shape (unavailable J k now w) = shape w" "tokens (unavailable J k now w) = add_mset (ctok k) (tokens w)"
  by (simp_all add: refused_def admit_open_def unavailable_def Let_def split_beta counters_frames)

lemma owed_answered: "shape w' = shape w \<Longrightarrow> tokens w' = add_mset t (tokens w) \<Longrightarrow> owed w' = add_mset t (owed w)"
  by (drule shape_waiting) (simp add: owed_def)

lemma owed_shape: "shape w' = shape w \<Longrightarrow> tokens w' = tokens w \<Longrightarrow> owed w' = owed w"
  by (drule shape_waiting) (simp add: owed_def)

lemma onAdmit_pres:
  assumes inv: "winv (H + ev_permits [e]) w" and ok: "ev_ok [e]" and run: "onAdmit J e w = Inr r"
  shows "pres H (add_mset (ctok (fst e)) (owed w)) r"
proof -
  obtain k adm perm where e: "e = (k, adm, perm)" by (cases e)
  show ?thesis
  proof (cases perm)
    case None
    then have r: "r = ([], refused J k w)" using ok run by (simp add: e onAdmit_parts)
    have "winv H (refused J k w)" using inv None by (simp add: e winv_shape [OF branch_frames(1)])
    then show ?thesis
      using owed_answered [OF branch_frames(1,2), of J k w] by (simp add: r e pres_def)
  next
    case (Some p)
    obtain b now w2 where adm2: "admit_open k w = (b, now, w2)" by (cases "admit_open k w")
    have f2: "shape w2 = shape w" "tokens w2 = tokens w" using branch_frames(3,4) [of k w] adm2 by simp_all
    have inv2: "winv (add_mset p H) w2" using inv winv_shape [OF f2(1)] Some e by simp
    have owed2: "owed w2 = owed w" by (rule owed_shape [OF f2])
    have go: "adm = Go" using ok Some by (simp add: e)
    show ?thesis
    proof (cases b)
      case True
      have "winv (add_mset p H) (unavailable J k now w2)" using inv2 winv_shape [OF branch_frames(5)] by blast
      from pres_release [OF this] show ?thesis
        using run True go Some adm2 owed2 owed_answered [OF branch_frames(5,6), of J k now w2]
        by (auto simp: e onAdmit_parts)
    next
      case False
      obtain a w3 where new: "newCall J k p now w2 = (a, w3)" by (cases "newCall J k p now w2")
      obtain w4 where fire: "fireAttempt J kStack a w3 = Inr w4" and r: "r = dropRef J a w4"
        using run False go Some adm2 new by (auto simp: e onAdmit_parts split: sum.splits)
      note k4 = keeps_fireAttempt [OF fire]
      have "winv H w4" using keeps_winv [OF k4 newCall_result(1) [OF inv2 new]] .
      from pres_dropRef [OF this, of J a] show ?thesis
        using r keeps_owed [OF k4] newCall_result(2) [OF inv2 new] owed2 by (simp add: e)
    qed
  qed
qed

lemma onAdmit_waiting:
  assumes "onAdmit J e w = Inr (evs, w')"
  shows "size (waiting w') + length evs = size (waiting w)"
proof -
  obtain k adm perm where e: "e = (k, adm, perm)" by (cases e)
  show ?thesis
  proof (cases "if adm = Go then perm else None")
    case None
    then show ?thesis
      using assms shape_waiting [OF branch_frames(1), of J k w] unfolding e onAdmit_parts None by auto
  next
    case (Some p)
    obtain b now w2 where adm2: "admit_open k w = (b, now, w2)" by (cases "admit_open k w")
    have w2: "waiting w2 = waiting w" using shape_waiting [OF branch_frames(3), of k w] adm2 by simp
    show ?thesis
    proof (cases b)
      case True
      then have r: "releaseSlot (pm_key p) (pm_agentId p) (unavailable J k now w2) = (evs, w')"
        using assms Some adm2 unfolding e onAdmit_parts Some adm2 by simp
      show ?thesis
        using arg_cong [OF releaseSlot_waiting [of "pm_key p" "pm_agentId p" "unavailable J k now w2"], of size]
          shape_waiting [OF branch_frames(5), of J k now w2] w2 r by simp
    next
      case False
      obtain a w3 where new: "newCall J k p now w2 = (a, w3)" by (cases "newCall J k p now w2")
      obtain w4 where fire: "fireAttempt J kStack a w3 = Inr w4" and r: "dropRef J a w4 = (evs, w')"
        using assms False unfolding e onAdmit_parts Some adm2 by (auto simp: new split: sum.splits)
      have "waiting w3 = waiting w2" using newCall_gov_part [of J k p now w2] new by (simp add: gov_part_def waiting_def)
      then show ?thesis
        using dropRef_waiting [of J a w4] r keeps_waiting [OF keeps_fireAttempt [OF fire]] w2 by simp
    qed
  qed
qed

text \<open>The continuations run nested: the admissions that one of them makes come before the rest.\<close>

function run_admits :: "'j json_api \<Rightarrow> 'j acont admission list \<Rightarrow> 'j World \<Rightarrow> exn + 'j World" where
  "run_admits J [] w = Inr w"
| "run_admits J (e # es) w =
     (case onAdmit J e w of Inl x \<Rightarrow> Inl x | Inr (evs, w1) \<Rightarrow> run_admits J (evs @ es) w1)"
  by pat_completeness auto
termination
  by (relation "measure (\<lambda>(J, es, w). length es + size (waiting w))") (auto dest!: onAdmit_waiting)

lemma run_admits_pres:
  "pres H T (es, w) \<Longrightarrow> run_admits J es w = Inr w' \<Longrightarrow> winv H w' \<and> owed w' = T"
proof (induction J es w rule: run_admits.induct)
  case (2 J e es w)
  obtain evs w1 where ad: "onAdmit J e w = Inr (evs, w1)" and run: "run_admits J (evs @ es) w1 = Inr w'"
    using "2.prems"(2) by (auto split: sum.splits)
  have p: "winv (H + ev_permits es + ev_permits [e]) w" "ev_ok [e]" "ev_ok es"
    "owed w + image_mset ctok (mset (map fst (e # es))) = T"
    using "2.prems"(1) by (cases e, cases "snd (snd e)", auto simp: pres_def ac_simps)+
  have "pres (H + ev_permits es) (add_mset (ctok (fst e)) (owed w)) (evs, w1)" by (rule onAdmit_pres [OF p(1,2) ad])
  then have "pres H T (evs @ es, w1)" using p(3,4) by (auto simp: pres_def ac_simps)
  then show ?case using "2.IH" [OF ad refl] run by simp
qed (auto simp: pres_def)

end
