(* ===== verification/Pipeline.thy ===== *)
theory Pipeline
  imports Admit
begin

text \<open>
  The handlers of \<^verbatim>\<open>src/pipeline/Pipeline.cpp\<close>. A request carries a token, the name of the
  frontend's continuation \<^verbatim>\<open>onDone\<close>; calling it is an entry of \<open>w_outs\<close>. A C++ exception that
  leaves a handler is \<open>Inl\<close>. \<open>mt\<close> is the modification time the grant file gets when its line is
  written by the caller because no worker takes it. Lemmas: a handler keeps the world's invariant
  and adds exactly its request to the account; refused requests touch neither governor, table of
  calls nor workers.
\<close>

section \<open>Reading\<close>

definition listBody :: "'j json_api \<Rightarrow> Principal \<Rightarrow> 'j World \<Rightarrow> 'j \<times> 'j World" where
  "listBody J who w =
    (let tools = listTools J (w_index w) (visibilityFilter (w_catalog w)) who;
         ttl0 = (if ToolIndex_cold (w_index w) then 0 else cf_listTtlMs (w_cfg w));
         (now, w1) = nowMs w;
         rem = shortestRemainingMs (p_agentId who) now (w_grants w1);
         ttl = (if rem \<noteq> - 1 \<and> rem < ttl0 then rem else ttl0)
     in (j_obj J [(''tools'', tools), (''ttlMs'', j_uint J ttl), (''cacheScope'', j_str J ''private'')], w1))"

definition discoverBody :: "'j json_api \<Rightarrow> 'j" where
  "discoverBody J =
     j_obj J [(''protocolVersion'', j_str J kProtocolVersion),
              (''capabilities'', j_obj J [(''tools'', j_obj J [(''listChanged'', j_bool J False)]),
                                        (''extensions'', j_obj J [(kTasksExt, j_obj J [])])]),
              (''serverInfo'', j_obj J [(''name'', j_str J ''perfacet''), (''version'', j_str J ''0.1.0'')]),
              (''ttlMs'', j_int J 60000), (''cacheScope'', j_str J ''private'')]"

definition getTask :: "string \<Rightarrow> Principal \<Rightarrow> 'j World \<Rightarrow> 'j Task option \<times> 'j World" where
  "getTask taskId who w =
    (let (t, w1) = read_task taskId w
     in (case t of None \<Rightarrow> None | Some t \<Rightarrow> if ta_agentId t \<noteq> p_agentId who then None else Some t, w1))"

definition taskNotFound :: "'j json_api \<Rightarrow> 'j Response" where
  "taskNotFound J =
     (Response_default J)\<lparr>r_isError := True, r_klass := Authz, r_body := jsonRpcError J (-32000) ''task not found'' (j_obj J [])\<rparr>"

definition taskBody :: "'j json_api \<Rightarrow> 'j Task \<Rightarrow> 'j" where
  "taskBody J t =
    (let b0 = j_obj J [(''taskId'', j_str J (ta_taskId t)), (''status'', j_str J (ta_status t)),
                       (''createdAt'', j_str J (iso8601Utc (ta_createdAtMs t))),
                       (''lastUpdatedAt'', j_str J (iso8601Utc (ta_lastUpdatedAtMs t))), (''ttlMs'', j_uint J (ta_ttlMs t))];
         b1 = (if ta_status t = ''completed'' then j_put J b0 ''result'' (ta_resultOrError t) else b0)
     in if ta_status t = ''failed'' then j_put J b1 ''error'' (ta_resultOrError t) else b1)"

definition handleTaskGet :: "'j json_api \<Rightarrow> 'j Request \<Rightarrow> 'j finish \<Rightarrow> 'j World \<Rightarrow> 'j World" where
  "handleTaskGet J req f w =
    (let (t, w1) = getTask (rq_name req) (rq_who req) w
     in finish_call J f (case t of None \<Rightarrow> taskNotFound J | Some t \<Rightarrow> (Response_default J)\<lparr>r_body := taskBody J t\<rparr>) w1)"

definition cancelTask :: "'j json_api \<Rightarrow> string \<Rightarrow> Principal \<Rightarrow> 'j finish \<Rightarrow> 'j World \<Rightarrow> 'j World" where
  "cancelTask J taskId who f w =
    (let (t, w1) = getTask taskId who w in
     case t of
       None \<Rightarrow> finish_call J f (taskNotFound J) w1
     | Some _ \<Rightarrow>
         (let w2 = update_task taskId ''cancelled'' (j_null J) w1;
              w3 = (case um_find (w_byTask w2) taskId of None \<Rightarrow> w2 | Some a \<Rightarrow> cancelWait J a w2)
          in finish_call J f
               ((Response_default J)\<lparr>r_body := j_obj J [(''taskId'', j_str J taskId), (''status'', j_str J ''cancelled'')]\<rparr>) w3))"

section \<open>Built-in tools\<close>

definition upstreamRow :: "'j json_api \<Rightarrow> 'j World \<Rightarrow> string \<Rightarrow> 'j" where
  "upstreamRow J w nm =
     j_obj J [(''name'', j_str J nm), (''state'', j_str J (healthStateName (health_state (w_health w) nm))),
              (''latency_ewma_ms'', j_uint J (latencyEwmaMs (w_health w) nm))]"

definition handleBuiltin ::
  "'j json_api \<Rightarrow> int \<Rightarrow> 'j Request \<Rightarrow> ToolKey \<Rightarrow> 'j finish \<Rightarrow> 'j World \<Rightarrow> exn + 'j World" where
  "handleBuiltin J mt req key f w =
    (if tk_tool key = ''request_elevation'' then
       (if \<not> p_hasLevel (rq_who req) then
          Inr (finish_call J f (answer J Authz (callToolText J ''pure admin cannot elevate'' True))
                (pipeline_audit ''deny'' req Authz (ToolKey_str key) w))
        else
          (let args = (if j_contains J (rq_params req) ''arguments'' then j_at J (rq_params req) ''arguments'' else rq_params req) in
           case j_value_str J args ''bump_to'' [] of
             None \<Rightarrow> Inl TypeError
           | Some bumpTo \<Rightarrow>
               (case Taxonomy_parse (cf_taxonomy (w_cfg w)) bumpTo of
                  None \<Rightarrow> Inr (finish_call J f (answer J Authz (callToolText J ''invalid bump_to'' True)) w)
                | Some rk \<Rightarrow>
                    if rk > cf_elevationMax (w_cfg w)
                    then Inr (finish_call J f (answer J Authz (callToolText J ''invalid bump_to'' True)) w)
                    else
                      (let (now, w1) = nowMs w;
                           (hex, w2) = env_randomHex 8 w1;
                           (posted, w3) = pool_try JGrantWrite w2;
                           (gid, g) = appendPending J posted mt hex (p_agentId (rq_who req)) bumpTo rk now (w_grants w3);
                           w4 = w3\<lparr>w_grants := g\<rparr>;
                           body = callToolText J (j_dump J (j_obj J [(''grantId'', j_str J gid), (''status'', j_str J ''pending'')])) False
                       in Inr (finish_call J f ((Response_default J)\<lparr>r_body := body\<rparr>)
                                (pipeline_audit ''ok'' req Ok (ToolKey_str key) w4))))))
     else if tk_tool key = ''upstream_status'' then
       (if \<not> p_admin (rq_who req) then
          Inr (finish_call J f (answer J Authz (denyTool J)) (pipeline_audit ''deny'' req Authz (ToolKey_str key) w))
        else
          Inr (finish_call J f
                ((Response_default J)\<lparr>r_body := callToolText J (j_dump J (j_arr J (map (upstreamRow J w) (Catalog_names (w_catalog w))))) False\<rparr>) w))
     else
       Inr (finish_call J f (answer J Authz (unknownTool J)) (pipeline_audit ''deny'' req Authz (ToolKey_str key) w)))"

section \<open>Forwarded calls\<close>

definition liveCall :: "string \<Rightarrow> 'j World \<Rightarrow> nat option" where
  "liveCall iid w =
     (case um_find (w_live w) iid of
        None \<Rightarrow> None
      | Some a \<Rightarrow> if um_find (w_calls w) a = None then None else Some a)"

definition liveTask :: "nat option \<Rightarrow> 'j World \<Rightarrow> string" where
  "liveTask orig w =
     (case orig of None \<Rightarrow> [] | Some a \<Rightarrow> (case um_find (w_calls w) a of None \<Rightarrow> [] | Some c \<Rightarrow> cl_taskId c))"

text \<open>The task for a repeated request: an existing one or a new one, or none when the store is full.\<close>

definition hitTask :: "'j json_api \<Rightarrow> 'j Request \<Rightarrow> ToolKey \<Rightarrow> InFlight_Entry \<Rightarrow> 'j World \<Rightarrow> string option \<times> 'j World" where
  "hitTask J req key hit w =
    (let tid0 = (case ie_taskId hit of None \<Rightarrow> [] | Some t \<Rightarrow> t);
         orig = liveCall (ie_inflightId hit) w;
         tid = (if tid0 = [] then liveTask orig w else tid0)
     in if tid \<noteq> [] then (Some tid, w)
        else
          (let (t, w1) = makeTask J req key (ie_startedAtMs hit) w;
               (ok, w2) = insert_task t w1
           in if \<not> ok then (None, w2)
              else (Some (ta_taskId t),
                    case orig of
                      Some a \<Rightarrow> attachTask a (ta_taskId t) w2
                    | None \<Rightarrow> w2\<lparr>w_inflight := InFlight_setTaskId (ie_inflightId hit) (ta_taskId t) (w_inflight w2)\<rparr>)))"

definition hitText :: "ToolKey \<Rightarrow> InFlight_Entry \<Rightarrow> u64 \<Rightarrow> string" where
  "hitText key hit now =
     ''in-flight call still running for '' @ ToolKey_str key @ ''; params='' @ ie_paramsSummary hit @ ''; elapsed_ms='' @
     nat_digits (unat (now - ie_startedAtMs hit)) @ ''; confirm with _meta['' @ [CHR 0x22] @ kConfirmKey @ [CHR 0x22] @ '']='' @
     [CHR 0x22] @ ''if_'' @ ie_inflightId hit @ [CHR 0x22]"

definition answerHit :: "'j json_api \<Rightarrow> 'j Request \<Rightarrow> ToolKey \<Rightarrow> InFlight_Entry \<Rightarrow> 'j finish \<Rightarrow> 'j World \<Rightarrow> 'j World" where
  "answerHit J req key hit f w =
    (let w1 = w\<lparr>env_counters := (env_counters w)\<lparr>cn_inflightHit := cn_inflightHit (env_counters w) + 1\<rparr>\<rparr>;
         w2 = trace_set (rq_trace req) ''inflight_hit'' ''true'' w1;
         w3 = trace_set (rq_trace req) ''inflight_id'' (ie_inflightId hit) w2;
         w4 = pipeline_audit ''inflight_hit'' req Throttled (ToolKey_str key) w3
     in if c_tasks (rq_caps req) then
          (let (tid, w5) = hitTask J req key hit w4 in
           case tid of
             None \<Rightarrow> finish_call J f (answer J Unavailable (callToolText J ''task store full'' True)) w5
           | Some tid \<Rightarrow>
               (let (t, w6) = read_task tid w5 in
                case t of
                  None \<Rightarrow> finish_call J f (answer J Unavailable (callToolText J ''task not found'' True)) w6
                | Some t \<Rightarrow>
                    finish_call J f ((Response_default J)\<lparr>r_body := createTaskResult J t\<rparr>)
                      (trace_set (rq_trace req) ''task_id'' tid w6)))
        else
          (let (now, w5) = nowMs w4
           in finish_call J f (answer J Throttled (callToolText J (hitText key hit now) True)) w5))"

definition queueWaitOf :: "YamlConfig \<Rightarrow> string \<Rightarrow> u64" where
  "queueWaitOf cfg ts =
     (case um_find (cf_governorTools cfg) ts of
        Some g \<Rightarrow> if gt_queueWaitMs g > 0 then gt_queueWaitMs g else cf_queueWaitMs cfg
      | None \<Rightarrow> cf_queueWaitMs cfg)"

text \<open>The rest of \<open>handleCall\<close>, after the lookup: refuse while stopping, otherwise ask the governor.\<close>

definition admitCall :: "'j json_api \<Rightarrow> 'j Request \<Rightarrow> ToolKey \<Rightarrow> string \<Rightarrow> 'j finish \<Rightarrow> 'j World \<Rightarrow> exn + 'j World" where
  "admitCall J req key hash f w =
    (if w_stopping w then
       Inr (finish_call J f ((Response_default J)\<lparr>r_klass := Unavailable, r_httpStatus := 503, r_isError := True,
               r_body := jsonRpcError J (-32000) ''draining'' (j_obj J [])\<rparr>) w)
     else
       (let (now, w1) = nowMs w;
            (evs, w2) = acquire (rq_who req) key (now + queueWaitOf (w_cfg w1) (ToolKey_str key))
                          \<lparr>ac_req = req, ac_key = key, ac_hash = hash, ac_done = f\<rparr> w1
        in run_admits J evs w2))"

definition handleCall :: "'j json_api \<Rightarrow> int \<Rightarrow> 'j Request \<Rightarrow> 'j finish \<Rightarrow> 'j World \<Rightarrow> exn + 'j World" where
  "handleCall J mt req f w =
    (case ToolKey_parse (rq_name req) of
       None \<Rightarrow> Inr (finish_call J f (answer J Authz (unknownTool J)) (pipeline_audit ''deny'' req Authz [] w))
     | Some key \<Rightarrow>
         (let dec = authorizeCall (w_catalog w) (rq_who req) key in
          if dec \<noteq> Allow then
            Inr (finish_call J f (answer J Authz (if dec = Unknown then unknownTool J else denyTool J))
                  (pipeline_audit ''deny'' req Authz (ToolKey_str key) w))
          else if tk_backend key = ''perfacet'' then handleBuiltin J mt req key f w
          else
            (let hash = paramsHashOf J (rq_params req);
                 hit = InFlight_lookup (p_agentId (rq_who req)) key hash (w_inflight w)
             in case (if j_is_object J (rq_meta req) \<and> j_contains J (rq_meta req) kConfirmKey
                      then j_get_str J (j_at J (rq_meta req) kConfirmKey) else Some []) of
                  None \<Rightarrow> Inl TypeError
                | Some confirm \<Rightarrow>
                    (case hit of
                       None \<Rightarrow> admitCall J req key hash f w
                     | Some e \<Rightarrow>
                         if confirm \<noteq> [] \<and> confirm = ''if_'' @ ie_inflightId e then
                           admitCall J req key hash f
                             (w\<lparr>env_counters := (env_counters w)\<lparr>cn_inflightConfirm := cn_inflightConfirm (env_counters w) + 1\<rparr>\<rparr>)
                         else Inr (answerHit J req key e f w)))))"

section \<open>Dispatch\<close>

definition methodNotFound :: "'j json_api \<Rightarrow> 'j Response" where
  "methodNotFound J =
     (Response_default J)\<lparr>r_isError := True, r_klass := Protocol, r_httpStatus := 404,
        r_body := jsonRpcError J (-32601) ''Method not found'' (j_obj J [])\<rparr>"

definition handle_open :: "nat \<Rightarrow> 'j Request \<Rightarrow> 'j World \<Rightarrow> ('j Request \<times> 'j finish) \<times> 'j World" where
  "handle_open tok req w =
    (let (t0, w1) = nowMs w;
         (total, w2) = trace_start req ''total'' w1;
         req1 = req\<lparr>rq_trace := total\<rparr>;
         (gw, w3) = trace_start req1 ''gateway'' w2;
         req2 = req1\<lparr>rq_trace := gw\<rparr>
     in ((req2, \<lparr>fi_token = tok, fi_t0 = t0, fi_req = req2, fi_total = total\<rparr>), w3))"

definition handle :: "'j json_api \<Rightarrow> int \<Rightarrow> nat \<Rightarrow> 'j Request \<Rightarrow> 'j World \<Rightarrow> exn + 'j World" where
  "handle J mt tok req0 w0 =
    (let ((req, f), w) = handle_open tok req0 w0 in
     if rq_method req = ''server/discover'' then
       Inr (finish_call J f ((Response_default J)\<lparr>r_body := discoverBody J\<rparr>) w)
     else if rq_method req = ''tools/list'' then
       (let (b, w1) = listBody J (rq_who req) w in Inr (finish_call J f ((Response_default J)\<lparr>r_body := b\<rparr>) w1))
     else if rq_method req = ''tasks/get'' then Inr (handleTaskGet J req f w)
     else if rq_method req = ''tasks/cancel'' then Inr (cancelTask J (rq_name req) (rq_who req) f w)
     else if rq_method req = ''tools/call'' then handleCall J mt req f w
     else Inr (finish_call J f (methodNotFound J) w))"

definition pipeline_requestStop :: "'j json_api \<Rightarrow> 'j World \<Rightarrow> 'j World" where
  "pipeline_requestStop J w =
     fold (\<lambda>kv w. cancelWait J (snd kv) w) (w_live w) (w\<lparr>w_stopping := True\<rparr>)"

section \<open>Accounting of the handlers\<close>

text \<open>A handler that answers at once: nothing but its own answer.\<close>

definition answers :: "'j finish \<Rightarrow> 'j World \<Rightarrow> 'j World \<Rightarrow> bool" where
  "answers f w w' \<longleftrightarrow> shape w' = shape w \<and> tokens w' = add_mset (fi_token f) (tokens w)"

lemma answers_finish: "shape w1 = shape w \<Longrightarrow> tokens w1 = tokens w \<Longrightarrow> answers f w (finish_call J f r w1)"
  by (simp add: answers_def)

lemma more_frames [simp]:
  fixes w :: "'j World"
  shows "shape (w\<lparr>w_grants := g\<rparr>) = shape w" "tokens (w\<lparr>w_grants := g\<rparr>) = tokens w"
    "shape (w\<lparr>w_stopping := b\<rparr>) = shape w" "tokens (w\<lparr>w_stopping := b\<rparr>) = tokens w"
    "shape (w\<lparr>w_health := h\<rparr>) = shape w" "tokens (w\<lparr>w_health := h\<rparr>) = tokens w"
    "shape (w\<lparr>w_index := ix\<rparr>) = shape w" "tokens (w\<lparr>w_index := ix\<rparr>) = tokens w"
    "shape (w\<lparr>w_running := js\<rparr>) = shape w" "tokens (w\<lparr>w_running := js\<rparr>) = tokens w"
    "shape (w\<lparr>ob_pool := p\<rparr>) = shape w" "tokens (w\<lparr>ob_pool := p\<rparr>) = tokens w"
    "shape (w\<lparr>ob_tracer := t\<rparr>) = shape w" "tokens (w\<lparr>ob_tracer := t\<rparr>) = tokens w"
    "shape (snd (pool_try jb w)) = shape w" "tokens (snd (pool_try jb w)) = tokens w"
  by (simp_all add: shape_def gov_part_def calls_part_def tokens_def pool_try_def split: sum.splits)

lemma getTask_frames [simp]: "shape (snd (getTask i who w)) = shape w" "tokens (snd (getTask i who w)) = tokens w"
  by (simp_all add: getTask_def split_beta)

lemma answers_handleTaskGet: "answers f w (handleTaskGet J req f w)"
  by (simp add: handleTaskGet_def split_beta answers_finish)

lemma answers_cancelTask: "answers f w (cancelTask J i who f w)"
  by (auto simp: cancelTask_def split_beta Let_def intro!: answers_finish split: option.splits)

lemma hitTask_frames [simp]: "shape (snd (hitTask J req key hit w)) = shape w" "tokens (snd (hitTask J req key hit w)) = tokens w"
  by (simp_all add: hitTask_def Let_def split_beta split: option.splits)

lemma answers_answerHit: "answers f w (answerHit J req key hit f w)"
  by (auto simp: answerHit_def Let_def split_beta counters_frames intro!: answers_finish split: option.splits)

lemma answers_handleBuiltin: "handleBuiltin J mt req key f w = Inr w' \<Longrightarrow> answers f w w'"
  by (auto simp: handleBuiltin_def Let_def split_beta intro!: answers_finish split: if_splits option.splits)

lemma listBody_frames [simp]: "shape (snd (listBody J who w)) = shape w" "tokens (snd (listBody J who w)) = tokens w"
  by (simp_all add: listBody_def Let_def split_beta)

text \<open>A handler that may hand the request to the governor.\<close>

definition takes :: "'j finish \<Rightarrow> 'j World \<Rightarrow> 'j World \<Rightarrow> bool" where
  "takes f w w' \<longleftrightarrow> (\<forall>H. winv H w \<longrightarrow> winv H w' \<and> owed w' = add_mset (fi_token f) (owed w))"

lemma answers_takes: "answers f w w' \<Longrightarrow> takes f w w'"
  by (simp add: answers_def takes_def owed_answered [of w' w] winv_shape [of w' w])

lemma takes_frame: "shape w1 = shape w \<Longrightarrow> tokens w1 = tokens w \<Longrightarrow> takes f w1 w' \<Longrightarrow> takes f w w'"
  by (simp add: takes_def winv_shape [of w1 w] owed_shape [of w1 w])

lemma takes_admitCall:
  assumes "admitCall J req key hash f w = Inr w'"
  shows "takes f w w'"
proof (cases "w_stopping w")
  case True
  then show ?thesis using assms by (auto simp: admitCall_def intro!: answers_takes answers_finish)
next
  case False
  let ?w1 = "snd (nowMs w)"
  let ?k = "\<lparr>ac_req = req, ac_key = key, ac_hash = hash, ac_done = f\<rparr>"
  define r where "r = acquire (rq_who req) key (fst (nowMs w) + queueWaitOf (w_cfg ?w1) (ToolKey_str key)) ?k ?w1"
  have run: "run_admits J (fst r) (snd r) = Inr w'"
    using assms False by (simp add: admitCall_def r_def Let_def split_beta)
  show ?thesis
    unfolding takes_def
  proof (intro allI impI)
    fix H assume inv: "winv H w"
    have inv1: "winv H ?w1" using inv winv_shape [of ?w1 w] by simp
    then have "gov_inv (H + call_permits ?w1) ?w1" by (simp add: winv_def)
    then have "gov_result (H + call_permits ?w1) (add_mset ?k (waiting ?w1)) r"
      unfolding r_def by (rule acquire_result)
    from pres_gov [OF inv1 this] have "pres H (tokens ?w1 + image_mset ctok (add_mset ?k (waiting ?w1))) r"
      by (simp add: r_def gov_step_acquire)
    then have "winv H w' \<and> owed w' = tokens ?w1 + image_mset ctok (add_mset ?k (waiting ?w1))"
      using run_admits_pres [of H _ "fst r" "snd r"] run by simp
    then show "winv H w' \<and> owed w' = add_mset (fi_token f) (owed w)" by (simp add: owed_def)
  qed
qed

lemma takes_handleCall:
  assumes "handleCall J mt req f w = Inr w'"
  shows "takes f w w'"
proof (cases "ToolKey_parse (rq_name req)")
  case None
  then show ?thesis using assms by (auto simp: handleCall_def intro!: answers_takes answers_finish)
next
  case (Some key)
  let ?w1 = "w\<lparr>env_counters := (env_counters w)\<lparr>cn_inflightConfirm := cn_inflightConfirm (env_counters w) + 1\<rparr>\<rparr>"
  let ?hash = "paramsHashOf J (rq_params req)"
  consider (deny) r w1 where "w' = finish_call J f r w1" "shape w1 = shape w" "tokens w1 = tokens w"
    | (builtin) "handleBuiltin J mt req key f w = Inr w'"
    | (first) "admitCall J req key ?hash f w = Inr w'"
    | (confirmed) "admitCall J req key ?hash f ?w1 = Inr w'"
    | (hit) e where "w' = answerHit J req key e f w"
    using assms Some
    by (auto simp: handleCall_def Let_def split: if_splits option.splits)
  then show ?thesis
  proof cases
    case deny
    then show ?thesis by (auto intro!: answers_takes answers_finish)
  next
    case builtin
    then show ?thesis by (auto intro!: answers_takes answers_handleBuiltin)
  next
    case first
    then show ?thesis by (rule takes_admitCall)
  next
    case confirmed
    show ?thesis by (rule takes_frame [OF _ _ takes_admitCall [OF confirmed]]) (simp_all add: counters_frames)
  next
    case hit
    then show ?thesis by (simp add: answers_takes answers_answerHit)
  qed
qed

lemma handle_open_frames:
  "shape (snd (handle_open tok req w)) = shape w" "tokens (snd (handle_open tok req w)) = tokens w"
  "fi_token (snd (fst (handle_open tok req w))) = tok"
  by (simp_all add: handle_open_def Let_def split_beta)

lemma handle_result:
  assumes "handle J mt tok req w = Inr w'" "winv H w"
  shows "winv H w' \<and> owed w' = add_mset tok (owed w)"
proof -
  obtain req1 f w1 where o: "handle_open tok req w = ((req1, f), w1)" by (metis prod.collapse)
  have f: "shape w1 = shape w" "tokens w1 = tokens w" "fi_token f = tok" using handle_open_frames [of tok req w] o by simp_all
  have "takes f w1 w'"
    using assms(1) unfolding handle_def o
    by (auto simp: Let_def split_beta answers_takes answers_finish answers_handleTaskGet answers_cancelTask
        dest: takes_handleCall split: if_splits)
  then show ?thesis using takes_frame [OF f(1,2)] assms(2) f(3) by (auto simp: takes_def)
qed

lemma requestStop_frames [simp]:
  "shape (pipeline_requestStop J w) = shape w" "tokens (pipeline_requestStop J w) = tokens w"
proof -
  have "shape (fold (\<lambda>kv w. cancelWait J (snd kv) w) l w) = shape w \<and> tokens (fold (\<lambda>kv w. cancelWait J (snd kv) w) l w) = tokens w"
    for l :: "(string, nat) umap" and w :: "'a World"
    by (induction l arbitrary: w) simp_all
  then show "shape (pipeline_requestStop J w) = shape w" "tokens (pipeline_requestStop J w) = tokens w"
    by (simp_all add: pipeline_requestStop_def)
qed

end
