(* ===== verification/Gateway.thy ===== *)
theory Gateway
  imports Pipeline
begin

text \<open>
  The gateway as one state machine: construction, start and stop
  (\<^verbatim>\<open>src/cli/Gateway.cpp\<close>), the closures of the timers, the functions that other threads queue
  for the loop, and the jobs of the worker threads (\<^verbatim>\<open>EventLoop::loop\<close>,
  \<^verbatim>\<open>EventLoop::processExpiredTimers\<close>, \<^verbatim>\<open>EventLoop::doPending\<close>, \<^verbatim>\<open>HttpMcpBackend::call\<close>,
  \<^verbatim>\<open>ProbeHealth::startTimer\<close>). A worker runs concurrently with the loop: its jobs are taken and
  finished in steps of their own (\<open>gw_reach\<close>). The answer of an upstream server is arbitrary.
  Lemmas: the permits out are exactly those of the living calls, every request is answered
  exactly once or still owed.
\<close>

section \<open>Probes\<close>

text \<open>The callback of a probe: \<open>applyResult\<close>, then the closure that the gateway sets as
  \<^verbatim>\<open>health_.setCallback\<close>, with \<^verbatim>\<open>refresher_.setOnListed\<close>.\<close>

definition onHealth :: "'j json_api \<Rightarrow> string \<Rightarrow> 'j option \<Rightarrow> 'j World \<Rightarrow> exn + 'j World" where
  "onHealth J server tools w =
     (case onProbeResult J server tools (w_index w) of
        Inl e \<Rightarrow> Inl e
      | Inr (ix, names) \<Rightarrow>
          (let w1 = w\<lparr>w_index := ix\<rparr>;
               w2 = (case names of None \<Rightarrow> w1 | Some ns \<Rightarrow> onToolsListed server ns w1)
           in Inr (if tools \<noteq> None then w2\<lparr>w_circuit := circuit_onProbeSuccess server (w_circuit w2)\<rparr> else w2)))"

definition onProbe :: "'j json_api \<Rightarrow> string \<Rightarrow> u64 \<Rightarrow> 'j Response \<Rightarrow> 'j World \<Rightarrow> exn + 'j World" where
  "onProbe J nm latencyMs r w =
    (let (now, w1) = nowMs w in
     case applyResult J nm (\<not> r_isError r \<and> r_klass r = Ok) latencyMs (if r_isError r then None else Some (r_body r)) now (w_health w1) of
       Inl e \<Rightarrow> Inl e
     | Inr ((server, st, tools), h) \<Rightarrow> onHealth J server tools (w1\<lparr>w_health := h\<rparr>))"

definition probeTimer :: "'j json_api \<Rightarrow> 'j World \<Rightarrow> 'j World" where
  "probeTimer J w =
    (let (now, w1) = nowMs w;
         (calls, h) = probeTick J (w_catalog w1) now (Catalog_names (w_catalog w1)) (w_health w1)
     in fold (\<lambda>(nm, bc). backend_call J (ToProbe nm) bc) calls (w1\<lparr>w_health := h\<rparr>))"

section \<open>Timers\<close>

definition run_timer :: "'j json_api \<Rightarrow> timer_cb \<Rightarrow> 'j World \<Rightarrow> exn + 'j World" where
  "run_timer J cb w =
     (case cb of
        TQueueTimeout ts i \<Rightarrow> (let (evs, w1) = onQueueTimeout ts i w in run_admits J evs w1)
      | TPromote a \<Rightarrow> Inr (onPromote J a w)
      | TProbe \<Rightarrow> Inr (probeTimer J w)
      | TGrantRefresh \<Rightarrow> Inr (snd (pool_try JGrantRefresh w))
      | TDrain \<Rightarrow> Inr (w\<lparr>env_loop := loop_quit (env_loop w)\<rparr>))"

text \<open>The closure of a fired timer dies at the end of its turn, and with it its reference to a call.\<close>

definition drop_timer :: "'j json_api \<Rightarrow> timer_cb \<Rightarrow> 'j World \<Rightarrow> exn + 'j World" where
  "drop_timer J cb w =
     (case cb of TPromote a \<Rightarrow> (let (evs, w1) = dropRef J a w in run_admits J evs w1) | _ \<Rightarrow> Inr w)"

definition fire_timer :: "'j json_api \<Rightarrow> int \<Rightarrow> Timer \<Rightarrow> 'j World \<Rightarrow> exn + 'j World" where
  "fire_timer J now t w =
    (let ((live, cb), el) = timerBegin t (env_loop w); w1 = w\<lparr>env_loop := el\<rparr> in
     case cb of
       None \<Rightarrow> Inr (if live then w1\<lparr>env_loop := timerEnd now t None el\<rparr> else w1)
     | Some c \<Rightarrow>
         (case run_timer J c w1 of
            Inl x \<Rightarrow> Inl x
          | Inr w2 \<Rightarrow> drop_timer J c (w2\<lparr>env_loop := timerEnd now t cb (env_loop w2)\<rparr>)))"

fun fire_timers :: "'j json_api \<Rightarrow> int \<Rightarrow> Timer list \<Rightarrow> 'j World \<Rightarrow> exn + 'j World" where
  "fire_timers J now [] w = Inr w"
| "fire_timers J now (t # ts) w =
     (case fire_timer J now t w of Inl x \<Rightarrow> Inl x | Inr w1 \<Rightarrow> fire_timers J now ts w1)"

definition processExpiredTimers :: "'j json_api \<Rightarrow> int \<Rightarrow> 'j World \<Rightarrow> exn + 'j World" where
  "processExpiredTimers J now w =
    (let (expired, el) = popExpired now (env_loop w) in fire_timers J now expired (w\<lparr>env_loop := el\<rparr>))"

section \<open>Queued functions\<close>

definition run_fn :: "'j json_api \<Rightarrow> (timer_cb, 'j pfun) Pending \<Rightarrow> 'j World \<Rightarrow> exn + 'j World" where
  "run_fn J p w =
     (case p of
        PRun (FUpstream (ToCall a) r) \<Rightarrow> onUpstream J a r w
      | PRun (FUpstream (ToProbe nm) r) \<Rightarrow> onProbe J nm (r_upstreamMs r) r w
      | PInsertTimer t cb \<Rightarrow> Inr (w\<lparr>env_loop := insertTimer t cb (env_loop w)\<rparr>)
      | PCancelTimer i \<Rightarrow> Inr (w\<lparr>env_loop := cancelInLoop i (env_loop w)\<rparr>))"

fun run_fns :: "'j json_api \<Rightarrow> (timer_cb, 'j pfun) Pending list \<Rightarrow> 'j World \<Rightarrow> exn + 'j World" where
  "run_fns J [] w = Inr w"
| "run_fns J (p # ps) w = (case run_fn J p w of Inl x \<Rightarrow> Inl x | Inr w1 \<Rightarrow> run_fns J ps w1)"

text \<open>The vector of functions dies at the end of \<open>doPending\<close>, in order.\<close>

fun drop_fns :: "'j json_api \<Rightarrow> (timer_cb, 'j pfun) Pending list \<Rightarrow> 'j World \<Rightarrow> exn + 'j World" where
  "drop_fns J [] w = Inr w"
| "drop_fns J (PRun (FUpstream (ToCall a) r) # ps) w =
     (let (evs, w1) = dropRef J a w in
      case run_admits J evs w1 of Inl x \<Rightarrow> Inl x | Inr w2 \<Rightarrow> drop_fns J ps w2)"
| "drop_fns J (_ # ps) w = drop_fns J ps w"

definition doPending :: "'j json_api \<Rightarrow> 'j World \<Rightarrow> exn + 'j World" where
  "doPending J w =
    (let (fns, el) = doPending_swap (env_loop w) in
     case run_fns J fns (w\<lparr>env_loop := el\<rparr>) of Inl x \<Rightarrow> Inl x | Inr w1 \<Rightarrow> drop_fns J fns w1)"

section \<open>Workers\<close>

text \<open>The closure that the gateway sets as \<^verbatim>\<open>grants_.setOnExpire\<close>.\<close>

definition onExpire :: "GrantRecord \<Rightarrow> 'j World \<Rightarrow> 'j World" where
  "onExpire g w =
     audit_emit \<lparr>ev_event = ''grant_expire'', ev_tsMs = 0, ev_traceId = [], ev_principal = gr_agent g,
        ev_level = gr_bumpTo g, ev_tool = [], ev_server = [], ev_status = ''expired''\<rparr> w"

definition grants_refresh :: "'j json_api \<Rightarrow> 'j World \<Rightarrow> exn + 'j World" where
  "grants_refresh J w =
    (let (now, w1) = nowMs w in
     case refreshOnWorker J now (w_grants w1) of
       Inl e \<Rightarrow> Inl e
     | Inr (expired, g) \<Rightarrow> Inr (fold onExpire expired (w1\<lparr>w_grants := g\<rparr>)))"

text \<open>What the end of a job does: \<open>r\<close> is the upstream answer, \<open>mt\<close> the new modification time of
  the grant file. The drain of the tracer goes on with the next span. An exception ends in the
  \<^verbatim>\<open>std::packaged_task\<close> of the pool.\<close>

definition work :: "'j json_api \<Rightarrow> int \<Rightarrow> 'j Response \<Rightarrow> 'j job \<Rightarrow> 'j World \<Rightarrow> exn + 'j World" where
  "work J mt r jb w =
     (case jb of
        JUpstream tgt bc \<Rightarrow> Inr (w\<lparr>env_loop := queueInLoop (PRun (FUpstream tgt r)) (env_loop w)\<rparr>)
      | JAudit ev \<Rightarrow> Inr w
      | JDrain \<Rightarrow>
          (case drain_step (ob_tracer w) of
             (None, t) \<Rightarrow> Inr (w\<lparr>ob_tracer := t\<rparr>)
           | (Some _, t) \<Rightarrow> Inr (w\<lparr>ob_tracer := t, w_running := w_running w @ [JDrain]\<rparr>))
      | JGrantWrite \<Rightarrow> Inr (w\<lparr>w_grants := workerStep mt (w_grants w)\<rparr>)
      | JGrantRefresh \<Rightarrow> (case grants_refresh J w of Inl e \<Rightarrow> Inr w | Inr w' \<Rightarrow> Inr w'))"

definition take_job :: "'j World \<Rightarrow> 'j World option" where
  "take_job w =
     (case tp_take (ob_pool w) of
        None \<Rightarrow> None
      | Some (jb, p) \<Rightarrow> Some (w\<lparr>ob_pool := p, w_running := w_running w @ [jb]\<rparr>))"

definition end_job :: "'j json_api \<Rightarrow> int \<Rightarrow> 'j Response \<Rightarrow> nat \<Rightarrow> 'j World \<Rightarrow> exn + 'j World" where
  "end_job J mt r i w =
     (if i < length (w_running w)
      then work J mt r (w_running w ! i) (w\<lparr>w_running := take i (w_running w) @ drop (Suc i) (w_running w)\<rparr>)
      else Inr w)"

section \<open>Stop\<close>

definition gateway_requestStop :: "'j json_api \<Rightarrow> 'j World \<Rightarrow> exn + 'j World" where
  "gateway_requestStop J w =
    (let (evs, w1) = rejectAllQueued (pipeline_requestStop J w) in
     case run_admits J evs w1 of
       Inl x \<Rightarrow> Inl x
     | Inr w2 \<Rightarrow> Inr (snd (env_runAfter (cf_drainTimeoutMs (w_cfg w2)) TDrain w2)))"

section \<open>Reachable states\<close>

definition gw_init :: "'j World \<Rightarrow> bool" where
  "gw_init w \<longleftrightarrow> winv {#} w \<and> owed w = {#}"

text \<open>\<open>T\<close>: the tokens of the requests so far.\<close>

inductive gw_reach :: "'j json_api \<Rightarrow> 'j World \<Rightarrow> nat multiset \<Rightarrow> bool" for J where
  start: "gw_init w \<Longrightarrow> gw_reach J w {#}"
| request: "gw_reach J w T \<Longrightarrow> handle J mt tok req w = Inr w' \<Longrightarrow> gw_reach J w' (add_mset tok T)"
| pending: "gw_reach J w T \<Longrightarrow> doPending J w = Inr w' \<Longrightarrow> gw_reach J w' T"
| timers: "gw_reach J w T \<Longrightarrow> processExpiredTimers J now w = Inr w' \<Longrightarrow> gw_reach J w' T"
| takes_job: "gw_reach J w T \<Longrightarrow> take_job w = Some w' \<Longrightarrow> gw_reach J w' T"
| ends_job: "gw_reach J w T \<Longrightarrow> end_job J mt r i w = Inr w' \<Longrightarrow> gw_reach J w' T"
| stop: "gw_reach J w T \<Longrightarrow> gateway_requestStop J w = Inr w' \<Longrightarrow> gw_reach J w' T"

section \<open>Every event keeps the account\<close>

definition conserves :: "'j World \<Rightarrow> 'j World \<Rightarrow> bool" where
  "conserves w w' \<longleftrightarrow> (\<forall>H. winv H w \<longrightarrow> winv H w' \<and> owed w' = owed w)"

lemma conserves_refl [simp]: "conserves w w"
  by (simp add: conserves_def)

lemma conserves_trans [trans]: "conserves w w' \<Longrightarrow> conserves w' w'' \<Longrightarrow> conserves w w''"
  unfolding conserves_def by metis

lemma conserves_keeps: "keeps w w' \<Longrightarrow> conserves w w'"
  by (simp add: conserves_def keeps_winv keeps_owed)

lemma conserves_shape: "shape w' = shape w \<Longrightarrow> tokens w' = tokens w \<Longrightarrow> conserves w w'"
  by (intro conserves_keeps keeps_shape)

lemma conserves_dropRef:
  assumes "run_admits J (fst (dropRef J a w)) (snd (dropRef J a w)) = Inr w'"
  shows "conserves w w'"
  unfolding conserves_def
proof (intro allI impI)
  fix H assume "winv H w"
  then have "pres H (owed w) (fst (dropRef J a w), snd (dropRef J a w))" using pres_dropRef by simp
  then show "winv H w' \<and> owed w' = owed w" using assms by (rule run_admits_pres)
qed

lemma queue_run_frames [simp]:
  fixes w :: "'j World"
  shows "shape (w\<lparr>env_loop := queueInLoop (PRun f) (env_loop w)\<rparr>) = shape w"
    "tokens (w\<lparr>env_loop := queueInLoop (PRun f) (env_loop w)\<rparr>) = tokens w"
  by (simp_all add: shape_def gov_part_def calls_part_def tokens_def loop_part_def queueInLoop_def)

lemma quit_frames [simp]:
  fixes w :: "'j World"
  shows "shape (w\<lparr>env_loop := loop_quit (env_loop w)\<rparr>) = shape w" "tokens (w\<lparr>env_loop := loop_quit (env_loop w)\<rparr>) = tokens w"
  by (simp_all add: shape_def gov_part_def calls_part_def tokens_def loop_part_def loop_quit_def)

lemma onToolsListed_conserves: "conserves w (onToolsListed b ns w)"
proof -
  have c: "calls_part (onToolsListed b ns w) = calls_part w" "env_loop (onToolsListed b ns w) = env_loop w"
    "w_nextCall (onToolsListed b ns w) = w_nextCall w" "tokens (onToolsListed b ns w) = tokens w"
    "waiting (onToolsListed b ns w) = waiting w"
    by (simp_all add: onToolsListed_def calls_part_def tokens_def waiting_def)
  then show ?thesis
    using gov_inv_onToolsListed [of _ w b ns]
    by (simp add: conserves_def winv_def call_permits_def calls_ok_def promote_ok_def owed_def)
qed

lemma onHealth_conserves:
  assumes "onHealth J server tools w = Inr w'"
  shows "conserves w w'"
proof -
  obtain ix names where p: "onProbeResult J server tools (w_index w) = Inr (ix, names)"
    using assms by (auto simp: onHealth_def split: sum.splits)
  let ?w1 = "w\<lparr>w_index := ix\<rparr>"
  let ?w2 = "case names of None \<Rightarrow> ?w1 | Some ns \<Rightarrow> onToolsListed server ns ?w1"
  have "conserves w ?w1" by (rule conserves_shape) simp_all
  also have "conserves ?w1 ?w2" by (simp add: onToolsListed_conserves split: option.splits)
  also have "conserves ?w2 w'" using assms p by (auto simp: onHealth_def Let_def intro!: conserves_shape)
  finally show ?thesis .
qed

lemma onProbe_conserves:
  assumes "onProbe J nm l r w = Inr w'"
  shows "conserves w w'"
proof -
  obtain server st tools h where a: "onHealth J server tools ((snd (nowMs w))\<lparr>w_health := h\<rparr>) = Inr w'"
    using assms by (auto simp: onProbe_def split_beta split: sum.splits)
  have "conserves w ((snd (nowMs w))\<lparr>w_health := h\<rparr>)" by (rule conserves_shape) simp_all
  then show ?thesis using onHealth_conserves [OF a] by (rule conserves_trans)
qed

lemma probeTimer_frames [simp]: "shape (probeTimer J w) = shape w" "tokens (probeTimer J w) = tokens w"
proof -
  have "shape (fold (\<lambda>(nm, bc). backend_call J (ToProbe nm) bc) cs w) = shape w \<and>
      tokens (fold (\<lambda>(nm, bc). backend_call J (ToProbe nm) bc) cs w) = tokens w" for cs and w :: "'a World"
    by (induction cs arbitrary: w) (simp_all add: split_beta)
  then show "shape (probeTimer J w) = shape w" "tokens (probeTimer J w) = tokens w"
    by (simp_all add: probeTimer_def Let_def split_beta)
qed

lemma run_fn_conserves:
  assumes "run_fn J p w = Inr w'" "is_run p"
  shows "conserves w w'"
proof (cases p)
  case (PRun f)
  obtain tgt r where f: "f = FUpstream tgt r" by (cases f)
  show ?thesis
    using assms(1)
    by (cases tgt) (auto simp: PRun f run_fn_def intro: conserves_keeps keeps_onUpstream onProbe_conserves)
qed (use assms in simp_all)

lemma run_fns_conserves: "run_fns J ps w = Inr w' \<Longrightarrow> list_all is_run ps \<Longrightarrow> conserves w w'"
proof (induction ps arbitrary: w)
  case (Cons p ps)
  obtain w1 where w1: "run_fn J p w = Inr w1" "run_fns J ps w1 = Inr w'"
    using Cons.prems(1) by (auto split: sum.splits)
  then show ?case
    using Cons run_fn_conserves [OF w1(1)] by (auto intro: conserves_trans)
qed simp

lemma drop_fns_conserves: "drop_fns J ps w = Inr w' \<Longrightarrow> conserves w w'"
proof (induction J ps w rule: drop_fns.induct)
  case (2 J a r ps w)
  obtain evs w1 where d: "dropRef J a w = (evs, w1)" by (cases "dropRef J a w")
  obtain w2 where r: "run_admits J evs w1 = Inr w2" "drop_fns J ps w2 = Inr w'"
    using "2.prems" d by (auto split: sum.splits)
  have "conserves w w2" by (rule conserves_dropRef [of J a]) (simp add: d r(1))
  also have "conserves w2 w'" using "2.IH" [OF d [symmetric] refl r(1) r(2)] .
  finally show ?case .
qed auto

lemma doPending_conserves:
  assumes "doPending J w = Inr w'"
  shows "conserves w w'"
proof -
  let ?w0 = "w\<lparr>env_loop := (env_loop w)\<lparr>el_pending := []\<rparr>\<rparr>"
  obtain w1 where r: "run_fns J (el_pending (env_loop w)) ?w0 = Inr w1" "drop_fns J (el_pending (env_loop w)) w1 = Inr w'"
    using assms by (auto simp: doPending_def doPending_swap_def split: sum.splits)
  show ?thesis
    unfolding conserves_def
  proof (intro allI impI)
    fix H assume inv: "winv H w"
    then have run: "list_all is_run (el_pending (env_loop w))"
      by (simp add: winv_def gov_inv_def queues_ok_def el_wf_def)
    then have "shape ?w0 = shape w" "tokens ?w0 = tokens w"
      by (simp_all add: shape_def gov_part_def loop_part_def calls_part_def tokens_def)
    then have "conserves w ?w0" by (rule conserves_shape)
    also have "conserves ?w0 w1" using r(1) run by (rule run_fns_conserves)
    also have "conserves w1 w'" using r(2) by (rule drop_fns_conserves)
    finally show "winv H w' \<and> owed w' = owed w" using inv by (simp add: conserves_def)
  qed
qed

section \<open>Timers keep the account\<close>

text \<open>A timer that was taken out of the heap: issued, and periodic only if armed at the start.\<close>

definition popped_ok :: "Timer \<Rightarrow> bool" where
  "popped_ok t \<longleftrightarrow> (tm_interval t > 0 \<longrightarrow> tm_id t < kBootTimers)"

lemma timerBegin_step:
  assumes "timerBegin t (env_loop w) = ((b, cb), el)"
  shows "gov_step w (w\<lparr>env_loop := el\<rparr>)"
proof -
  have "loop_ext w (w\<lparr>env_loop := el\<rparr>)"
    using assms by (auto simp: loop_ext_def timerBegin_def um_find_erase split: if_splits)
  moreover have "gov_same w (w\<lparr>env_loop := el\<rparr>)" by (rule gov_sameI) simp
  ultimately show ?thesis by (simp add: gov_step_def)
qed

lemma timerBegin_conserves:
  fixes w :: "'j World"
  assumes "winv H w" "timerBegin t (env_loop w) = ((b, cb), el)" "\<And>ts i. cb \<noteq> Some (TQueueTimeout ts i)"
  shows "winv H (w\<lparr>env_loop := el\<rparr>) \<and> owed (w\<lparr>env_loop := el\<rparr>) = owed w"
proof -
  have "gov_result (H + call_permits w) (waiting w) ([], w\<lparr>env_loop := el\<rparr>)"
    using assms(1) gov_inv_timerBegin_other(1) [OF _ assms(2,3)] by (simp add: gov_result_def winv_def waiting_def)
  from pres_gov [OF assms(1) this] show ?thesis
    using timerBegin_step [OF assms(2)] by (simp add: pres_def owed_def)
qed

lemma timerEnd_None: "timerEnd now t None el = el \<or>
    tm_interval t > 0 \<and> timerEnd now t None el = el\<lparr>el_timers := el_timers el @ [t\<lparr>tm_when := now + tm_interval t\<rparr>]\<rparr>"
  by (simp add: timerEnd_def)

text \<open>Back into the heap: only a periodic timer, with its own closure or none.\<close>

lemma winv_insert_boot:
  assumes inv: "winv H w" and t: "tm_id t < kBootTimers" "tm_id t \<notin> set (el_canceled (env_loop w))"
    and cb: "cb = TProbe \<or> cb = TGrantRefresh"
  shows "winv H (w\<lparr>env_loop := insertTimer t cb (env_loop w)\<rparr>)"
proof -
  let ?w = "w\<lparr>env_loop := insertTimer t cb (env_loop w)\<rparr>"
  have b: "boot_ok (env_loop w)" and ok: "queues_ok w" and wf: "el_wf (env_loop w)" and pr: "promote_ok w"
    using inv by (simp_all add: winv_def gov_inv_def queues_ok_def)
  have look: "timerCb ?w i = (if i = tm_id t then Some cb else timerCb w i)" for i
    by (simp add: insertTimer_def um_find_set)
  have "el_wf (env_loop ?w)"
    using wf b t by (auto simp: insertTimer_def el_wf_def boot_ok_def dom_update)
  moreover have "waiter_ok ?w ts v" if "waiter_ok w ts v" for ts v
  proof -
    have "wt_timer v \<noteq> tm_id t" using that b t(1) by (auto simp: waiter_ok_def boot_ok_def)
    then show ?thesis using that look by (simp add: waiter_ok_def insertTimer_def)
  qed
  ultimately have "queues_ok ?w" using ok by (simp add: queues_ok_def)
  then have "gov_inv (H + call_permits w) ?w"
    using inv slots_ok_cong [of ?w w "H + call_permits w"] by (simp add: winv_def gov_inv_def)
  moreover have cp: "calls_part ?w = calls_part w" by (simp add: calls_part_def)
  moreover have "promote_ok ?w"
    using pr t(1) unfolding promote_ok_def look cp by (auto simp: insertTimer_def dest: leD)
  moreover have "boot_ok (env_loop ?w)"
    using b t cb unfolding boot_ok_def look by (auto simp: insertTimer_def um_find_set)
  ultimately show ?thesis using inv by (simp add: winv_def call_permits_def calls_ok_def)
qed

lemma loop_frames:
  fixes w :: "'j World"
  shows "tokens (w\<lparr>env_loop := el\<rparr>) = tokens w" "owed (w\<lparr>env_loop := el\<rparr>) = owed w"
  by (simp_all add: tokens_def owed_def waiting_def)

lemma winv_heap:
  assumes "winv H w" "el_timers el \<in> lists (insert t (set (el_timers (env_loop w))))" "popped_ok t" "tm_id t < el_nextTimerId (env_loop w)"
    "el = (env_loop w)\<lparr>el_timers := el_timers el\<rparr>"
  shows "winv H (w\<lparr>env_loop := el\<rparr>)"
proof -
  have e: "el_timerCbs el = el_timerCbs (env_loop w)" "el_canceled el = el_canceled (env_loop w)"
    "el_nextTimerId el = el_nextTimerId (env_loop w)" "el_pending el = el_pending (env_loop w)" "el_looping el = el_looping (env_loop w)"
    by (subst assms(5), simp)+
  have wf: "el_wf el" using assms(1,2,4) e by (auto simp: winv_def gov_inv_def queues_ok_def el_wf_def)
  have "boot_ok el" using assms(1,2,3) e by (auto simp: winv_def boot_ok_def popped_ok_def)
  moreover have "gov_inv (H + call_permits w) (w\<lparr>env_loop := el\<rparr>)"
    using assms(1) wf e slots_ok_cong [of "w\<lparr>env_loop := el\<rparr>" w "H + call_permits w"]
    by (simp add: winv_def gov_inv_def queues_ok_def waiter_ok_def)
  ultimately show ?thesis
    using assms(1) e by (simp add: winv_def call_permits_def calls_part_def calls_ok_def promote_ok_def)
qed

lemma timerEnd_conserves:
  assumes inv: "winv H w" and t: "popped_ok t" and cb: "\<And>c. cb = Some c \<Longrightarrow> tm_interval t > 0 \<Longrightarrow> c = TProbe \<or> c = TGrantRefresh"
  shows "winv H (w\<lparr>env_loop := timerEnd now t cb (env_loop w)\<rparr>)"
proof (cases "tm_interval t > 0 \<and> tm_id t \<notin> set (el_canceled (env_loop w))")
  case True
  let ?t = "t\<lparr>tm_when := now + tm_interval t\<rparr>"
  have id: "tm_id t < kBootTimers" "tm_id t < el_nextTimerId (env_loop w)"
    using True t inv by (auto simp: popped_ok_def winv_def boot_ok_def)
  show ?thesis
  proof (cases cb)
    case (Some c)
    then show ?thesis using winv_insert_boot [OF inv, of ?t c] True id cb by (simp add: timerEnd_def)
  next
    case None
    have "winv H (w\<lparr>env_loop := (env_loop w)\<lparr>el_timers := el_timers (env_loop w) @ [?t]\<rparr>\<rparr>)"
      by (rule winv_heap [OF inv, where t = ?t]) (use id t in \<open>auto simp: popped_ok_def\<close>)
    then show ?thesis using True None by (simp add: timerEnd_def)
  qed
qed (use inv in \<open>auto simp: timerEnd_def\<close>)

lemma run_timer_conserves:
  fixes w :: "'j World"
  assumes inv: "winv H w" and tb: "timerBegin t (env_loop w) = ((b, Some c), el)" and run: "run_timer J c (w\<lparr>env_loop := el\<rparr>) = Inr w'"
  shows "winv H w' \<and> owed w' = owed w"
proof (cases "\<exists>ts i. c = TQueueTimeout ts i")
  case True
  then obtain ts i where c: "c = TQueueTimeout ts i" by blast
  define r where "r = onQueueTimeout ts i (w\<lparr>env_loop := el\<rparr>)"
  have "gov_inv (H + call_permits w) w" using inv by (simp add: winv_def)
  then have "gov_result (H + call_permits w) (waiting w) r"
    unfolding r_def using tb c by (intro onQueueTimeout_result) auto
  moreover have "gov_step w (snd r)"
    unfolding r_def by (rule gov_step_trans [OF timerBegin_step [OF tb] gov_step_onQueueTimeout])
  ultimately have "pres H (owed w) r" using pres_gov [OF inv] by (simp add: owed_def)
  then show ?thesis
    using run run_admits_pres [of H "owed w" "fst r" "snd r"] by (simp add: c run_timer_def r_def split_beta)
next
  case False
  then have w1: "winv H (w\<lparr>env_loop := el\<rparr>) \<and> owed (w\<lparr>env_loop := el\<rparr>) = owed w"
    using timerBegin_conserves [OF inv tb] by blast
  have "conserves (w\<lparr>env_loop := el\<rparr>) w'"
    using run False quit_frames [of "w\<lparr>env_loop := el\<rparr>"]
    by (intro conserves_shape) (auto simp: run_timer_def split: timer_cb.splits)
  then show ?thesis using w1 by (auto simp: conserves_def)
qed

lemma drop_timer_conserves: "drop_timer J c w = Inr w' \<Longrightarrow> conserves w w'"
  by (auto simp: drop_timer_def split_beta intro: conserves_dropRef split: timer_cb.splits)

lemma fire_timer_conserves:
  fixes w :: "'j World"
  assumes inv: "winv H w" and t: "popped_ok t" and run: "fire_timer J now t w = Inr w'"
  shows "winv H w' \<and> owed w' = owed w"
proof -
  obtain b cb el where tb: "timerBegin t (env_loop w) = ((b, cb), el)" by (metis prod.collapse)
  show ?thesis
  proof (cases cb)
    case None
    have "winv H (w\<lparr>env_loop := el\<rparr>) \<and> owed (w\<lparr>env_loop := el\<rparr>) = owed w"
      using timerBegin_conserves [OF inv tb] None by simp
    then show ?thesis
      using run timerEnd_conserves [of H "w\<lparr>env_loop := el\<rparr>" t None now] t tb None
      by (auto simp: fire_timer_def Let_def loop_frames split: if_splits)
  next
    case (Some c)
    obtain w2 where w2: "run_timer J c (w\<lparr>env_loop := el\<rparr>) = Inr w2"
      and d: "drop_timer J c (w2\<lparr>env_loop := timerEnd now t cb (env_loop w2)\<rparr>) = Inr w'"
      using run tb Some by (auto simp: fire_timer_def split: sum.splits)
    note r = run_timer_conserves [OF inv tb [unfolded Some] w2]
    have "c = TProbe \<or> c = TGrantRefresh" if "tm_interval t > 0"
    proof -
      have "timerCb w (tm_id t) = Some c" using tb Some by (auto simp: timerBegin_def split: if_splits)
      then show ?thesis using inv t that by (auto simp: winv_def boot_ok_def popped_ok_def)
    qed
    then have "winv H (w2\<lparr>env_loop := timerEnd now t cb (env_loop w2)\<rparr>)"
      using r t Some by (intro timerEnd_conserves) auto
    then show ?thesis using drop_timer_conserves [OF d] r by (simp add: conserves_def loop_frames)
  qed
qed

lemma fire_timers_conserves:
  "winv H w \<Longrightarrow> list_all popped_ok ts \<Longrightarrow> fire_timers J now ts w = Inr w' \<Longrightarrow> winv H w' \<and> owed w' = owed w"
proof (induction ts arbitrary: w)
  case (Cons t ts)
  obtain w1 where w1: "fire_timer J now t w = Inr w1" "fire_timers J now ts w1 = Inr w'"
    using Cons.prems(3) by (auto split: sum.splits)
  have "winv H w1 \<and> owed w1 = owed w" using fire_timer_conserves [OF Cons.prems(1) _ w1(1)] Cons.prems(2) by simp
  then show ?case using Cons.IH [OF _ _ w1(2)] Cons.prems(2) by simp
qed simp

lemma processExpiredTimers_conserves:
  assumes "processExpiredTimers J now w = Inr w'"
  shows "conserves w w'"
  unfolding conserves_def
proof (intro allI impI)
  fix H assume inv: "winv H w"
  let ?ts = "fst (popExpired now (env_loop w))"
  let ?w = "w\<lparr>env_loop := snd (popExpired now (env_loop w))\<rparr>"
  define el where "el = snd (popExpired now (env_loop w))"
  have b: "boot_ok (env_loop w)" "el_wf (env_loop w)" using inv by (simp_all add: winv_def gov_inv_def queues_ok_def)
  have "winv H ?w"
  proof -
    let ?t = "\<lparr>tm_when = 0, tm_interval = 0, tm_id = 0\<rparr>"
    have "el_timers el \<in> lists (insert ?t (set (el_timers (env_loop w))))" by (auto simp: el_def popExpired_def)
    moreover have "tm_id ?t < el_nextTimerId (env_loop w)" using b by (simp add: el_wf_def)
    moreover have "el = (env_loop w)\<lparr>el_timers := el_timers el\<rparr>" by (simp add: el_def popExpired_def)
    ultimately show ?thesis using winv_heap [OF inv, of el ?t] by (simp add: el_def popped_ok_def)
  qed
  moreover have "list_all popped_ok ?ts" using b(1) by (auto simp: list_all_iff popExpired_def boot_ok_def popped_ok_def)
  moreover have "fire_timers J now ?ts ?w = Inr w'" using assms by (simp add: processExpiredTimers_def split_beta)
  ultimately show "winv H w' \<and> owed w' = owed w" using fire_timers_conserves [of H ?w ?ts] by (simp add: loop_frames)
qed

section \<open>Workers and stop keep the account\<close>

lemma fold_onExpire_frames:
  "shape (fold onExpire gs w) = shape w \<and> tokens (fold onExpire gs w) = tokens w"
  by (induction gs arbitrary: w) (simp_all add: onExpire_def)

lemma work_conserves:
  assumes "work J mt r jb w = Inr w'"
  shows "conserves w w'"
proof -
  have run: "shape (w\<lparr>ob_tracer := t, w_running := x\<rparr>) = shape w" "tokens (w\<lparr>ob_tracer := t, w_running := x\<rparr>) = tokens w" for t x
    by (simp_all add: shape_def gov_part_def calls_part_def tokens_def)
  show ?thesis
    using assms
    by (intro conserves_shape)
      (auto simp: work_def grants_refresh_def split_beta fold_onExpire_frames run
        split: job.splits sum.splits option.splits prod.splits)
qed

lemma take_job_conserves: "take_job w = Some w' \<Longrightarrow> conserves w w'"
  by (intro conserves_shape) (auto simp: take_job_def shape_def gov_part_def calls_part_def tokens_def split: option.splits)

lemma end_job_conserves:
  assumes "end_job J mt r i w = Inr w'"
  shows "conserves w w'"
proof (cases "i < length (w_running w)")
  case True
  let ?w1 = "w\<lparr>w_running := take i (w_running w) @ drop (Suc i) (w_running w)\<rparr>"
  have "conserves w ?w1" by (rule conserves_shape) simp_all
  also have "conserves ?w1 w'" using assms True by (auto simp: end_job_def intro: work_conserves)
  finally show ?thesis .
qed (use assms in \<open>simp add: end_job_def\<close>)

lemma requestStop_conserves:
  assumes "gateway_requestStop J w = Inr w'"
  shows "conserves w w'"
  unfolding conserves_def
proof (intro allI impI)
  fix H assume inv: "winv H w"
  let ?w0 = "pipeline_requestStop J w"
  define r where "r = rejectAllQueued ?w0"
  obtain w2 where w2: "run_admits J (fst r) (snd r) = Inr w2"
    and w': "w' = snd (env_runAfter (cf_drainTimeoutMs (w_cfg w2)) TDrain w2)"
    using assms by (auto simp: gateway_requestStop_def r_def split_beta split: sum.splits)
  have inv0: "winv H ?w0" and owed0: "owed ?w0 = owed w"
    using inv winv_shape [of ?w0 w] owed_shape [of ?w0 w] by simp_all
  have "gov_inv (H + call_permits ?w0) ?w0" using inv0 by (simp add: winv_def)
  then have "gov_result (H + call_permits ?w0) (waiting ?w0) r" unfolding r_def by (rule rejectAllQueued_result)
  from pres_gov [OF inv0 this] have "pres H (owed ?w0) r" by (simp add: r_def gov_step_rejectAllQueued owed_def)
  then have "winv H w2 \<and> owed w2 = owed ?w0" using run_admits_pres [of H _ "fst r" "snd r"] w2 by simp
  then show "winv H w' \<and> owed w' = owed w"
    using winv_arm [of H w2 "cf_drainTimeoutMs (w_cfg w2)" TDrain "fst (env_runAfter (cf_drainTimeoutMs (w_cfg w2)) TDrain w2)" w'] owed0
    by (simp add: w' owed_def gov_part_def waiting_def)
qed

theorem gw_reach_inv: "gw_reach J w T \<Longrightarrow> winv {#} w \<and> owed w = T"
proof (induction rule: gw_reach.induct)
  case (start w)
  then show ?case by (simp add: gw_init_def)
next
  case (request w T mt tok req w')
  then show ?case using handle_result [of J mt tok req w w' "{#}"] by simp
next
  case (pending w T w')
  then show ?case using doPending_conserves [of J w w'] by (auto simp: conserves_def)
next
  case (timers w T now w')
  then show ?case using processExpiredTimers_conserves [of J now w w'] by (auto simp: conserves_def)
next
  case (takes_job w T w')
  then show ?case using take_job_conserves [of w w'] by (auto simp: conserves_def)
next
  case (ends_job w T mt r i w')
  then show ?case using end_job_conserves [of J mt r i w w'] by (auto simp: conserves_def)
next
  case (stop w T w')
  then show ?case using requestStop_conserves [of J w w'] by (auto simp: conserves_def)
qed

end
