(* ===== verification/Boot.thy ===== *)
theory Boot
  imports Gateway
begin

text \<open>
  Construction and start of the gateway (\<^verbatim>\<open>src/cli/Gateway.cpp\<close>, the first round of probes in
  \<^verbatim>\<open>src/health/ProbeHealth.cpp\<close>): the parts and their parameters, the catalogue of upstream
  servers, the blocking probes, the two periodic timers, and the first round of the loop that
  inserts them. Lemma: what comes out is an initial state of the state machine of \<open>Gateway\<close>.
\<close>

section \<open>Construction\<close>

fun make_catalog :: "BackendCfg list \<Rightarrow> Catalog \<Rightarrow> exn + Catalog" where
  "make_catalog [] cat = Inr cat"
| "make_catalog (b # bs) cat =
     (case HttpMcpBackend_make (bk_url b) of
        Inl e \<Rightarrow> Inl e
      | Inr be \<Rightarrow>
          make_catalog bs (Catalog_add \<lparr>ce_name = bk_name b, ce_url = bk_url b, ce_meta = bk_meta b, ce_backend = Some be\<rparr> cat))"

text \<open>\<open>e\<close>: clocks, random source and event loop; \<open>file\<close>: the grant file.\<close>

definition Gateway_make :: "'j pfun Env \<Rightarrow> (string list \<times> int) option \<Rightarrow> YamlConfig \<Rightarrow> exn + 'j World" where
  "Gateway_make e file cfg =
     (case make_catalog (cf_backends cfg) [] of
        Inl x \<Rightarrow> Inl x
      | Inr cat \<Rightarrow>
          Inr \<lparr>env_tick = env_tick e, env_steady = env_steady e, env_clk = env_clk e, env_delayNs = env_delayNs e,
               env_draws = env_draws e, env_fallback = env_fallback e, env_rnd = env_rnd e, env_loop = env_loop e,
               env_counters = Counters_init,
               gv_cfg = cfg, gv_toolInUse = [], gv_principalInUse = [], gv_queues = [], gv_nextWaitId = 1,
               ob_pool = ThreadPool_make (unat (cf_workerQueueMax cfg)),
               ob_tracer = \<lparr>tr_service = cf_otelService cfg, tr_queueMax = unat (cf_otelQueueMax cfg), tr_q = [],
                  tr_draining = False, tr_closed = False, tr_live = []\<rparr>,
               w_cfg = cfg, w_catalog = cat, w_index = ToolIndex_empty, w_inflight = InFlight_init,
               w_circuit = \<lparr>cc_openAfter = cf_circuitOpenAfter cfg, cc_cooldownMs = cf_circuitCooldownMs cfg,
                  cc_halfOpenProbes = cf_halfOpenProbes cfg, cc_slots = []\<rparr>,
               w_health = \<lparr>ph_intervalMs = cf_healthIntervalMs cfg, ph_degradedMs = cf_degradedLatencyMs cfg,
                  ph_downAfter = cf_downAfterFailures cfg, ph_slots = []\<rparr>,
               w_tasks = MemTaskStore_make (unat (cf_taskMax cfg)), w_grants = JsonlGrantStore_make (cf_elevationTtlMs cfg) file,
               w_retry = RetryPolicy_make cfg, w_calls = [], w_nextCall = 0, w_live = [], w_byTask = [], w_stopping = False,
               w_running = [], w_outs = []\<rparr>)"

section \<open>Start\<close>

text \<open>\<open>post\<close> is the HTTP client library, \<open>g\<close> its open connections; every read of the clock takes the
  next value.\<close>

definition probeBlocking ::
  "'j json_api \<Rightarrow> http_post \<Rightarrow> string \<Rightarrow> HttpMcpBackend \<Rightarrow> (string, HttpClient) umap \<Rightarrow> 'j World \<Rightarrow> exn + ((string, HttpClient) umap \<times> 'j World)" where
  "probeBlocking J post nm be g w =
    (let (d, w1) = nowMs w; (t0, w2) = nowMs w1;
         (c0, w3) = nowMs w2; (c1, w4) = nowMs w3; (c2, w5) = nowMs w4; (c3, w6) = nowMs w5;
         (r, g1) = callBlocking J post be c0 c1 c2 c3 (probeCall J (d + 3000)) g;
         (t1, w7) = nowMs w6
     in case onProbe J nm (t1 - t0) r w7 of Inl e \<Rightarrow> Inl e | Inr w8 \<Rightarrow> Inr (g1, w8))"

fun probeAllBlocking ::
  "'j json_api \<Rightarrow> http_post \<Rightarrow> string list \<Rightarrow> (string, HttpClient) umap \<Rightarrow> 'j World \<Rightarrow> exn + ((string, HttpClient) umap \<times> 'j World)" where
  "probeAllBlocking J post [] g w = Inr (g, w)"
| "probeAllBlocking J post (nm # nms) g w =
     (case Catalog_backend (w_catalog w) nm of
        None \<Rightarrow> probeAllBlocking J post nms g w
      | Some be \<Rightarrow>
          (case probeBlocking J post nm be g w of
             Inl e \<Rightarrow> Inl e
           | Inr (g1, w1) \<Rightarrow> probeAllBlocking J post nms g1 w1))"

definition env_runEvery :: "u64 \<Rightarrow> timer_cb \<Rightarrow> ('p, 'z) Env_scheme \<Rightarrow> nat \<times> ('p, 'z) Env_scheme" where
  "env_runEvery ms cb s =
    (let (i, el) = runEvery True (env_steady s (env_clk s)) (env_delayNs s ms) cb (env_loop s)
     in (i, s\<lparr>env_clk := Suc (env_clk s), env_loop := el\<rparr>))"

definition gateway_start ::
  "'j json_api \<Rightarrow> http_post \<Rightarrow> (string, HttpClient) umap \<Rightarrow> 'j World \<Rightarrow> exn + ((string, HttpClient) umap \<times> 'j World)" where
  "gateway_start J post g w =
     (case grants_refresh J w of
        Inl e \<Rightarrow> Inl e
      | Inr w1 \<Rightarrow>
          (case probeAllBlocking J post (Catalog_names (w_catalog w1)) g w1 of
             Inl e \<Rightarrow> Inl e
           | Inr (g1, w2) \<Rightarrow>
               (let hms = cf_healthIntervalMs (w_cfg w2); gms = cf_grantRefreshMs (w_cfg w2);
                    (_, w3) = env_runEvery (if hms = 0 then 1000 else hms) TProbe w2;
                    (_, w4) = env_runEvery (if gms = 0 then 100 else gms) TGrantRefresh w3
                in Inr (g1, w4))))"

text \<open>\<^verbatim>\<open>EventLoop::loop\<close> before its first event: it marks itself as looping; nothing is due yet, and
  the queued functions run.\<close>

definition loop_begin :: "'j json_api \<Rightarrow> 'j World \<Rightarrow> exn + 'j World" where
  "loop_begin J w = doPending J (w\<lparr>env_loop := (env_loop w)\<lparr>el_looping := True\<rparr>\<rparr>)"

definition boot ::
  "'j json_api \<Rightarrow> http_post \<Rightarrow> 'j pfun Env \<Rightarrow> (string list \<times> int) option \<Rightarrow> YamlConfig \<Rightarrow> exn + 'j World" where
  "boot J post e file cfg =
     (case Gateway_make e file cfg of
        Inl x \<Rightarrow> Inl x
      | Inr w \<Rightarrow> (case gateway_start J post [] w of Inl x \<Rightarrow> Inl x | Inr (g, w1) \<Rightarrow> loop_begin J w1))"

section \<open>The start leads to an initial state\<close>

definition start_part where
  "start_part w = (gv_toolInUse w, gv_principalInUse w, gv_queues w, gv_nextWaitId w, cn_permitHeld (env_counters w),
     env_loop w, w_calls w, w_outs w, w_nextCall w, w_cfg w)"

lemma start_part_obs: "obs_rel w w' \<Longrightarrow> start_part w' = start_part w"
  by (auto simp: obs_rel_def start_part_def)

lemmas start_part_now [simp] = start_part_obs [OF obs_rel_nowMs]

lemma start_part_set [simp]:
  "start_part (w\<lparr>w_index := ix\<rparr>) = start_part w" "start_part (w\<lparr>w_circuit := cc\<rparr>) = start_part w"
  "start_part (w\<lparr>w_health := h\<rparr>) = start_part w" "start_part (w\<lparr>w_grants := g\<rparr>) = start_part w"
  "start_part (onToolsListed b ns w) = start_part w"
  by (simp_all add: start_part_def onToolsListed_def)

lemma start_part_onProbe: "onProbe J nm l r w = Inr w' \<Longrightarrow> start_part w' = start_part w"
  by (auto simp: onProbe_def onHealth_def Let_def split_beta split: sum.splits option.splits if_splits)

lemma start_part_probeBlocking: "probeBlocking J post nm be g w = Inr (g', w') \<Longrightarrow> start_part w' = start_part w"
  by (auto simp: probeBlocking_def split_beta Let_def split: sum.splits dest!: start_part_onProbe)

lemma start_part_probeAll: "probeAllBlocking J post nms g w = Inr (g', w') \<Longrightarrow> start_part w' = start_part w"
  by (induction nms arbitrary: g w) (auto split: option.splits sum.splits dest!: start_part_probeBlocking)

lemma start_part_grants: "grants_refresh J w = Inr w' \<Longrightarrow> start_part w' = start_part w"
proof -
  have "start_part (fold onExpire gs w) = start_part w" for gs :: "GrantRecord list" and w :: "'a World"
    by (induction gs arbitrary: w) (simp_all add: onExpire_def start_part_obs [OF obs_rel_audit])
  then show "grants_refresh J w = Inr w' \<Longrightarrow> start_part w' = start_part w"
    by (auto simp: grants_refresh_def split_beta split: sum.splits)
qed

text \<open>Before the loop runs, arming a periodic timer only queues its insertion.\<close>

lemma start_part_runEvery:
  assumes "\<not> el_looping (env_loop w)"
  shows "start_part (snd (env_runEvery ms cb w)) =
    (let t = \<lparr>tm_when = env_steady w (env_clk w) + env_delayNs w ms, tm_interval = env_delayNs w ms, tm_id = el_nextTimerId (env_loop w)\<rparr>;
         (tu, pu, qs, n, ph, el, cs, os, nc, cf) = start_part w
     in (tu, pu, qs, n, ph, el\<lparr>el_nextTimerId := Suc (el_nextTimerId el), el_pending := el_pending el @ [PInsertTimer t cb]\<rparr>, cs, os, nc, cf))"
  using assms by (simp add: env_runEvery_def runEvery_def runTimer_def queueInLoop_def start_part_def split_beta Let_def)

lemma gateway_start_part:
  assumes "gateway_start J post g w = Inr (g', w')" "\<not> el_looping (env_loop w)"
  shows "\<exists>t1 t2. tm_id t1 = el_nextTimerId (env_loop w) \<and> tm_id t2 = Suc (el_nextTimerId (env_loop w)) \<and>
    start_part w' = start_part (w\<lparr>env_loop := (env_loop w)\<lparr>el_nextTimerId := el_nextTimerId (env_loop w) + 2,
      el_pending := el_pending (env_loop w) @ [PInsertTimer t1 TProbe, PInsertTimer t2 TGrantRefresh]\<rparr>\<rparr>)"
proof -
  obtain w2 hms gms where s2: "start_part w2 = start_part w"
    and w': "w' = snd (env_runEvery gms TGrantRefresh (snd (env_runEvery hms TProbe w2)))"
    using assms(1)
    by (auto simp: gateway_start_def Let_def split_beta split: sum.splits dest!: start_part_probeAll start_part_grants)
  let ?w3 = "snd (env_runEvery hms TProbe w2)"
  have el: "env_loop w2 = env_loop w" using s2 by (simp add: start_part_def)
  then have n2: "\<not> el_looping (env_loop w2)" using assms(2) by simp
  have n3: "\<not> el_looping (env_loop ?w3)" "el_nextTimerId (env_loop ?w3) = Suc (el_nextTimerId (env_loop w2))"
    using n2 by (simp_all add: env_runEvery_def runEvery_def runTimer_def queueInLoop_def split_beta Let_def)
  show ?thesis
    using start_part_runEvery [OF n2, of hms TProbe] start_part_runEvery [OF n3(1), of gms TGrantRefresh] s2 el n3(2)
    by (auto simp: w' start_part_def Let_def split_beta intro!: exI)
qed

lemma Gateway_make_part:
  assumes "Gateway_make e file cfg = Inr w"
  shows "start_part w = ([], [], [], 1, 0, env_loop e, [], [], 0, cfg)"
  using assms by (auto simp: Gateway_make_def start_part_def Counters_init_def split: sum.splits)

lemma boot_init_state:
  assumes "start_part w = ([], [], [], 1, 0, el, [], [], 0, cfg)" "el_wf el" "boot_ok el"
  shows "gw_init w"
proof -
  have "gv_toolInUse w = []" "gv_principalInUse w = []" "gv_queues w = []" "cn_permitHeld (env_counters w) = 0"
    "env_loop w = el" "w_calls w = []" "w_outs w = []"
    using assms(1) by (simp_all add: start_part_def)
  then show ?thesis
    using assms(2,3)
    by (simp add: gw_init_def winv_def gov_inv_def slots_ok_def queues_ok_def permitHeld_def call_permits_def
        calls_part_def calls_ok_def promote_ok_def owed_def tokens_def waiting_def)
qed

lemma boot_steps:
  fixes w :: "'j World"
  assumes "env_loop e = EventLoop_init" "Gateway_make e file cfg = Inr w" "gateway_start J post [] w = Inr (g, w1)"
  shows "\<exists>w2. boot J post e file cfg = Inr w2 \<and> gw_init w2 \<and>
    timerCb w2 1 = Some TProbe \<and> timerCb w2 2 = Some TGrantRefresh \<and> w_cfg w2 = cfg"
proof -
  have p0: "start_part w = ([], [], [], 1, 0, EventLoop_init, [], [], 0, cfg)" using Gateway_make_part [OF assms(2)] assms(1) by simp
  then have el0: "env_loop w = EventLoop_init" by (simp add: start_part_def)
  obtain t1 t2 where t: "tm_id t1 = 1" "tm_id t2 = 2"
    and p1: "start_part w1 = start_part (w\<lparr>env_loop := EventLoop_init\<lparr>el_nextTimerId := 3,
      el_pending := [PInsertTimer t1 TProbe, PInsertTimer t2 TGrantRefresh]\<rparr>\<rparr>)"
    using gateway_start_part [OF assms(3)] by (auto simp: el0 EventLoop_init_def numeral_2_eq_2 numeral_3_eq_3)
  define el :: "(timer_cb, 'j pfun) EventLoop" where "el = insertTimer t2 TGrantRefresh (insertTimer t1 TProbe
      (EventLoop_init\<lparr>el_nextTimerId := 3, el_pending := [], el_looping := True\<rparr>))"
  define w2 where "w2 = w1\<lparr>env_loop := el\<rparr>"
  have el1: "env_loop w1 = EventLoop_init\<lparr>el_nextTimerId := 3,
      el_pending := [PInsertTimer t1 TProbe, PInsertTimer t2 TGrantRefresh]\<rparr>"
    using p1 by (simp add: start_part_def)
  have "loop_begin J w1 = Inr w2"
    by (simp add: loop_begin_def doPending_def doPending_swap_def el1 run_fn_def w2_def el_def EventLoop_init_def)
  then have b: "boot J post e file cfg = Inr w2" using assms(2,3) by (simp add: boot_def)
  have "el_wf el" "boot_ok el"
    using t by (auto simp: el_def insertTimer_def EventLoop_init_def el_wf_def boot_ok_def kBootTimers_def um_wf_def um_find_set split: if_splits)
  moreover have p2: "start_part w2 = ([], [], [], 1, 0, el, [], [], 0, cfg)" using p0 p1 by (simp add: w2_def start_part_def)
  ultimately have "gw_init w2" by (intro boot_init_state)
  then show ?thesis
    using b t p2 by (auto simp: w2_def el_def insertTimer_def EventLoop_init_def start_part_def)
qed

end
