(* ===== verification/Sample_World.thy ===== *)
theory Sample_World
  imports Boot Json_Sample
begin

text \<open>
  A concrete gateway for the witnesses: one upstream server \<open>b\<close> that is up, the default
  configuration, the agent \<open>ann\<close>, and the JSON values of \<open>Json_Sample\<close>.
\<close>

definition sample_env :: "jv pfun Env" where
  "sample_env = \<lparr>env_tick = (\<lambda>n. 1000), env_steady = (\<lambda>n. int n), env_clk = 0, env_delayNs = (\<lambda>ms. uint ms * 1000000),
     env_draws = (\<lambda>n. []), env_fallback = (\<lambda>n i. of_nat n), env_rnd = 0, env_loop = EventLoop_init, env_counters = Counters_init\<rparr>"

definition sample_post :: http_post where
  "sample_post host port path hs body rt wt = Inl hl_Other"

definition sample_base :: "jv World" where
  "sample_base = projr (Gateway_make sample_env None YamlConfig_default)"

text \<open>The loop with the two timers of the start.\<close>

definition sample_loop :: "(timer_cb, jv pfun) EventLoop" where
  "sample_loop =
     insertTimer \<lparr>tm_when = 100, tm_interval = 100, tm_id = 2\<rparr> TGrantRefresh
       (insertTimer \<lparr>tm_when = 5000, tm_interval = 5000, tm_id = 1\<rparr> TProbe
         (EventLoop_init\<lparr>el_nextTimerId := 3, el_looping := True\<rparr>))"

definition sample_world :: "jv World" where
  "sample_world = sample_base\<lparr>env_loop := sample_loop,
     w_catalog := [(''b'', \<lparr>ce_name = ''b'', ce_url = ''http://h/m'', ce_meta = BackendMeta_default,
       ce_backend = Some \<lparr>hb_url = ''http://h/m'', hb_host = ''h'', hb_port = 80, hb_path = ''/m''\<rparr>\<rparr>)],
     w_health := (w_health sample_base)\<lparr>ph_slots := [(''b'', PSlot_default\<lparr>ps_state := Up\<rparr>)]\<rparr>\<rparr>"

definition sample_who :: Principal where
  "sample_who = \<lparr>p_agentId = ''ann'', p_level = 0, p_grantBump = 0, p_hasLevel = True, p_admin = False, p_levelName = ''default''\<rparr>"

definition sample_req :: "string \<Rightarrow> string \<Rightarrow> jv Request" where
  "sample_req m nm = \<lparr>rq_method = m, rq_name = nm, rq_upstreamId = ''1'', rq_idJson = JInt 1, rq_params = JObj [],
     rq_meta = JObj [], rq_who = sample_who, rq_trace = TraceContext_default, rq_deadlineMs = 61000, rq_caps = \<lparr>c_tasks = False\<rparr>\<rparr>"

abbreviation sample_key :: ToolKey where
  "sample_key \<equiv> \<lparr>tk_backend = ''b'', tk_tool = ''t''\<rparr>"

lemmas sample_defs = sample_world_def sample_base_def sample_env_def sample_loop_def Gateway_make_def YamlConfig_default_def
  insertTimer_def EventLoop_init_def Counters_init_def

lemma sample_base_make: "Gateway_make sample_env None YamlConfig_default = Inr sample_base"
  by (simp add: sample_base_def Gateway_make_def YamlConfig_default_def)

lemma sample_loop_ok: "el_wf sample_loop" "boot_ok sample_loop"
  by (auto simp: sample_loop_def insertTimer_def EventLoop_init_def el_wf_def boot_ok_def kBootTimers_def um_wf_def split: if_splits)

lemma sample_world_part: "start_part sample_world = ([], [], [], 1, 0, sample_loop, [], [], 0, w_cfg sample_world)"
  using Gateway_make_part [OF sample_base_make] by (simp add: sample_world_def start_part_def)

lemma sample_world_init: "gw_init sample_world"
  by (rule boot_init_state [OF sample_world_part sample_loop_ok])

lemma sample_world_fields:
  "w_calls sample_world = []" "w_outs sample_world = []" "w_nextCall sample_world = 0" "env_loop sample_world = sample_loop"
  "w_inflight sample_world = InFlight_init" "w_stopping sample_world = False" "w_tasks sample_world = MemTaskStore_make 10000"
  "gv_toolInUse sample_world = []" "gv_principalInUse sample_world = []" "gv_cfg sample_world = YamlConfig_default"
  "ob_pool sample_world = ThreadPool_make 256" "upstream_jobs sample_world = []" "cc_slots (w_circuit sample_world) = []"
  by (simp_all add: sample_world_def sample_base_def sample_env_def Gateway_make_def YamlConfig_default_def upstream_jobs_def ThreadPool_make_def)

lemma sample_parse: "ToolKey_parse ''b__t'' = Some sample_key" "ToolKey_parse ''x__t'' = Some \<lparr>tk_backend = ''x'', tk_tool = ''t''\<rparr>"
  by (simp_all add: ToolKey_parse_def sv_substr_def)

lemma sample_allowed: "authorizeCall (w_catalog sample_world) sample_who sample_key = Allow"
  "authorizeCall (w_catalog sample_world) sample_who \<lparr>tk_backend = ''x'', tk_tool = ''t''\<rparr> = Unknown"
  by (simp_all add: authorizeCall_def Catalog_find_def sample_world_def sample_who_def visible_def effectiveRank_def BackendMeta_default_def)

lemma sample_lookup: "InFlight_lookup ag key h InFlight_init = None"
  by (simp add: InFlight_lookup_def InFlight_init_def)

lemma sample_no_confirm: "\<not> (j_is_object jv_api (rq_meta (sample_req m nm)) \<and> j_contains jv_api (rq_meta (sample_req m nm)) kConfirmKey)"
  by (simp add: sample_req_def jv_api_def jv_contains_def)

lemma sample_slot: "canTake sample_world ts ag"
  by (simp add: canTake_def sample_world_fields toolLimit_def YamlConfig_default_def)

lemma sample_closed: "\<not> fst (isOpen s now (w_circuit sample_world))"
  by (simp add: isOpen_def circuit_state_def sample_world_fields CSlot_default_def maybeHalfOpen_def cslot_update_def um_at_def Let_def split_beta)

lemma sample_up: "health_state (w_health sample_world) ''b'' \<noteq> Down"
  by (simp add: sample_world_def health_state_def)

lemma sample_backend: "Catalog_backend (w_catalog sample_world) ''b'' \<noteq> None"
  by (simp add: sample_world_def Catalog_backend_def Catalog_find_def)

lemma sample_pool: "\<not> tp_stop (ob_pool sample_world)" "\<not> tp_full (ob_pool sample_world)"
  by (simp_all add: sample_world_fields ThreadPool_make_def tp_full_def)

lemmas sample_facts = sample_parse sample_allowed sample_lookup sample_no_confirm sample_slot sample_closed sample_up sample_pool

end
