(* ===== verification/Pipeline_Laws.thy ===== *)
theory Pipeline_Laws
  imports Sample_World
begin

text \<open>
  What the handlers of the pipeline promise, request by request: refused and repeated requests
  never reach the governor or a worker, a draining gateway takes no new call, tasks belong to
  their owner, a promoted call is answered as its client can understand, an upstream time-out is
  final, the hash of the parameters ignores \<^verbatim>\<open>_meta\<close>.
\<close>

section \<open>Answers at once\<close>

text \<open>\<open>quiet\<close>: nothing changed but the clock, the random source, observation, and one more answer.\<close>

definition quiet :: "nat \<Rightarrow> 'j World \<Rightarrow> 'j Response \<Rightarrow> 'j World \<Rightarrow> bool" where
  "quiet tok w r w' \<longleftrightarrow> (\<exists>w1. obs_rel w w1 \<and> w' = w1\<lparr>w_outs := w_outs w @ [(tok, r)]\<rparr>)"

lemma obs_rel_more:
  fixes w :: "'j World"
  assumes "obs_rel w w'"
  shows "env_loop w' = env_loop w" "upstream_jobs w' = upstream_jobs w" "w_catalog w' = w_catalog w"
    "w_stopping w' = w_stopping w" "w_byTask w' = w_byTask w" "w_live w' = w_live w" "w_grants w' = w_grants w"
  using assms unfolding obs_rel_def by (elim conjE exE, simp)+

lemma quiet_world:
  assumes "quiet tok w r w'"
  shows "gov_part w' = gov_part w" "w_calls w' = w_calls w" "w_inflight w' = w_inflight w" "w_tasks w' = w_tasks w"
    "env_loop w' = env_loop w" "upstream_jobs w' = upstream_jobs w" "w_outs w' = w_outs w @ [(tok, r)]"
proof -
  obtain w1 where w1: "obs_rel w w1" "w' = w1\<lparr>w_outs := w_outs w @ [(tok, r)]\<rparr>"
    using assms by (auto simp: quiet_def)
  show "gov_part w' = gov_part w" "w_calls w' = w_calls w" "w_inflight w' = w_inflight w" "w_tasks w' = w_tasks w"
    "env_loop w' = env_loop w" "upstream_jobs w' = upstream_jobs w" "w_outs w' = w_outs w @ [(tok, r)]"
    using obs_rel_world [OF w1(1)] obs_rel_more [OF w1(1)] by (simp_all add: w1(2) gov_part_def upstream_jobs_def)
qed

lemma finish_quiet:
  "\<exists>r'. quiet (fi_token f) w r' (finish_call J f r w) \<and> r_klass r' = r_klass r \<and> r_body r' = r_body r \<and>
     r_isError r' = r_isError r \<and> r_httpStatus r' = r_httpStatus r"
proof -
  define r1 where "r1 = r\<lparr>r_gatewayMs := fst (nowMs w) - fi_t0 f\<rparr>"
  define r2 where "r2 = (if r_upstreamId r1 = [] then r1\<lparr>r_upstreamId := rq_upstreamId (fi_req f)\<rparr> else r1)"
  define w3 where "w3 = trace_end J (fi_total f) (r_klass r2) (r_gatewayMs r2)
      (trace_end J (rq_trace (fi_req f)) (r_klass r2) (r_gatewayMs r2) (snd (nowMs w)))"
  have o: "obs_rel w w3"
    unfolding w3_def by (rule obs_rel_trans [OF obs_rel_nowMs obs_rel_trans [OF obs_rel_trace_end obs_rel_trace_end]])
  have "finish_call J f r w = w3\<lparr>w_outs := w_outs w3 @ [(fi_token f, r2)]\<rparr>"
    by (simp add: finish_call_def r1_def r2_def w3_def Let_def split_beta)
  then have "quiet (fi_token f) w r2 (finish_call J f r w)"
    using o obs_rel_world(5) [OF o] by (auto simp: quiet_def)
  then show ?thesis by (intro exI [of _ r2]) (simp add: r1_def r2_def)
qed

lemma quiet_obs: "obs_rel w w1 \<Longrightarrow> quiet tok w1 r w' \<Longrightarrow> quiet tok w r w'"
  unfolding quiet_def using obs_rel_world(5) obs_rel_trans by metis

lemma obs_rel_handle_open: "obs_rel w (snd (handle_open tok req w))"
  unfolding handle_open_def Let_def split_beta snd_conv
  by (rule obs_rel_trans [OF obs_rel_nowMs obs_rel_trans [OF obs_rel_trace_start obs_rel_trace_start]])

lemma handle_open_req:
  "rq_method (fst (fst (handle_open tok req w))) = rq_method req" "rq_name (fst (fst (handle_open tok req w))) = rq_name req"
  "rq_who (fst (fst (handle_open tok req w))) = rq_who req" "rq_params (fst (fst (handle_open tok req w))) = rq_params req"
  "rq_meta (fst (fst (handle_open tok req w))) = rq_meta req" "rq_caps (fst (fst (handle_open tok req w))) = rq_caps req"
  by (simp_all add: handle_open_def Let_def split_beta)

text \<open>A call by its name, in the state after the opening of its spans.\<close>

lemma handle_tools_call:
  assumes "rq_method req = ''tools/call''"
  obtains req1 f w1 where "handle J mt tok req w = handleCall J mt req1 f w1" "obs_rel w w1" "fi_token f = tok"
    "rq_name req1 = rq_name req" "rq_who req1 = rq_who req" "rq_params req1 = rq_params req" "rq_meta req1 = rq_meta req"
    "rq_caps req1 = rq_caps req" "w1 = snd (handle_open tok req w)"
proof -
  let ?o = "handle_open tok req w"
  have "handle J mt tok req w = handleCall J mt (fst (fst ?o)) (snd (fst ?o)) (snd ?o)"
    using assms handle_open_req(1) [of tok req w] by (simp add: handle_def split_beta Let_def)
  then show thesis by (rule that) (simp_all add: obs_rel_handle_open handle_open_frames(3) handle_open_req)
qed

section \<open>Refused and repeated calls\<close>

lemma pipeline_audit_obs: "obs_rel w (pipeline_audit e req k t w)"
  by (simp add: pipeline_audit_def Let_def obs_rel_audit)



text \<open>The parts of a forwarded call's path that come before the governor.\<close>

lemma handleCall_forward:
  assumes "ToolKey_parse (rq_name req) = Some key" "authorizeCall (w_catalog w) (rq_who req) key = Allow"
    "tk_backend key \<noteq> ''perfacet''" "\<not> (j_is_object J (rq_meta req) \<and> j_contains J (rq_meta req) kConfirmKey)"
  shows "handleCall J mt req f w =
    (case InFlight_lookup (p_agentId (rq_who req)) key (paramsHashOf J (rq_params req)) (w_inflight w) of
       None \<Rightarrow> admitCall J req key (paramsHashOf J (rq_params req)) f w
     | Some e \<Rightarrow> Inr (answerHit J req key e f w))"
  using assms by (auto simp: handleCall_def Let_def split: option.splits)

text \<open>What a repeated request may touch: tasks, and the task of the running call.\<close>

definition hit_part where
  "hit_part (w :: 'j World) = (gov_part w, env_loop w, upstream_jobs w, map fst (w_calls w), map (cl_responded \<circ> snd) (w_calls w), w_outs w,
     map (fst) (if_byId (w_inflight w)), w_stopping w)"

lemma hit_part_obs:
  assumes "obs_rel w w'"
  shows "hit_part w' = hit_part w"
  using obs_rel_world [OF assms] obs_rel_more [OF assms] by (simp add: hit_part_def)

lemma map_fst_update_Some: "um_find m k = Some u \<Longrightarrow> map fst (um_set k v m) = map fst m"
  by (induction m) (auto split: if_splits)

lemma hit_part_setTask:
  "map fst (if_byId (InFlight_setTaskId i t f)) = map fst (if_byId f)"
  by (simp add: InFlight_setTaskId_def map_fst_update_Some split: option.splits)

lemma hit_part_fields [simp]:
  "hit_part (w\<lparr>w_tasks := m\<rparr>) = hit_part w"
  "hit_part (w\<lparr>w_inflight := InFlight_setTaskId i t (w_inflight w)\<rparr>) = hit_part w"
  "hit_part (w\<lparr>w_byTask := b, w_inflight := InFlight_setTaskId i t (w_inflight w)\<rparr>) = hit_part w"
  by (simp_all add: hit_part_def gov_part_def upstream_jobs_def hit_part_setTask)

lemmas hit_part_obs_simps [simp] =
  hit_part_obs [OF obs_rel_nowMs] hit_part_obs [OF obs_rel_randomHex] hit_part_obs [OF obs_rel_trace_set]
  hit_part_obs [OF pipeline_audit_obs]

lemma hit_part_taskId: "hit_part (upd_call a (\<lambda>c. c\<lparr>cl_taskId := t\<rparr>) w) = hit_part w"
  by (simp add: upd_call_def hit_part_def gov_part_def upstream_jobs_def map_fst_update_Some map_um_set_same split: option.splits)

lemma upd_call_inflight [simp]: "w_inflight (upd_call a f w) = w_inflight w" "w_byTask (upd_call a f w) = w_byTask w"
  by (simp_all add: upd_call_def split: option.splits)

lemma hit_part_attachTask [simp]: "hit_part (attachTask a t w) = hit_part w"
proof -
  let ?u = "upd_call a (\<lambda>c. c\<lparr>cl_taskId := t\<rparr>) w"
  have "hit_part (?u\<lparr>w_byTask := b, w_inflight := InFlight_setTaskId i t (w_inflight w)\<rparr>) = hit_part w" for b i
    using hit_part_fields(3) [where w = ?u and b = b and i = i and t = t] by (simp add: hit_part_taskId)
  then show ?thesis by (simp add: attachTask_def Let_def split: option.splits)
qed

lemma hit_part_tasks [simp]:
  "hit_part (snd (makeTask J req key t w)) = hit_part w" "hit_part (snd (insert_task tk w)) = hit_part w"
  "hit_part (snd (read_task tid w)) = hit_part w"
  by (simp_all add: makeTask_def insert_task_def read_task_def Let_def split_beta)

lemma hit_part_hitTask [simp]: "hit_part (snd (hitTask J req key hit w)) = hit_part w"
  by (simp add: hitTask_def Let_def split_beta split: option.splits)

lemma hit_part_counters:
  "hit_part (w\<lparr>env_counters := (env_counters w)\<lparr>cn_inflightHit := n\<rparr>\<rparr>) = hit_part w"
  by (simp add: hit_part_def gov_part_def upstream_jobs_def)

lemma answerHit_finish:
  "\<exists>r w1. answerHit J req key hit f w = finish_call J f r w1 \<and> hit_part w1 = hit_part w"
proof -
  have "\<exists>r w1. X = finish_call J f r w1 \<and> hit_part w1 = hit_part w" if "X = finish_call J f r w1" "hit_part w1 = hit_part w" for X r w1
    using that by blast
  then show ?thesis
    unfolding answerHit_def Let_def split_beta
    by (auto simp: hit_part_counters split: option.splits)
qed


text \<open>For the witness: the same world, in which \<open>ann\<close> runs a call already.\<close>

definition sample_busy :: "jv World" where
  "sample_busy = sample_world\<lparr>w_inflight := InFlight_put \<lparr>ie_inflightId = ''i'', ie_startedAtMs = 900, ie_taskId = None,
     ie_paramsSummary = ''{}'', ie_key = sample_key, ie_agentId = ''ann'', ie_paramsHash = paramsHashOf jv_api (JObj [])\<rparr> InFlight_init\<rparr>"


text \<open>while the gateway drains, an allowed tool call that is not a repetition is refused with
  status 503; it takes no permit and reaches no upstream server.\<close>

theorem draining_refuses:
  assumes "rq_method req = ''tools/call''" "ToolKey_parse (rq_name req) = Some key"
    and "authorizeCall (w_catalog w) (rq_who req) key = Allow" "tk_backend key \<noteq> ''perfacet''"
    and "InFlight_lookup (p_agentId (rq_who req)) key (paramsHashOf J (rq_params req)) (w_inflight w) = None"
    and "\<not> (j_is_object J (rq_meta req) \<and> j_contains J (rq_meta req) kConfirmKey)" "w_stopping w"
  shows "\<exists>w' r. handle J mt tok req w = Inr w' \<and> w_outs w' = w_outs w @ [(tok, r)] \<and> r_httpStatus r = 503 \<and>
     r_klass r = Unavailable \<and> gov_part w' = gov_part w \<and> upstream_jobs w' = upstream_jobs w \<and> w_calls w' = w_calls w"
proof -
  obtain req1 f w1 where h: "handle J mt tok req w = handleCall J mt req1 f w1" "obs_rel w w1" "fi_token f = tok"
    "rq_name req1 = rq_name req" "rq_who req1 = rq_who req" "rq_params req1 = rq_params req" "rq_meta req1 = rq_meta req"
    using handle_tools_call [OF assms(1), of J mt tok w] .
  define a where "a = (Response_default J)\<lparr>r_klass := Unavailable, r_httpStatus := 503, r_isError := True,
      r_body := jsonRpcError J (-32000) ''draining'' (j_obj J [])\<rparr>"
  have hc: "handleCall J mt req1 f w1 = Inr (finish_call J f a w1)"
    using handleCall_forward [of req1 key w1 J mt f] assms(2-7) h(4-7) obs_rel_more(3,4) [OF h(2)] obs_rel_world(7) [OF h(2)]
    by (simp add: admitCall_def a_def)
  obtain r' where r': "quiet tok w1 r' (finish_call J f a w1)" "r_klass r' = Unavailable" "r_httpStatus r' = 503"
    using finish_quiet [of f w1 J a] h(3) by (auto simp: a_def)
  show ?thesis
    using quiet_world [OF quiet_obs [OF h(2) r'(1)]] r'
    by (intro exI [of _ "finish_call J f a w1"] exI [of _ r']) (simp add: h(1) hc del: finish_call_frames)
qed

theorem draining_refuses_witness:
  "\<exists>w' r. handle jv_api 0 7 (sample_req ''tools/call'' ''b__t'') (sample_world\<lparr>w_stopping := True\<rparr>) = Inr w' \<and>
     w_outs w' = [(7, r)] \<and> r_httpStatus r = 503 \<and> upstream_jobs w' = []"
proof -
  let ?w = "sample_world\<lparr>w_stopping := True\<rparr>"
  have j: "upstream_jobs ?w = []" by (simp add: upstream_jobs_def sample_world_fields ThreadPool_make_def)
  show ?thesis
    using draining_refuses [of "sample_req ''tools/call'' ''b__t''" sample_key ?w jv_api 0 7] sample_no_confirm [of "''tools/call''" "''b__t''"]
    by (simp add: sample_req_def sample_facts sample_world_fields j) blast
qed

section \<open>Answers of a running call\<close>

lemma upd_call_frames2 [simp]:
  "upstream_jobs (upd_call a f w) = upstream_jobs w" "w_outs (upd_call a f w) = w_outs w" "w_tasks (upd_call a f w) = w_tasks w"
  "env_loop (upd_call a f w) = env_loop w"
  by (simp_all add: upd_call_def upstream_jobs_def split: option.splits)

lemmas now_world [simp] =
  obs_rel_world(3-5,7,8) [OF obs_rel_nowMs] obs_rel_more [OF obs_rel_nowMs]
  obs_rel_world(3-5,7,8) [OF obs_rel_randomHex] obs_rel_more [OF obs_rel_randomHex]
  obs_rel_world(3-5,7,8) [OF obs_rel_trace_set] obs_rel_more [OF obs_rel_trace_set]
  obs_rel_world(3-5,7,8) [OF obs_rel_trace_end] obs_rel_more [OF obs_rel_trace_end]
  obs_rel_world(3-5,7,8) [OF pipeline_audit_obs] obs_rel_more [OF pipeline_audit_obs]

lemma respond_result:
  assumes "um_find (w_calls w) a = Some c" "\<not> cl_responded c"
  shows "\<exists>r'. w_outs (respond J a r w) = w_outs w @ [(fi_token (cl_done c), r')] \<and> r_klass r' = r_klass r \<and> r_body r' = r_body r \<and>
     r_httpStatus r' = r_httpStatus r \<and> r_isError r' = r_isError r \<and>
     w_calls (respond J a r w) = um_set a (c\<lparr>cl_responded := True\<rparr>) (w_calls w) \<and> w_tasks (respond J a r w) = w_tasks w \<and>
     upstream_jobs (respond J a r w) = upstream_jobs w"
proof -
  define w2 where "w2 = snd (nowMs (upd_call a (\<lambda>c. c\<lparr>cl_responded := True\<rparr>) w))"
  define r1 where "r1 = r\<lparr>r_gatewayMs := fst (nowMs (upd_call a (\<lambda>c. c\<lparr>cl_responded := True\<rparr>) w)) - cl_t0 c\<rparr>"
  define w3 where "w3 = (if \<not> r_isError r1 \<and> r_klass r1 = Ok \<and> rq_method (cl_req c) = ''tools/call''
      then pipeline_audit ''ok'' (cl_req c) Ok (if ToolKey_str (cl_key c) = [] then rq_name (cl_req c) else ToolKey_str (cl_key c)) w2 else w2)"
  have eq: "respond J a r w = finish_call J (cl_done c) r1 w3"
    using assms by (simp add: respond_def r1_def w2_def w3_def Let_def split_beta)
  have w3: "w_outs w3 = w_outs w" "w_calls w3 = um_set a (c\<lparr>cl_responded := True\<rparr>) (w_calls w)" "w_tasks w3 = w_tasks w"
    "upstream_jobs w3 = upstream_jobs w"
    using assms(1) by (simp_all add: w3_def w2_def upd_call_calls)
  obtain r' where r': "quiet (fi_token (cl_done c)) w3 r' (finish_call J (cl_done c) r1 w3)" "r_klass r' = r_klass r1"
    "r_body r' = r_body r1" "r_isError r' = r_isError r1" "r_httpStatus r' = r_httpStatus r1"
    using finish_quiet [of "cl_done c" w3 J r1] by blast
  show ?thesis
    using quiet_world [OF r'(1)] w3 r'(2-5) by (intro exI [of _ r']) (simp add: eq r1_def)
qed

lemma update_task_frames2 [simp]:
  "w_outs (update_task tid st b w) = w_outs w" "upstream_jobs (update_task tid st b w) = upstream_jobs w"
  by (simp_all add: update_task_def Let_def split_beta upstream_jobs_def) (simp add: nowMs_def)

lemma cancel_promote_call:
  assumes "um_find (w_calls w) a = Some c"
  shows "\<exists>c'. um_find (w_calls (cancel_promote a w)) a = Some c' \<and> cl_responded c' = cl_responded c \<and> cl_attempt c' = cl_attempt c \<and>
     cl_upstreamDone c' = cl_upstreamDone c \<and> cl_taskId c' = cl_taskId c \<and> cl_done c' = cl_done c"
    "w_outs (cancel_promote a w) = w_outs w" "upstream_jobs (cancel_promote a w) = upstream_jobs w"
proof -
  have e: "w_calls (env_cancel t w) = w_calls w" "w_outs (env_cancel t w) = w_outs w" "upstream_jobs (env_cancel t w) = upstream_jobs w" for t
    by (simp_all add: env_cancel_def upstream_jobs_def)
  show "\<exists>c'. um_find (w_calls (cancel_promote a w)) a = Some c' \<and> cl_responded c' = cl_responded c \<and> cl_attempt c' = cl_attempt c \<and>
     cl_upstreamDone c' = cl_upstreamDone c \<and> cl_taskId c' = cl_taskId c \<and> cl_done c' = cl_done c"
    using assms by (simp add: cancel_promote_def upd_call_calls e um_find_set)
  show "w_outs (cancel_promote a w) = w_outs w" "upstream_jobs (cancel_promote a w) = upstream_jobs w"
    using assms by (simp_all add: cancel_promote_def e)
qed

text \<open>After the last attempt the call has answered and sends nothing more.\<close>

lemma upstream_final_result:
  assumes "um_find (w_calls w) a = Some c"
  shows "\<exists>c'. um_find (w_calls (upstream_final J a r w)) a = Some c' \<and> cl_responded c' \<and> cl_upstreamDone c' \<and>
     cl_attempt c' = cl_attempt c" "upstream_jobs (upstream_final J a r w) = upstream_jobs w"
proof -
  let ?u = "upd_call a (\<lambda>c. c\<lparr>cl_upstreamDone := True\<rparr>) w"
  have u: "um_find (w_calls ?u) a = Some (c\<lparr>cl_upstreamDone := True\<rparr>)" using assms by (simp add: upd_call_calls um_find_set)
  obtain c1 where c1: "um_find (w_calls (cancel_promote a ?u)) a = Some c1" "cl_responded c1 = cl_responded c"
    "cl_attempt c1 = cl_attempt c" "cl_upstreamDone c1"
    using cancel_promote_call(1) [OF u] by auto
  define w2 where "w2 = (if cl_taskId c \<noteq> []
      then update_task (cl_taskId c) (if r_klass r = Ok \<and> \<not> r_isError r then ''completed'' else ''failed'') (r_body r) (cancel_promote a ?u)
      else cancel_promote a ?u)"
  define r' where "r' = (if r_klass r \<noteq> Ok \<and> (\<not> j_is_object J (r_body r) \<or> \<not> j_contains J (r_body r) ''content'')
      then r\<lparr>r_body := callToolText J (failureClassName (r_klass r)) True\<rparr> else r)"
  have eq: "upstream_final J a r w = (if \<not> cl_responded c then respond J a r' w2 else w2)"
    using assms by (simp add: upstream_final_def w2_def r'_def Let_def)
  have w2: "um_find (w_calls w2) a = Some c1" "upstream_jobs w2 = upstream_jobs w"
    using c1 cancel_promote_call(3) [OF u] by (simp_all add: w2_def)
  show "\<exists>c'. um_find (w_calls (upstream_final J a r w)) a = Some c' \<and> cl_responded c' \<and> cl_upstreamDone c' \<and> cl_attempt c' = cl_attempt c"
    using respond_result [OF w2(1), of J r'] c1 w2 by (auto simp: eq um_find_set)
  show "upstream_jobs (upstream_final J a r w) = upstream_jobs w"
    using respond_result [OF w2(1), of J r'] c1 w2 by (auto simp: eq)
qed

lemma circuit_record_jobs: "upstream_jobs (snd (circuit_record a r w)) = upstream_jobs w"
proof -
  have c: "upstream_jobs (w\<lparr>w_circuit := x\<rparr>) = upstream_jobs w" for w :: "'a World" and x by (simp add: upstream_jobs_def)
  show ?thesis by (simp add: circuit_record_def Let_def split_beta c split: option.splits)
qed

text \<open>an upstream time-out is final: whatever the retry policy and the idempotent tools say, the call
  answers its client, is marked as done and makes no further attempt.\<close>

theorem timeout_is_final:
  assumes "um_find (w_calls w) a = Some c" "\<not> cl_cancelled c" "r_klass r = Timeout"
  shows "\<exists>w' c'. onUpstream J a r w = Inr w' \<and> um_find (w_calls w') a = Some c' \<and> cl_responded c' \<and> cl_upstreamDone c' \<and>
     cl_attempt c' = cl_attempt c \<and> upstream_jobs w' = upstream_jobs w"
proof -
  define w1 where "w1 = (if cl_upSpanLive c
     then upd_call a (\<lambda>c. c\<lparr>cl_upSpanLive := False\<rparr>) (trace_end J (cl_upTrace c) (r_klass r) (r_upstreamMs r) w) else w)"
  define w3 where "w3 = snd (nowMs (snd (circuit_record a r w1)))"
  have no: "\<not> shouldRetry rp Timeout key meta n d now op True" for rp key meta n d now op
    by (simp add: shouldRetry_def)
  have eq: "onUpstream J a r w = Inr (upstream_final J a r w3)"
    unfolding onUpstream_def onUpstream_with_def assms(1) option.case Let_def split_beta w1_def [symmetric] w3_def [symmetric]
    using assms(2,3) no by simp
  have w3: "upstream_jobs w3 = upstream_jobs w" by (simp add: w3_def w1_def circuit_record_jobs)
  have "\<exists>c3. um_find (w_calls w3) a = Some c3 \<and> cl_attempt c3 = cl_attempt c"
    using assms(1) by (simp add: w3_def w1_def upd_call_calls um_find_set)
  then obtain c3 where c3: "um_find (w_calls w3) a = Some c3" "cl_attempt c3 = cl_attempt c" by blast
  show ?thesis using eq upstream_final_result [OF c3(1), of J r] c3(2) w3 by auto
qed

text \<open>A call that is waiting for its server, at the address 0.\<close>

definition sample_call :: "jv Call" where
  "sample_call = \<lparr>cl_permit = \<lparr>pm_key = sample_key, pm_agentId = ''ann''\<rparr>, cl_req = sample_req ''tools/call'' ''b__t'',
     cl_done = \<lparr>fi_token = 7, fi_t0 = 900, fi_req = sample_req ''tools/call'' ''b__t'', fi_total = TraceContext_default\<rparr>,
     cl_trace = TraceContext_default, cl_upTrace = TraceContext_default, cl_upSpanLive = False, cl_responded = False,
     cl_upstreamDone = False, cl_cancelled = False, cl_promoteTimer = 0, cl_inflightId = ''i'', cl_paramsHash = ''h'',
     cl_taskId = [], cl_key = sample_key, cl_attempt = 1, cl_t0 = 900\<rparr>"

theorem timeout_is_final_witness:
  "\<exists>w' c'. onUpstream jv_api 0 ((Response_default jv_api)\<lparr>r_klass := Timeout\<rparr>) (sample_world\<lparr>w_calls := [(0, sample_call)]\<rparr>) = Inr w' \<and>
     um_find (w_calls w') 0 = Some c' \<and> cl_responded c' \<and> cl_attempt c' = 1"
  using timeout_is_final [of "sample_world\<lparr>w_calls := [(0, sample_call)]\<rparr>" 0 sample_call "(Response_default jv_api)\<lparr>r_klass := Timeout\<rparr>" jv_api]
  by (simp add: sample_call_def) blast

section \<open>Promotion\<close>

lemma promote_answer_result:
  obtains r w' where "promote_answer J tid w = (r, w')" "w_calls w' = w_calls w" "w_outs w' = w_outs w" "upstream_jobs w' = upstream_jobs w"
    "r_klass r = Unavailable \<or> (\<exists>t. r_body r = createTaskResult J t \<and> um_find (ms_byId (w_tasks w')) tid = Some t)"
proof -
  obtain r w' where p: "promote_answer J tid w = (r, w')" by (cases "promote_answer J tid w")
  have "w_calls w' = w_calls w" "w_outs w' = w_outs w" "upstream_jobs w' = upstream_jobs w"
    using p by (auto simp: promote_answer_def read_task_def Let_def split_beta upstream_jobs_def nowMs_def)
  moreover have "r_klass r = Unavailable \<or> (\<exists>t. r_body r = createTaskResult J t \<and> um_find (ms_byId (w_tasks w')) tid = Some t)"
    using p by (auto simp: promote_answer_def read_task_def tasks_get_def Let_def split_beta answer_def split: option.splits)
  ultimately show thesis using that p by blast
qed

lemma attachTask_call:
  assumes "um_find (w_calls w) a = Some c"
  shows "um_find (w_calls (attachTask a tid w)) a = Some (c\<lparr>cl_taskId := tid\<rparr>)" "w_outs (attachTask a tid w) = w_outs w"
    "upstream_jobs (attachTask a tid w) = upstream_jobs w"
proof -
  have j: "upstream_jobs (u\<lparr>w_byTask := b, w_inflight := i\<rparr>) = upstream_jobs u" for u :: "'a World" and b i
    by (simp add: upstream_jobs_def)
  show "um_find (w_calls (attachTask a tid w)) a = Some (c\<lparr>cl_taskId := tid\<rparr>)" "w_outs (attachTask a tid w) = w_outs w"
    "upstream_jobs (attachTask a tid w) = upstream_jobs w"
    using assms by (simp_all add: attachTask_def Let_def upd_call_calls um_find_set j)
qed

lemma newTask_frames:
  "w_calls (snd (makeTask J req key t w)) = w_calls w" "w_outs (snd (makeTask J req key t w)) = w_outs w"
  "upstream_jobs (snd (makeTask J req key t w)) = upstream_jobs w"
  "w_calls (snd (insert_task tk w)) = w_calls w" "w_outs (snd (insert_task tk w)) = w_outs w"
  "upstream_jobs (snd (insert_task tk w)) = upstream_jobs w"
  by (simp_all add: makeTask_def insert_task_def Let_def split_beta) (simp add: upstream_jobs_def nowMs_def)

text \<open>What a promotion answers: \<open>r\<close>, with the call's new task identifier \<open>tid\<close>.\<close>

definition promote_reply :: "'j json_api \<Rightarrow> bool \<Rightarrow> string \<Rightarrow> 'j World \<Rightarrow> 'j Response \<Rightarrow> bool" where
  "promote_reply J tasks tid w r \<longleftrightarrow>
     (if tasks then r_klass r = Unavailable \<or> (\<exists>t. r_body r = createTaskResult J t \<and> um_find (ms_byId (w_tasks w)) tid = Some t)
      else r_klass r = Capability \<and> r_httpStatus r = 400 \<and> r_body r = missingTasksError J)"

lemma promote_respond:
  assumes "um_find (w_calls w1) a = Some c1" "\<not> cl_responded c1" "w_outs w1 = w_outs w" "upstream_jobs w1 = upstream_jobs w"
    "cl_done c1 = cl_done c" "cl_upstreamDone c1 = cl_upstreamDone c"
    "promote_reply J tasks (cl_taskId c1) w1 r"
  shows "\<exists>r' c'. w_outs (respond J a r w1) = w_outs w @ [(fi_token (cl_done c), r')] \<and>
     um_find (w_calls (respond J a r w1)) a = Some c' \<and> cl_responded c' \<and> cl_upstreamDone c' = cl_upstreamDone c \<and>
     upstream_jobs (respond J a r w1) = upstream_jobs w \<and> promote_reply J tasks (cl_taskId c') (respond J a r w1) r'"
proof -
  obtain r' where r': "w_outs (respond J a r w1) = w_outs w1 @ [(fi_token (cl_done c1), r')]" "r_klass r' = r_klass r" "r_body r' = r_body r"
     "r_httpStatus r' = r_httpStatus r" "w_calls (respond J a r w1) = um_set a (c1\<lparr>cl_responded := True\<rparr>) (w_calls w1)"
     "w_tasks (respond J a r w1) = w_tasks w1" "upstream_jobs (respond J a r w1) = upstream_jobs w1"
    using respond_result [OF assms(1,2), of J r] by blast
  show ?thesis
    by (intro exI [of _ r'] exI [of _ "c1\<lparr>cl_responded := True\<rparr>"])
      (use r' assms in \<open>simp add: um_find_set promote_reply_def\<close>)
qed



section \<open>Tasks\<close>

lemma getTask_foreign:
  assumes "\<And>t. (tid, t) \<in> set (ms_byId (w_tasks w)) \<Longrightarrow> ta_agentId t \<noteq> p_agentId who"
  shows "fst (getTask tid who w) = None" "w_calls (snd (getTask tid who w)) = w_calls w" "w_outs (snd (getTask tid who w)) = w_outs w"
    "set (ms_byId (w_tasks (snd (getTask tid who w)))) \<subseteq> set (ms_byId (w_tasks w))"
proof -
  show "fst (getTask tid who w) = None"
    using assms by (auto simp: getTask_def read_task_def tasks_get_def tasks_sweep_def Let_def split_beta
        dest: map_of_SomeD split: option.splits)
  show "w_calls (snd (getTask tid who w)) = w_calls w" "w_outs (snd (getTask tid who w)) = w_outs w"
    "set (ms_byId (w_tasks (snd (getTask tid who w)))) \<subseteq> set (ms_byId (w_tasks w))"
    by (auto simp: getTask_def read_task_def tasks_get_def tasks_sweep_def Let_def split_beta)
qed



section \<open>The hash of the parameters\<close>

lemma fold_skip: "(\<And>x. x \<in> set xs \<Longrightarrow> \<not> P x \<Longrightarrow> f x = id) \<Longrightarrow> fold f (filter P xs) a = fold f xs a"
  by (induction xs arbitrary: a) auto



lemma kHex_index: "i < 16 \<Longrightarrow> j < 16 \<Longrightarrow> kHex ! i = kHex ! j \<longleftrightarrow> i = j"
  using nth_eq_iff_index_eq [of kHex i j] by (simp add: kHex_def)

lemma nibble_less: "unat (x AND 15 :: u64) < 16"
proof -
  have "unat (x AND 15) \<le> unat (15 :: u64)" using word_and_le1 [of x 15] by (simp add: word_le_nat_alt)
  then show ?thesis by simp
qed

lemma hex16_inj: "hex16 h = hex16 h' \<longleftrightarrow> h = h'"
proof
  assume eq: "hex16 h = hex16 h'"
  have nib: "drop_bit (4 * q) h AND 15 = drop_bit (4 * q) h' AND 15" if "q < 16" for q
  proof -
    have "hex16 h ! (15 - q) = hex16 h' ! (15 - q)" using eq by simp
    then have "unat (drop_bit (60 - 4 * (15 - q)) h AND 15) = unat (drop_bit (60 - 4 * (15 - q)) h' AND 15)"
      using that nibble_less nth_upt [of 0 "15 - q" 16] by (simp add: hex16_def kHex_index)
    moreover have "60 - 4 * (15 - q) = 4 * q" using that by simp
    ultimately show ?thesis by (simp add: word_unat_eq_iff)
  qed
  show "h = h'"
  proof (rule bit_word_eqI)
    fix n assume n: "n < LENGTH(64)"
    have b: "bit (drop_bit (4 * (n div 4)) x AND 15) (n mod 4) = bit x n" for x :: u64
    proof -
      have m: "n mod 4 = 0 \<or> n mod 4 = 1 \<or> n mod 4 = 2 \<or> n mod 4 = 3" by presburger
      have "4 * (n div 4) + n mod 4 = n" by simp
      moreover have "bit (15 :: u64) (n mod 4)" using m by (auto simp: bit_numeral_rec)
      ultimately show ?thesis by (simp add: bit_and_iff bit_drop_bit_eq)
    qed
    show "bit h n = bit h' n" using nib [of "n div 4"] b [of h] b [of h'] n by simp
  qed
qed simp

text \<open>a hash is printed with exactly sixteen digits 0-9a-f, and different hashes are printed
  differently.\<close>

theorem hex16_wellformed:
  "length (hex16 h) = 16 \<and> set (hex16 h) \<subseteq> set kHex \<and> (hex16 h = hex16 h' \<longleftrightarrow> h = h')"
proof -
  have "kHex ! unat (x AND 15 :: u64) \<in> set kHex" for x
    using nibble_less [of x] by (intro nth_mem) (simp add: kHex_def)
  then show ?thesis by (auto simp: hex16_inj) (auto simp: hex16_def)
qed

end
