(* ===== verification/Forward.thy ===== *)
theory Forward
  imports Pipeline_Laws
begin

text \<open>
  The good case of a tool call: what the pipeline does with an allowed, new request when there is a
  free slot, the breaker is closed, the server is up and a worker can take the job.
\<close>

section \<open>The first attempt\<close>

lemma obs_rel_pool:
  assumes "obs_rel w w'" "\<not> tp_full (ob_pool w)"
  shows "upstream_jobs w' = upstream_jobs w"
  using assms by (simp add: obs_rel_def)

lemma trace_start_pool [simp]:
  "ob_pool (snd (trace_start req nm w)) = ob_pool w" "w_catalog (snd (trace_start req nm w)) = w_catalog w"
  "w_calls (snd (trace_start req nm w)) = w_calls w" "w_live (snd (trace_start req nm w)) = w_live w"
  by (simp_all add: trace_start_def env_randomHex_def nowMs_def Let_def split_beta)

lemma env_runAfter_world:
  fixes w :: "'j World"
  assumes "env_runAfter ms cb w = (i, w')"
  shows "ob_pool w' = ob_pool w" "w_calls w' = w_calls w" "w_outs w' = w_outs w" "w_catalog w' = w_catalog w" "w_running w' = w_running w"
    "w_live w' = w_live w"
  using assms by (auto simp: env_runAfter_def split_beta)

lemma keys_um_set: "um_find m k = Some u \<Longrightarrow> map fst (um_set k v m) = map fst m"
  by (induction m) (auto split: if_splits)

lemma set_keys_um_set: "set (map fst (um_set k v m)) = insert k (set (map fst m))"
  using dom_update [of k v m] by (simp del: set_map add: set_map)

text \<open>\<open>fireAttempt\<close> of a new call whose server is in the catalogue: the promotion timer is armed and the
  call is handed to the pool.\<close>

lemma first_attempt:
  assumes c: "um_find (w_calls w) a = Some c" "cl_attempt c = 0"
    and be: "Catalog_backend (w_catalog w) (tk_backend (cl_key c)) = Some be"
    and pool: "\<not> tp_stop (ob_pool w)" "\<not> tp_full (ob_pool w)" and wf: "el_wf (env_loop w)"
  shows "\<exists>w' c'. fireAttempt J (Suc fuel) a w = Inr w' \<and> um_find (w_calls w') a = Some c' \<and>
     cl_attempt c' = 1 \<and> cl_responded c' = cl_responded c \<and> cl_done c' = cl_done c \<and> cl_permit c' = cl_permit c \<and>
     timerCb w' (cl_promoteTimer c') = Some (TPromote a) \<and> w_outs w' = w_outs w \<and>
     tp_tasks (ob_pool w') = tp_tasks (ob_pool w) @ [JUpstream (ToCall a) (makeBackendCall J c)] \<and>
     w_live w' = w_live w \<and> map fst (w_calls w') = map fst (w_calls w)"
proof -
  let ?w1 = "upd_call a (\<lambda>c. c\<lparr>cl_attempt := cl_attempt c + 1\<rparr>) w"
  let ?c1 = "c\<lparr>cl_attempt := 1\<rparr>"
  have w1: "um_find (w_calls ?w1) a = Some ?c1" "ob_pool ?w1 = ob_pool w" "env_loop ?w1 = env_loop w" "w_outs ?w1 = w_outs w"
    "w_live ?w1 = w_live w" "map fst (w_calls ?w1) = map fst (w_calls w)"
    using c by (simp_all add: upd_call_def um_find_set keys_um_set)
  define ms where "ms = (let ms1 = (if health_state (w_health ?w1) (tk_backend (cl_key ?c1)) = Degraded
      then cf_promoteAfterMs (w_cfg ?w1) div 2 else cf_promoteAfterMs (w_cfg ?w1)) in if ms1 = 0 then 1 else ms1)"
  obtain tid wa where arm: "env_runAfter ms (TPromote a) ?w1 = (tid, wa)" by (cases "env_runAfter ms (TPromote a) ?w1")
  note wa = env_runAfter_world [OF arm]
  have tm: "timerCb wa tid = Some (TPromote a)"
    using env_runAfter_props(4) [of ?w1 ms "TPromote a" tid wa tid] wf arm w1(3) by simp
  define w2 where "w2 = upd_call a (\<lambda>c. c\<lparr>cl_promoteTimer := tid\<rparr>) wa"
  have arm2: "armPromote a ?w1 = w2"
    unfolding armPromote_def w1(1) option.case w2_def using arm by (simp add: ms_def Let_def)
  have w2: "um_find (w_calls w2) a = Some (?c1\<lparr>cl_promoteTimer := tid\<rparr>)" "ob_pool w2 = ob_pool w" "w_outs w2 = w_outs w"
    "env_loop w2 = env_loop wa" "w_live w2 = w_live w" "map fst (w_calls w2) = map fst (w_calls w)"
    using w1 wa by (simp_all add: w2_def upd_call_def um_find_set keys_um_set)
  define w3 where "w3 = snd (trace_start ((cl_req c)\<lparr>rq_trace := cl_trace c\<rparr>) ''upstream'' w2)"
  define t where "t = fst (trace_start ((cl_req c)\<lparr>rq_trace := cl_trace c\<rparr>) ''upstream'' w2)"
  define w4 where "w4 = upd_call a (\<lambda>c. c\<lparr>cl_upTrace := t, cl_upSpanLive := True\<rparr>) w3"
  have w3: "w_calls w3 = w_calls w2" "ob_pool w3 = ob_pool w2" "w_outs w3 = w_outs w2" "env_loop w3 = env_loop w2" "w_live w3 = w_live w2"
    using obs_rel_world(5) [OF obs_rel_trace_start] obs_rel_more(1) [OF obs_rel_trace_start] by (simp_all add: w3_def)
  have w4: "um_find (w_calls w4) a = Some (?c1\<lparr>cl_promoteTimer := tid, cl_upTrace := t, cl_upSpanLive := True\<rparr>)"
    "ob_pool w4 = ob_pool w" "w_outs w4 = w_outs w" "env_loop w4 = env_loop wa"
    "w_live w4 = w_live w" "map fst (w_calls w4) = map fst (w_calls w)"
    using w2 w3 by (simp_all add: w4_def upd_call_def um_find_set keys_um_set)
  have eq: "fireAttempt J (Suc fuel) a w = Inr (backend_call J (ToCall a) (makeBackendCall J c) w4)"
    using c be arm2 by (simp add: w4_def w3_def t_def Let_def split_beta)
  have bc: "backend_call J (ToCall a) (makeBackendCall J c) w4 =
      w4\<lparr>ob_pool := (ob_pool w)\<lparr>tp_tasks := tp_tasks (ob_pool w) @ [JUpstream (ToCall a) (makeBackendCall J c)]\<rparr>\<rparr>"
    using pool w4(2) by (simp add: backend_call_def pool_try_def tp_add_def tp_full_def Let_def)
  show ?thesis
    unfolding eq bc
    by (rule exI [of _ "w4\<lparr>ob_pool := (ob_pool w)\<lparr>tp_tasks := tp_tasks (ob_pool w) @ [JUpstream (ToCall a) (makeBackendCall J c)]\<rparr>\<rparr>"],
        rule exI [of _ "?c1\<lparr>cl_promoteTimer := tid, cl_upTrace := t, cl_upSpanLive := True\<rparr>"])
      (use w4 tm in simp)
qed

section \<open>The whole way\<close>

lemma newCall_fields:
  assumes "newCall J k p now w = (a, w')"
  shows "a = w_nextCall w" "ob_pool w' = ob_pool w" "env_loop w' = env_loop w" "w_outs w' = w_outs w" "w_catalog w' = w_catalog w"
    "\<exists>c. um_find (w_calls w') a = Some c \<and> cl_attempt c = 0 \<and> \<not> cl_responded c \<and> cl_done c = ac_done k \<and> cl_permit c = p \<and>
      cl_req c = ac_req k \<and>
      cl_key c = (case ToolKey_parse (rq_name (ac_req k)) of None \<Rightarrow> \<lparr>tk_backend = [], tk_tool = []\<rparr> | Some key \<Rightarrow> key)"
    "\<exists>iid. w_live w' = um_set iid a (w_live w)" "set (map fst (w_calls w')) = insert a (set (map fst (w_calls w)))"
proof -
  have "\<exists>c. w_calls w' = um_set a c (w_calls w)"
    using assms by (simp add: newCall_def InFlight_insert_def env_randomHex_def nowMs_def Let_def split_beta) auto
  then show "set (map fst (w_calls w')) = insert a (set (map fst (w_calls w)))" using set_keys_um_set by metis
qed (use assms in \<open>auto simp: newCall_def InFlight_insert_def env_randomHex_def nowMs_def Let_def split_beta um_find_set\<close>)

lemma admit_open_go:
  assumes "\<And>now. \<not> fst (isOpen (tk_backend (ac_key k)) now (w_circuit w))" "health_state (w_health w) (tk_backend (ac_key k)) \<noteq> Down"
  shows "\<not> fst (admit_open k w)" "w_nextCall (snd (snd (admit_open k w))) = w_nextCall w" "ob_pool (snd (snd (admit_open k w))) = ob_pool w"
    "env_loop (snd (snd (admit_open k w))) = env_loop w" "w_outs (snd (snd (admit_open k w))) = w_outs w"
    "w_catalog (snd (snd (admit_open k w))) = w_catalog w" "w_live (snd (snd (admit_open k w))) = w_live w"
    "w_calls (snd (snd (admit_open k w))) = w_calls w"
  using assms by (simp_all add: admit_open_def nowMs_def Let_def split_beta)

lemma handle_open_world:
  "ob_pool (snd (handle_open tok req w)) = ob_pool w" "w_health (snd (handle_open tok req w)) = w_health w"
  "w_nextCall (snd (handle_open tok req w)) = w_nextCall w" "w_circuit (snd (handle_open tok req w)) = w_circuit w"
  "w_live (snd (handle_open tok req w)) = w_live w" "w_calls (snd (handle_open tok req w)) = w_calls w"
  by (simp_all add: handle_open_def trace_start_def env_randomHex_def nowMs_def Let_def split_beta)

text \<open>A granted permit turns into a call, which is entered into \<open>live_\<close>.\<close>

definition registered :: "nat \<Rightarrow> 'j World \<Rightarrow> 'j World \<Rightarrow> bool" where
  "registered a w w' \<longleftrightarrow> (\<exists>iid. w_live w' = um_set iid a (w_live w)) \<and> set (map fst (w_calls w')) = insert a (set (map fst (w_calls w)))"

lemma onAdmit_forward:
  assumes up: "\<And>now. \<not> fst (isOpen (tk_backend (ac_key k)) now (w_circuit w))" "health_state (w_health w) (tk_backend (ac_key k)) \<noteq> Down"
    and key: "ToolKey_parse (rq_name (ac_req k)) = Some (ac_key k)" and be: "Catalog_backend (w_catalog w) (tk_backend (ac_key k)) = Some be"
    and pool: "\<not> tp_stop (ob_pool w)" "\<not> tp_full (ob_pool w)" and wf: "el_wf (env_loop w)"
  shows "\<exists>w' c bc. onAdmit J (k, Go, Some p) w = Inr ([], w') \<and> um_find (w_calls w') (w_nextCall w) = Some c \<and>
     cl_done c = ac_done k \<and> \<not> cl_responded c \<and> cl_attempt c = 1 \<and> cl_permit c = p \<and>
     timerCb w' (cl_promoteTimer c) = Some (TPromote (w_nextCall w)) \<and> w_outs w' = w_outs w \<and>
     tp_tasks (ob_pool w') = tp_tasks (ob_pool w) @ [JUpstream (ToCall (w_nextCall w)) bc] \<and> bc_name bc = tk_tool (ac_key k) \<and>
     registered (w_nextCall w) w w'"
proof -
  obtain now w2 where ao: "admit_open k w = (False, now, w2)"
    using admit_open_go(1) [OF up] by (metis prod.collapse)
  note w2 = admit_open_go(2-8) [OF up, unfolded ao, simplified]
  obtain a w3 where new: "newCall J k p now w2 = (a, w3)" by (cases "newCall J k p now w2")
  note w3 = newCall_fields(1-5) [OF new] and reg = newCall_fields(7,8) [OF new]
  obtain c where c: "um_find (w_calls w3) a = Some c" "cl_attempt c = 0" "\<not> cl_responded c" "cl_done c = ac_done k" "cl_permit c = p"
    "cl_key c = ac_key k"
    using newCall_fields(6) [OF new] key by auto
  have "Catalog_backend (w_catalog w3) (tk_backend (cl_key c)) = Some be" "\<not> tp_stop (ob_pool w3)" "\<not> tp_full (ob_pool w3)" "el_wf (env_loop w3)"
    using be pool wf w2 w3 c by simp_all
  from first_attempt [OF c(1,2) this, of J 9999]
  obtain w4 c' where f: "fireAttempt J kStack a w3 = Inr w4" "um_find (w_calls w4) a = Some c'" "cl_attempt c' = 1"
    "cl_responded c' = cl_responded c" "cl_done c' = cl_done c" "cl_permit c' = cl_permit c"
    "timerCb w4 (cl_promoteTimer c') = Some (TPromote a)" "w_outs w4 = w_outs w3"
    "tp_tasks (ob_pool w4) = tp_tasks (ob_pool w3) @ [JUpstream (ToCall a) (makeBackendCall J c)]"
    "w_live w4 = w_live w3" "map fst (w_calls w4) = map fst (w_calls w3)"
    by (auto simp: kStack_def)
  have "call_refs a w4" using f(9) by (simp add: call_refs_def job_refs_def)
  then have "onAdmit J (k, Go, Some p) w = Inr ([], w4)"
    by (simp add: onAdmit_parts ao new f(1) dropRef_def)
  moreover have "registered (w_nextCall w) w w4"
    using reg f(10,11) w2 w3(1) by (simp add: registered_def flip: set_map)
  moreover have "bc_name (makeBackendCall J c) = tk_tool (ac_key k)" using c(6) by (simp add: makeBackendCall_def Let_def)
  ultimately show ?thesis
    using f c w2 w3 by (intro exI [of _ w4] exI [of _ c'] exI [of _ "makeBackendCall J c"]) simp
qed

lemma forward_call:
  assumes "rq_method req = ''tools/call''" "ToolKey_parse (rq_name req) = Some key"
    and "authorizeCall (w_catalog w) (rq_who req) key = Allow" "tk_backend key \<noteq> ''perfacet''"
    and "InFlight_lookup (p_agentId (rq_who req)) key (paramsHashOf J (rq_params req)) (w_inflight w) = None"
    and "\<not> (j_is_object J (rq_meta req) \<and> j_contains J (rq_meta req) kConfirmKey)" "\<not> w_stopping w"
    and slot: "canTake w (ToolKey_str key) (p_agentId (rq_who req))"
    and up: "\<And>now. \<not> fst (isOpen (tk_backend key) now (w_circuit w))" "health_state (w_health w) (tk_backend key) \<noteq> Down"
    and be: "Catalog_backend (w_catalog w) (tk_backend key) = Some be"
    and pool: "\<not> tp_stop (ob_pool w)" "\<not> tp_full (ob_pool w)" and wf: "el_wf (env_loop w)"
  shows "\<exists>w' c bc. handle J mt tok req w = Inr w' \<and> um_find (w_calls w') (w_nextCall w) = Some c \<and>
     fi_token (cl_done c) = tok \<and> \<not> cl_responded c \<and> cl_attempt c = 1 \<and>
     cl_permit c = \<lparr>pm_key = key, pm_agentId = p_agentId (rq_who req)\<rparr> \<and>
     timerCb w' (cl_promoteTimer c) = Some (TPromote (w_nextCall w)) \<and> w_outs w' = w_outs w \<and>
     upstream_jobs w' = upstream_jobs w @ [JUpstream (ToCall (w_nextCall w)) bc] \<and> bc_name bc = tk_tool key \<and>
     registered (w_nextCall w) w w'"
proof -
  obtain req1 f w1 where h: "handle J mt tok req w = handleCall J mt req1 f w1" "obs_rel w w1" "fi_token f = tok"
    "rq_name req1 = rq_name req" "rq_who req1 = rq_who req" "rq_params req1 = rq_params req" "rq_meta req1 = rq_meta req"
    "w1 = snd (handle_open tok req w)"
    by (rule handle_tools_call [OF assms(1), of J mt tok w])
  let ?hash = "paramsHashOf J (rq_params req)" and ?ag = "p_agentId (rq_who req)"
  let ?k = "\<lparr>ac_req = req1, ac_key = key, ac_hash = ?hash, ac_done = f\<rparr>"
  define p where "p = \<lparr>pm_key = key, pm_agentId = ?ag\<rparr>"
  define w2 where "w2 = take_slot (ToolKey_str key) ?ag (snd (nowMs w1))"
  have w1: "w_catalog w1 = w_catalog w" "w_inflight w1 = w_inflight w" "w_stopping w1 = w_stopping w" "env_loop w1 = env_loop w"
    "gov_part w1 = gov_part w" "w_outs w1 = w_outs w" "ob_pool w1 = ob_pool w" "w_health w1 = w_health w" "w_nextCall w1 = w_nextCall w"
    "w_circuit w1 = w_circuit w" "w_live w1 = w_live w" "w_calls w1 = w_calls w"
    using obs_rel_more [OF h(2)] obs_rel_world [OF h(2)] handle_open_world [of tok req w] h(8) by simp_all
  have w2: "w_catalog w2 = w_catalog w" "env_loop w2 = env_loop w" "w_outs w2 = w_outs w" "ob_pool w2 = ob_pool w" "w_health w2 = w_health w"
    "w_nextCall w2 = w_nextCall w" "w_circuit w2 = w_circuit w" "w_live w2 = w_live w" "w_calls w2 = w_calls w"
    using w1 by (simp_all add: w2_def take_slot_def nowMs_def)
  have "canTake (snd (nowMs w1)) (ToolKey_str key) ?ag"
    using slot w1(5) by (simp add: canTake_def gov_part_def nowMs_def)
  then have acq: "acquire (rq_who req) key d ?k (snd (nowMs w1)) = ([(?k, Go, Some p)], w2)" for d
    by (simp add: acquire_def issue_def p_def w2_def Let_def)
  have hc: "handleCall J mt req1 f w1 = run_admits J [(?k, Go, Some p)] w2"
    using handleCall_forward [of req1 key w1 J mt f] assms(2-7) h(4-7) w1 acq
    by (simp add: admitCall_def Let_def split_beta del: run_admits.simps)
  obtain w' c bc where fw: "onAdmit J (?k, Go, Some p) w2 = Inr ([], w')" "um_find (w_calls w') (w_nextCall w2) = Some c"
     "cl_done c = f" "\<not> cl_responded c" "cl_attempt c = 1" "cl_permit c = p"
     "timerCb w' (cl_promoteTimer c) = Some (TPromote (w_nextCall w2))" "w_outs w' = w_outs w2"
     "tp_tasks (ob_pool w') = tp_tasks (ob_pool w2) @ [JUpstream (ToCall (w_nextCall w2)) bc]" "bc_name bc = tk_tool key"
     "registered (w_nextCall w2) w2 w'"
    using onAdmit_forward [of ?k w2 be J p] up be pool wf w2 assms(2) h(4) by auto
  show ?thesis
    by (intro exI [of _ w'] exI [of _ c] exI [of _ bc])
      (use fw h hc w2 in \<open>simp add: p_def upstream_jobs_def registered_def\<close>)
qed

text \<open>C5: an allowed tool call that is not a repetition, with free slots for tool and agent, a closed breaker,
  a server that is not down and room in the worker queue, is forwarded: it becomes a call that holds
  its permit, its first attempt is queued for a worker under the tool's own name, its promotion
  timer is armed, and nobody has been answered yet.\<close>

theorem call_forwarded:
  assumes "rq_method req = ''tools/call''" "ToolKey_parse (rq_name req) = Some key"
    and "authorizeCall (w_catalog w) (rq_who req) key = Allow" "tk_backend key \<noteq> ''perfacet''"
    and "InFlight_lookup (p_agentId (rq_who req)) key (paramsHashOf J (rq_params req)) (w_inflight w) = None"
    and "\<not> (j_is_object J (rq_meta req) \<and> j_contains J (rq_meta req) kConfirmKey)" "\<not> w_stopping w"
    and slot: "canTake w (ToolKey_str key) (p_agentId (rq_who req))"
    and up: "\<And>now. \<not> fst (isOpen (tk_backend key) now (w_circuit w))" "health_state (w_health w) (tk_backend key) \<noteq> Down"
    and be: "Catalog_backend (w_catalog w) (tk_backend key) = Some be"
    and pool: "\<not> tp_stop (ob_pool w)" "\<not> tp_full (ob_pool w)" and wf: "el_wf (env_loop w)"
  shows "\<exists>w' c bc. handle J mt tok req w = Inr w' \<and> um_find (w_calls w') (w_nextCall w) = Some c \<and>
     fi_token (cl_done c) = tok \<and> \<not> cl_responded c \<and> cl_attempt c = 1 \<and>
     cl_permit c = \<lparr>pm_key = key, pm_agentId = p_agentId (rq_who req)\<rparr> \<and>
     timerCb w' (cl_promoteTimer c) = Some (TPromote (w_nextCall w)) \<and> w_outs w' = w_outs w \<and>
     upstream_jobs w' = upstream_jobs w @ [JUpstream (ToCall (w_nextCall w)) bc] \<and> bc_name bc = tk_tool key"
  using forward_call [OF assms, of mt tok] by blast

lemma sample_forward:
  "\<exists>w' c bc. handle jv_api 0 7 (sample_req ''tools/call'' ''b__t'') sample_world = Inr w' \<and> um_find (w_calls w') 0 = Some c \<and>
     fi_token (cl_done c) = 7 \<and> \<not> cl_responded c \<and> cl_permit c = \<lparr>pm_key = sample_key, pm_agentId = ''ann''\<rparr> \<and> w_outs w' = [] \<and>
     upstream_jobs w' = [JUpstream (ToCall 0) bc] \<and>
     registered 0 sample_world w'"
proof -
  obtain be where be: "Catalog_backend (w_catalog sample_world) ''b'' = Some be" using sample_backend by blast
  show ?thesis
    using forward_call [of "sample_req ''tools/call'' ''b__t''" sample_key sample_world jv_api be 0 7]
      be sample_no_confirm [of "''tools/call''" "''b__t''"] sample_loop_ok(1)
    by (simp add: sample_req_def sample_facts sample_world_fields ThreadPool_make_def tp_full_def) (auto simp: sample_who_def)
qed

theorem call_forwarded_witness:
  "\<exists>w' bc. handle jv_api 0 7 (sample_req ''tools/call'' ''b__t'') sample_world = Inr w' \<and>
     upstream_jobs w' = [JUpstream (ToCall 0) bc] \<and> bc_name bc = ''t''"
proof -
  obtain be where be: "Catalog_backend (w_catalog sample_world) ''b'' = Some be" using sample_backend by blast
  show ?thesis
    using call_forwarded [of "sample_req ''tools/call'' ''b__t''" sample_key sample_world jv_api be 0 7]
      be sample_no_confirm [of "''tools/call''" "''b__t''"] sample_loop_ok(1)
    by (simp add: sample_req_def sample_facts sample_world_fields ThreadPool_make_def tp_full_def) blast
qed

end
