(* ===== verification/Stop.thy ===== *)
theory Stop
  imports Forward
begin

text \<open>
  The end of the gateway's life (\<^verbatim>\<open>Gateway::requestStop\<close>, \<^verbatim>\<open>Pipeline::requestStop\<close>,
  \<^verbatim>\<open>LocalGovernor::rejectAllQueued\<close>): who has been answered when it returns.
\<close>

section \<open>Calls that are cancelled\<close>

definition answered :: "'j World \<Rightarrow> nat \<Rightarrow> bool" where
  "answered w b = (case um_find (w_calls w) b of None \<Rightarrow> True | Some c \<Rightarrow> cl_responded c)"

lemma answered_calls: "w_calls w' = w_calls w \<Longrightarrow> answered w' b = answered w b"
  by (simp add: answered_def)

lemma answered_keep: "(\<And>c. cl_responded (f c) = cl_responded c) \<Longrightarrow> answered (upd_call a f w) b = answered w b"
  by (simp add: answered_def upd_call_def um_find_set split: option.splits)

lemma answered_set: "answered (upd_call a (\<lambda>c. c\<lparr>cl_responded := True\<rparr>) w) b = (b = a \<or> answered w b)"
  by (auto simp: answered_def upd_call_def um_find_set split: option.splits)

lemma respond_answered: "answered (respond J a r w) b = (b = a \<or> answered w b)"
proof (cases "answered w a")
  case True
  then have "respond J a r w = w" by (cases "um_find (w_calls w) a") (simp_all add: answered_def respond_def)
  then show ?thesis using True by auto
next
  case False
  then have "w_calls (respond J a r w) = w_calls (upd_call a (\<lambda>c. c\<lparr>cl_responded := True\<rparr>) w)"
    by (cases "um_find (w_calls w) a") (simp_all add: answered_def respond_def Let_def split_beta)
  then show ?thesis using answered_set answered_calls by metis
qed

lemma cancelWait_answered: "answered (cancelWait J a w) b = (b = a \<or> answered w b)"
proof (cases "um_find (w_calls w) a")
  case None
  then show ?thesis by (auto simp: cancelWait_def answered_def)
next
  case (Some c)
  let ?w1 = "upd_call a (\<lambda>c. c\<lparr>cl_cancelled := True\<rparr>) w"
  let ?w2 = "if \<not> cl_responded c then respond J a (cancelledAnswer J) ?w1 else ?w1"
  have "w_calls (cancelWait J a w) = w_calls ?w2" using Some by (simp add: cancelWait_def Let_def)
  then have "answered (cancelWait J a w) b = answered ?w2 b" by (rule answered_calls)
  also have "\<dots> = (b = a \<or> answered w b)"
    using Some by (auto simp: respond_answered answered_keep) (simp add: answered_def)
  finally show ?thesis .
qed

lemma cancel_all_answered:
  "answered (fold (\<lambda>kv w. cancelWait J (snd kv) w) l w) b = (b \<in> snd ` set l \<or> answered w b)"
  by (induction l arbitrary: w) (auto simp: cancelWait_answered)

section \<open>Rejected continuations\<close>

lemma refused_world: "w_calls (refused J k w) = w_calls w" "waiting (refused J k w) = waiting w"
proof -
  show "waiting (refused J k w) = waiting w" using shape_waiting [OF branch_frames(1), of J k w] .
  show "w_calls (refused J k w) = w_calls w" by (simp add: refused_def)
qed

lemma run_rejects:
  "ev_ok evs \<Longrightarrow> ev_permits evs = {#} \<Longrightarrow> \<exists>w'. run_admits J evs w = Inr w' \<and> w_calls w' = w_calls w \<and> waiting w' = waiting w"
proof (induction evs arbitrary: w)
  case (Cons e evs)
  obtain k adm perm where e: "e = (k, adm, perm)" by (cases e)
  have "perm = None" using Cons.prems(2) by (cases perm) (simp_all add: e)
  moreover have "ev_ok evs" "ev_permits evs = {#}" using Cons.prems by (cases perm; simp add: e)+
  ultimately show ?case
    using Cons.IH [of "refused J k w"] by (simp add: e onAdmit_parts refused_world)
qed simp

section \<open>The whole stop\<close>

text \<open>Every call that owes an answer is in \<open>live_\<close>. The key of \<open>live_\<close> is a random identifier of 16 bytes:
  this fails only if two live calls drew the same one.\<close>

definition live_complete :: "'j World \<Rightarrow> bool" where
  "live_complete w \<longleftrightarrow> list_all (\<lambda>(a, c). cl_responded c \<or> a \<in> snd ` set (w_live w)) (w_calls w)"

lemma no_open_tokens:
  assumes "calls_ok w" "\<And>b. answered w b"
  shows "tokens w = mset (map fst (w_outs w))"
proof -
  have "open_token ac = {#}" if "ac \<in> set (w_calls w)" for ac
  proof -
    have "um_find (w_calls w) (fst ac) = Some (snd ac)"
      using assms(1) that by (cases ac) (simp add: calls_ok_def calls_part_def split_def comp_def)
    then show ?thesis using assms(2) [of "fst ac"] by (simp add: open_token_def answered_def)
  qed
  then have "sum_list (map open_token (w_calls w)) = sum_list (map (\<lambda>_. {#}) (w_calls w))"
    by (intro arg_cong [of _ _ sum_list] map_cong) simp_all
  then show ?thesis by (simp add: tokens_def sum_list_0)
qed

lemma stop_steps:
  assumes inv: "winv {#} w" and live: "live_complete w"
  shows "\<exists>w'. gateway_requestStop J w = Inr w' \<and> waiting w' = {#} \<and> (\<forall>b. answered w' b)"
proof -
  let ?w0 = "pipeline_requestStop J w" and ?r = "rejectAllQueued (pipeline_requestStop J w)"
  have "winv {#} ?w0" using inv winv_shape [of ?w0 w] by simp
  then have g: "gov_inv (call_permits ?w0) ?w0" by (simp add: winv_def)
  note r = rejectAllQueued_result [OF g]
  have "um_wf (gv_queues (snd ?r))" using r(1) by (simp add: gov_result_def gov_inv_def queues_ok_def)
  then have empty: "waiting (snd ?r) = {#}" using r(3) by (simp add: waiting_empty_iff)
  have "ev_ok (fst ?r)" using r(1) by (simp add: gov_result_def)
  from run_rejects [OF this r(2), of J "snd ?r"] obtain w2 where
    w2: "run_admits J (fst ?r) (snd ?r) = Inr w2" "w_calls w2 = w_calls (snd ?r)" "waiting w2 = waiting (snd ?r)" by blast
  have all: "answered ?w0 b" for b
  proof -
    have "answered w b \<or> b \<in> snd ` set (w_live w)"
      using live by (auto simp: live_complete_def answered_def list_all_iff dest!: map_of_SomeD split: option.splits)
    then show ?thesis
      using cancel_all_answered [of J "w_live w" "w\<lparr>w_stopping := True\<rparr>" b] answered_calls [of "w\<lparr>w_stopping := True\<rparr>" w b]
      by (auto simp: pipeline_requestStop_def)
  qed
  let ?w' = "snd (env_runAfter (cf_drainTimeoutMs (w_cfg w2)) TDrain w2)"
  have "w_calls ?w' = w_calls ?w0"
    using w2(2) gov_step_world(1) [OF gov_step_rejectAllQueued, of ?w0] env_runAfter_world(2) [OF prod.collapse [symmetric]] by metis
  then have "answered ?w' b" for b using all answered_calls by blast
  moreover have "waiting ?w' = {#}" using w2(3) empty by (simp add: env_runAfter_def split_beta waiting_def)
  ultimately show ?thesis using w2(1) by (intro exI [of _ ?w']) (simp add: gateway_requestStop_def split_beta)
qed

end
