(* ===== verification/Workers.thy ===== *)
theory Workers
  imports Observe "HOL-Library.Multiset"
begin

text \<open>
  The worker threads of the pool (\<^verbatim>\<open>netlib/src/ThreadPool.cpp\<close>) over the queue of theory \<open>Observe\<close>: callers of \<^verbatim>\<open>add\<close>,
  the loop of every worker with its condition variable, and the destructor, interleaved in any order. A critical section of the
  mutex is one step; between it and \<^verbatim>\<open>notify_one\<close> or \<^verbatim>\<open>notify_all\<close> others may run. A sleeping worker may wake up
  without a reason. Lemmas: tasks start in the order in which they were accepted and each of them runs once; no task waits while all
  workers sleep; the destructor returns, and not before every accepted task has run. Last, what this order of events
  means for the destructor of the gateway, whose pool is destroyed after the members its jobs work on.
\<close>

section \<open>State\<close>

text \<open>A worker: before it takes the mutex, inside \<^verbatim>\<open>cv_.wait\<close>, running a task, returned. The destructor: not called, has set
  \<^verbatim>\<open>stop_\<close>, has notified everybody, has joined all threads.\<close>

datatype 'a worker = WReady | WAsleep | WRun 'a | WExit

datatype dtor = DNone | DStopped | DNotified | DJoined

text \<open>\<open>wk_notify\<close>: callers of \<^verbatim>\<open>add\<close> that have left the critical section and not yet called \<^verbatim>\<open>notify_one\<close>. The last three
  record the history: tasks accepted, begun, finished.\<close>

record 'a Workers =
  wk_pool :: "'a ThreadPool"
  wk_threads :: "'a worker list"
  wk_notify :: nat
  wk_dtor :: dtor
  wk_accepted :: "'a list"
  wk_begun :: "'a list"
  wk_finished :: "'a list"

definition Workers_make :: "nat \<Rightarrow> nat \<Rightarrow> 'a Workers" where
  "Workers_make numThreads maxQueue =
     \<lparr>wk_pool = ThreadPool_make maxQueue, wk_threads = replicate numThreads WReady, wk_notify = 0, wk_dtor = DNone,
      wk_accepted = [], wk_begun = [], wk_finished = []\<rparr>"

section \<open>Steps\<close>

text \<open>\<^verbatim>\<open>add\<close> up to the end of its critical section.\<close>

definition wk_add :: "'a \<Rightarrow> 'a Workers \<Rightarrow> exn + 'a Workers" where
  "wk_add t s =
     (case tp_add t (wk_pool s) of
        Inl e \<Rightarrow> Inl e
      | Inr p \<Rightarrow> Inr (s\<lparr>wk_pool := p, wk_notify := Suc (wk_notify s), wk_accepted := wk_accepted s @ [t]\<rparr>))"

definition set_thread :: "nat \<Rightarrow> 'a worker \<Rightarrow> 'a Workers \<Rightarrow> 'a Workers" where
  "set_thread i x s = s\<lparr>wk_threads := (wk_threads s)[i := x]\<rparr>"

text \<open>\<^verbatim>\<open>notify_one\<close> wakes one sleeping worker, \<open>i\<close>, if there is one.\<close>

definition wk_notifyOne :: "nat \<Rightarrow> 'a Workers \<Rightarrow> 'a Workers" where
  "wk_notifyOne i s =
    (let s1 = s\<lparr>wk_notify := wk_notify s - 1\<rparr>
     in if WAsleep \<in> set (wk_threads s) then set_thread i WReady s1 else s1)"

text \<open>The critical section of a worker: it goes to sleep, returns, or takes the first task.\<close>

definition wk_turn :: "nat \<Rightarrow> 'a Workers \<Rightarrow> 'a Workers" where
  "wk_turn i s =
     (case tp_take (wk_pool s) of
        None \<Rightarrow> set_thread i (if tp_stop (wk_pool s) then WExit else WAsleep) s
      | Some (t, p) \<Rightarrow> set_thread i (WRun t) (s\<lparr>wk_pool := p, wk_begun := wk_begun s @ [t]\<rparr>))"

text \<open>The task returns; what it throws is kept in its future.\<close>

definition wk_finish :: "nat \<Rightarrow> 'a \<Rightarrow> 'a Workers \<Rightarrow> 'a Workers" where
  "wk_finish i t s = set_thread i WReady (s\<lparr>wk_finished := wk_finished s @ [t]\<rparr>)"

definition wk_stop :: "'a Workers \<Rightarrow> 'a Workers" where
  "wk_stop s = s\<lparr>wk_pool := tp_shutdown (wk_pool s), wk_dtor := DStopped\<rparr>"

definition wk_notifyAll :: "'a Workers \<Rightarrow> 'a Workers" where
  "wk_notifyAll s = s\<lparr>wk_threads := map (\<lambda>x. if x = WAsleep then WReady else x) (wk_threads s), wk_dtor := DNotified\<rparr>"

inductive wk_step :: "'a Workers \<Rightarrow> 'a Workers \<Rightarrow> bool" where
  add: "wk_add t s = Inr s' \<Longrightarrow> wk_step s s'"
| notify: "0 < wk_notify s \<Longrightarrow> i < length (wk_threads s) \<Longrightarrow> WAsleep \<in> set (wk_threads s) \<longrightarrow> wk_threads s ! i = WAsleep \<Longrightarrow>
    wk_step s (wk_notifyOne i s)"
| spurious: "i < length (wk_threads s) \<Longrightarrow> wk_threads s ! i = WAsleep \<Longrightarrow> wk_step s (set_thread i WReady s)"
| turn: "i < length (wk_threads s) \<Longrightarrow> wk_threads s ! i = WReady \<Longrightarrow> wk_step s (wk_turn i s)"
| finish: "i < length (wk_threads s) \<Longrightarrow> wk_threads s ! i = WRun t \<Longrightarrow> wk_step s (wk_finish i t s)"
| stop: "wk_dtor s = DNone \<Longrightarrow> wk_step s (wk_stop s)"
| notify_all: "wk_dtor s = DStopped \<Longrightarrow> wk_step s (wk_notifyAll s)"
| join: "wk_dtor s = DNotified \<Longrightarrow> set (wk_threads s) \<subseteq> {WExit} \<Longrightarrow> wk_step s (s\<lparr>wk_dtor := DJoined\<rparr>)"

inductive wk_reach :: "nat \<Rightarrow> nat \<Rightarrow> 'a Workers \<Rightarrow> bool" for n q where
  make: "wk_reach n q (Workers_make n q)"
| step: "wk_reach n q s \<Longrightarrow> wk_step s s' \<Longrightarrow> wk_reach n q s'"

inductive_cases wk_stepE: "wk_step s s'"

section \<open>The invariant\<close>

fun task_of :: "'a worker \<Rightarrow> 'a list" where
  "task_of (WRun t) = [t]"
| "task_of _ = []"

definition running :: "'a Workers \<Rightarrow> 'a multiset" where
  "running s = mset (concat (map task_of (wk_threads s)))"

definition awake :: "'a worker \<Rightarrow> bool" where
  "awake x \<longleftrightarrow> x \<noteq> WAsleep \<and> x \<noteq> WExit"

definition queue_ok :: "'a Workers \<Rightarrow> bool" where
  "queue_ok s \<longleftrightarrow> wk_begun s @ tp_tasks (wk_pool s) = wk_accepted s \<and>
     length (tp_tasks (wk_pool s)) \<le> tp_maxQueue (wk_pool s) \<and> 0 < tp_maxQueue (wk_pool s) \<and>
     mset (wk_begun s) = mset (wk_finished s) + running s"

definition stop_ok :: "'a Workers \<Rightarrow> bool" where
  "stop_ok s \<longleftrightarrow> (tp_stop (wk_pool s) \<longleftrightarrow> wk_dtor s \<noteq> DNone) \<and>
     (WExit \<in> set (wk_threads s) \<longrightarrow> tp_stop (wk_pool s) \<and> tp_tasks (wk_pool s) = []) \<and>
     (wk_dtor s = DNotified \<or> wk_dtor s = DJoined \<longrightarrow> WAsleep \<notin> set (wk_threads s)) \<and>
     (wk_dtor s = DJoined \<longrightarrow> set (wk_threads s) \<subseteq> {WExit})"

definition wake_ok :: "'a Workers \<Rightarrow> bool" where
  "wake_ok s \<longleftrightarrow> (tp_tasks (wk_pool s) \<noteq> [] \<longrightarrow> 0 < wk_notify s \<or> list_ex awake (wk_threads s))"

lemma running_set_thread:
  assumes "i < length (wk_threads s)"
  shows "running (set_thread i x s) + mset (task_of (wk_threads s ! i)) = running s + mset (task_of x)"
proof -
  let ?ws = "wk_threads s"
  have "?ws = take i ?ws @ ?ws ! i # drop (Suc i) ?ws" using assms by (rule id_take_nth_drop)
  then have "running s = mset (concat (map task_of (take i ?ws @ ?ws ! i # drop (Suc i) ?ws)))" by (simp add: running_def)
  moreover have "running (set_thread i x s) = mset (concat (map task_of (take i ?ws @ x # drop (Suc i) ?ws)))"
    using assms by (simp add: running_def set_thread_def upd_conv_take_nth_drop)
  ultimately show ?thesis by simp
qed

lemma set_thread_fields [simp]:
  "wk_pool (set_thread i x s) = wk_pool s" "wk_notify (set_thread i x s) = wk_notify s" "wk_dtor (set_thread i x s) = wk_dtor s"
  "wk_accepted (set_thread i x s) = wk_accepted s" "wk_begun (set_thread i x s) = wk_begun s"
  "wk_finished (set_thread i x s) = wk_finished s" "wk_threads (set_thread i x s) = (wk_threads s)[i := x]"
  by (simp_all add: set_thread_def)

lemma running_fields [simp]:
  "running (s\<lparr>wk_pool := p\<rparr>) = running s" "running (s\<lparr>wk_notify := k\<rparr>) = running s" "running (s\<lparr>wk_dtor := d\<rparr>) = running s"
  "running (s\<lparr>wk_accepted := ts\<rparr>) = running s" "running (s\<lparr>wk_begun := ts\<rparr>) = running s" "running (s\<lparr>wk_finished := ts\<rparr>) = running s"
  by (simp_all add: running_def)

lemma running_notifyAll [simp]: "running (wk_notifyAll s) = running s"
proof -
  have "task_of (if x = WAsleep then WReady else x) = task_of x" for x :: "'a worker" by simp
  then show ?thesis by (simp add: running_def wk_notifyAll_def comp_def del: if_split)
qed

lemma update_mem: "x \<in> set (xs[i := y]) \<Longrightarrow> x = y \<or> x \<in> set xs"
  using set_update_subset_insert [of xs i y] by auto

lemma list_ex_update: "i < length xs \<Longrightarrow> P y \<Longrightarrow> list_ex P (xs[i := y])"
  by (auto simp: list_ex_iff set_update_memI)

lemma queue_ok_step: "wk_step s s' \<Longrightarrow> queue_ok s \<Longrightarrow> queue_ok s'"
proof (induction rule: wk_step.induct)
  case (add t s s')
  then show ?case by (auto simp: wk_add_def tp_add_def queue_ok_def split: sum.splits if_splits)
next
  case (notify s i)
  then show ?case using running_set_thread [of i "s\<lparr>wk_notify := wk_notify s - 1\<rparr>" WReady]
    by (auto simp: wk_notifyOne_def queue_ok_def Let_def)
next
  case (spurious i s)
  then show ?case using running_set_thread [of i s WReady] by (simp add: queue_ok_def)
next
  case (turn i s)
  show ?case
  proof (cases "tp_tasks (wk_pool s)")
    case Nil
    then show ?thesis using turn running_set_thread [of i s] by (auto simp: wk_turn_def tp_take_def queue_ok_def)
  next
    case (Cons t ts)
    let ?s = "s\<lparr>wk_pool := wk_pool s\<lparr>tp_tasks := ts\<rparr>, wk_begun := wk_begun s @ [t]\<rparr>"
    have "running (set_thread i (WRun t) ?s) = running s + {#t#}"
      using turn running_set_thread [of i ?s "WRun t"] by simp
    then show ?thesis using turn Cons by (simp add: wk_turn_def tp_take_def queue_ok_def)
  qed
next
  case (finish i s t)
  let ?s = "s\<lparr>wk_finished := wk_finished s @ [t]\<rparr>"
  have "running (set_thread i WReady ?s) + {#t#} = running s"
    using finish running_set_thread [of i ?s WReady] by simp
  then show ?case using finish by (simp add: wk_finish_def queue_ok_def)
next
  case (notify_all s)
  then show ?case using running_notifyAll [of s] by (simp add: queue_ok_def) (simp add: wk_notifyAll_def)
qed (auto simp: wk_stop_def tp_shutdown_def queue_ok_def)

lemma stop_ok_step: "wk_step s s' \<Longrightarrow> stop_ok s \<Longrightarrow> stop_ok s'"
proof (induction rule: wk_step.induct)
  case (add t s s')
  then show ?case by (auto simp: wk_add_def tp_add_def stop_ok_def split: sum.splits if_splits)
next
  case (notify s i)
  then show ?case by (auto simp: wk_notifyOne_def stop_ok_def Let_def dest!: update_mem)
next
  case (spurious i s)
  then show ?case by (auto simp: stop_ok_def dest!: update_mem nth_mem)
next
  case (turn i s)
  then show ?case by (auto simp: wk_turn_def tp_take_def stop_ok_def split: list.splits dest!: update_mem nth_mem)
next
  case (finish i s t)
  then show ?case by (auto simp: wk_finish_def stop_ok_def dest!: update_mem nth_mem)
qed (auto simp: wk_stop_def wk_notifyAll_def tp_shutdown_def stop_ok_def)

lemma wake_ok_step: "wk_step s s' \<Longrightarrow> stop_ok s \<Longrightarrow> wk_threads s \<noteq> [] \<Longrightarrow> wake_ok s \<Longrightarrow> wake_ok s'"
proof (induction rule: wk_step.induct)
  case (add t s s')
  then show ?case by (auto simp: wk_add_def wake_ok_def split: sum.splits)
next
  case (notify s i)
  have "list_ex awake (wk_threads s)" if "WAsleep \<notin> set (wk_threads s)" "tp_tasks (wk_pool s) \<noteq> []"
    using that notify(4,5) by (cases "wk_threads s") (auto simp: awake_def stop_ok_def)
  then show ?case using notify(2) by (auto simp: wk_notifyOne_def wake_ok_def Let_def awake_def intro: list_ex_update)
next
  case (spurious i s)
  then show ?case by (auto simp: wake_ok_def awake_def intro: list_ex_update)
next
  case (turn i s)
  then show ?case by (auto simp: wk_turn_def tp_take_def wake_ok_def awake_def intro: list_ex_update split: list.splits)
next
  case (finish i s t)
  then show ?case by (auto simp: wk_finish_def wake_ok_def awake_def intro: list_ex_update)
qed (auto simp: wk_stop_def wk_notifyAll_def tp_shutdown_def wake_ok_def awake_def list_ex_iff)

lemma wk_threads_length: "wk_step s s' \<Longrightarrow> length (wk_threads s') = length (wk_threads s)"
  by (induction rule: wk_step.induct)
    (auto simp: wk_add_def wk_notifyOne_def wk_turn_def wk_finish_def wk_stop_def wk_notifyAll_def Let_def split: sum.splits option.splits)

lemma wk_maxQueue: "wk_step s s' \<Longrightarrow> tp_maxQueue (wk_pool s') = tp_maxQueue (wk_pool s)"
  by (induction rule: wk_step.induct)
    (auto simp: wk_add_def wk_notifyOne_def wk_turn_def wk_finish_def wk_stop_def wk_notifyAll_def tp_add_def tp_take_def tp_shutdown_def Let_def
      split: sum.splits option.splits list.splits if_splits)

definition wk_inv :: "nat \<Rightarrow> nat \<Rightarrow> 'a Workers \<Rightarrow> bool" where
  "wk_inv n q s \<longleftrightarrow> queue_ok s \<and> stop_ok s \<and> length (wk_threads s) = n \<and> (n \<noteq> 0 \<longrightarrow> wake_ok s) \<and>
     tp_maxQueue (wk_pool s) = (if q = 0 then 1 else q)"

lemma wk_inv_make: "wk_inv n q (Workers_make n q)"
proof -
  have "concat (map task_of (replicate n WReady)) = []" by (induction n) auto
  then show ?thesis
    by (simp add: wk_inv_def Workers_make_def queue_ok_def stop_ok_def wake_ok_def ThreadPool_make_def running_def)
qed

lemma wk_inv_step:
  assumes "wk_step s s'" "wk_inv n q s"
  shows "wk_inv n q s'"
  using assms(2) queue_ok_step [OF assms(1)] stop_ok_step [OF assms(1)] wake_ok_step [OF assms(1)] wk_threads_length [OF assms(1)]
    wk_maxQueue [OF assms(1)]
  unfolding wk_inv_def by (metis length_0_conv)

lemma wk_reach_inv: "wk_reach n q s \<Longrightarrow> wk_inv n q s"
  by (induction rule: wk_reach.induct) (auto intro: wk_inv_make wk_inv_step)

section \<open>Tasks\<close>

text \<open>C22: The pool is a queue without loss: tasks begin in the order in which they were accepted, every accepted task is queued, running
  or finished, exactly once, and the queue never holds more than its maximum.\<close>

theorem pool_runs_in_order:
  assumes "wk_reach n q s"
  shows "wk_accepted s = wk_begun s @ tp_tasks (wk_pool s) \<and> mset (wk_begun s) = mset (wk_finished s) + running s \<and>
    length (tp_tasks (wk_pool s)) \<le> (if q = 0 then 1 else q)"
  using wk_reach_inv [OF assms] by (simp add: wk_inv_def queue_ok_def)

text \<open>C23: No lost wake-up: as long as a task is queued, some worker is awake or a caller of \<^verbatim>\<open>add\<close> is about to wake one.\<close>

theorem pool_never_sleeps_on_work:
  assumes "wk_reach n q s" "n \<noteq> 0" "tp_tasks (wk_pool s) \<noteq> []"
  shows "0 < wk_notify s \<or> (\<exists>i < length (wk_threads s). awake (wk_threads s ! i))"
  using wk_reach_inv [OF assms(1)] assms(2,3) by (auto simp: wk_inv_def wake_ok_def list_ex_length)

section \<open>The destructor\<close>

fun worker_weight :: "'a worker \<Rightarrow> nat" where
  "worker_weight WAsleep = 2"
| "worker_weight WReady = 1"
| "worker_weight (WRun t) = 2"
| "worker_weight WExit = 0"

fun dtor_weight :: "dtor \<Rightarrow> nat" where
  "dtor_weight DNone = 3"
| "dtor_weight DStopped = 2"
| "dtor_weight DNotified = 1"
| "dtor_weight DJoined = 0"

definition wk_measure :: "'a Workers \<Rightarrow> nat" where
  "wk_measure s = 3 * length (tp_tasks (wk_pool s)) + sum_list (map worker_weight (wk_threads s)) + wk_notify s + dtor_weight (wk_dtor s)"

lemma weight_update:
  assumes "i < length xs"
  shows "sum_list (map worker_weight (xs[i := x])) + worker_weight (xs ! i) = sum_list (map worker_weight xs) + worker_weight x"
proof -
  have "worker_weight (xs ! i) \<le> sum_list (map worker_weight xs)" using assms by (intro member_le_sum_list) auto
  then show ?thesis using assms by (simp add: map_update sum_list_update)
qed

lemma weight_notifyAll: "sum_list (map worker_weight (wk_threads (wk_notifyAll s))) \<le> sum_list (map worker_weight (wk_threads s))"
  by (simp add: wk_notifyAll_def comp_def, rule sum_list_mono) auto

lemma measure_step:
  assumes "wk_step s s'" "stop_ok s" "wk_dtor s \<noteq> DNone"
  shows "wk_measure s' < wk_measure s \<and> wk_dtor s' \<noteq> DNone"
  using assms
proof (induction rule: wk_step.induct)
  case (add t s s')
  then show ?case by (auto simp: wk_add_def tp_add_def stop_ok_def)
next
  case (notify s i)
  then show ?case using weight_update [of i "wk_threads s" WReady] by (auto simp: wk_notifyOne_def wk_measure_def Let_def)
next
  case (spurious i s)
  then show ?case using weight_update [of i "wk_threads s" WReady] by (auto simp: wk_measure_def)
next
  case (turn i s)
  then show ?case using weight_update [of i "wk_threads s" WExit] weight_update [of i "wk_threads s" "WRun (hd (tp_tasks (wk_pool s)))"]
    by (cases "tp_tasks (wk_pool s)") (simp_all add: wk_turn_def tp_take_def wk_measure_def stop_ok_def)
next
  case (finish i s t)
  then show ?case using weight_update [of i "wk_threads s" WReady] by (auto simp: wk_finish_def wk_measure_def)
next
  case (notify_all s)
  then show ?case using weight_notifyAll [of s] by (auto simp: wk_measure_def) (auto simp: wk_notifyAll_def)
qed (auto simp: wk_measure_def)

lemma steps_keep:
  assumes "wk_step\<^sup>*\<^sup>* s s'" "wk_inv n q s" "wk_dtor s \<noteq> DNone"
  shows "wk_inv n q s' \<and> wk_dtor s' \<noteq> DNone"
  using assms
proof (induction rule: rtranclp_induct)
  case (step y z)
  then show ?case using wk_inv_step [OF step(2)] measure_step [OF step(2)] by (auto simp: wk_inv_def)
qed simp

lemma final_joined:
  assumes "stop_ok s" "wk_dtor s \<noteq> DNone" "\<nexists>s'. wk_step s s'"
  shows "wk_dtor s = DJoined"
proof (cases "wk_dtor s")
  case DStopped
  then show ?thesis using assms(3) wk_step.notify_all by blast
next
  case DNotified
  have "x = WExit" if "x \<in> set (wk_threads s)" for x
  proof (cases x)
    case WReady
    then show ?thesis using that assms(3) wk_step.turn by (metis in_set_conv_nth)
  next
    case WAsleep
    then show ?thesis using that assms(1) DNotified by (simp add: stop_ok_def)
  next
    case (WRun t)
    then show ?thesis using that assms(3) wk_step.finish by (metis in_set_conv_nth)
  qed simp
  then show ?thesis using assms(3) wk_step.join [OF DNotified] by blast
qed (use assms(2) in simp_all)

lemma joined_complete:
  assumes "wk_inv n q s" "n \<noteq> 0" "wk_dtor s = DJoined"
  shows "tp_tasks (wk_pool s) = []" "mset (wk_finished s) = mset (wk_accepted s)"
proof -
  have exit: "set (wk_threads s) \<subseteq> {WExit}" "wk_threads s \<noteq> []" using assms by (auto simp: wk_inv_def stop_ok_def)
  then have "WExit \<in> set (wk_threads s)" by (cases "wk_threads s") auto
  then show t: "tp_tasks (wk_pool s) = []" using assms(1) by (simp add: wk_inv_def stop_ok_def)
  have "running s = {#}" using exit(1) by (auto simp: running_def)
  then show "mset (wk_finished s) = mset (wk_accepted s)" using assms(1) t by (auto simp: wk_inv_def queue_ok_def)
qed

lemma end_complete:
  assumes "wk_inv n q s" "n \<noteq> 0" "wk_dtor s \<noteq> DNone" "\<nexists>s'. wk_step s s'"
  shows "wk_dtor s = DJoined" "mset (wk_finished s) = mset (wk_accepted s)"
proof -
  show "wk_dtor s = DJoined" using assms by (intro final_joined) (simp_all add: wk_inv_def)
  then show "mset (wk_finished s) = mset (wk_accepted s)" by (rule joined_complete(2) [OF assms(1,2)])
qed

lemma end_exists:
  assumes "wk_inv n q s" "wk_dtor s \<noteq> DNone"
  shows "\<exists>s'. wk_step\<^sup>*\<^sup>* s s' \<and> (\<nexists>s''. wk_step s' s'')"
  using assms
proof (induction "wk_measure s" arbitrary: s rule: less_induct)
  case less
  show ?case
  proof (cases "\<exists>s'. wk_step s s'")
    case True
    then obtain s1 where s1: "wk_step s s1" by blast
    have "wk_measure s1 < wk_measure s \<and> wk_dtor s1 \<noteq> DNone" using less.prems measure_step [OF s1] by (simp add: wk_inv_def)
    then show ?thesis using less.hyps [of s1] wk_inv_step [OF s1 less.prems(1)] s1 by (meson converse_rtranclp_into_rtranclp)
  qed blast
qed


section \<open>The destructor of the gateway\<close>

text \<open>The members of \<^verbatim>\<open>Gateway\<close> in the order of their declaration; the destructor destroys them from the last to the first.\<close>

definition gateway_members :: "string list" where
  "gateway_members =
     [''cfg_'', ''loop_'', ''workers_'', ''identity_'', ''grants_'', ''catalog_'', ''index_'', ''policy_'', ''facet_'', ''counters_'',
      ''governor_'', ''circuit_'', ''retry_'', ''tasks_'', ''inflight_'', ''tracer_'', ''audit_'', ''health_'', ''refresher_'',
      ''pipeline_'', ''http_'', ''grantTimer_'', ''drainTimer_'']"

definition destroyed_before :: "string \<Rightarrow> string list" where
  "destroyed_before m = takeWhile (\<lambda>x. x \<noteq> m) (rev gateway_members)"

text \<open>The member whose object the closure of a job holds by pointer and whose destructor does not wait for the job: the backends are
  owned by the catalogue; the closure of an audit record owns its data; the destructor of the tracer waits for its job.\<close>

fun job_member :: "'j job \<Rightarrow> string option" where
  "job_member (JUpstream to bc) = Some ''catalog_''"
| "job_member JGrantWrite = Some ''grants_''"
| "job_member JGrantRefresh = Some ''grants_''"
| "job_member JDrain = None"
| "job_member (JAudit e) = None"

lemma accepted_grows: "wk_step s s' \<Longrightarrow> \<exists>ts. wk_accepted s' = wk_accepted s @ ts"
  by (induction rule: wk_step.induct)
    (auto simp: wk_add_def wk_notifyOne_def wk_turn_def wk_finish_def wk_stop_def wk_notifyAll_def Let_def split: sum.splits option.splits)

lemma accepted_grow: "wk_step\<^sup>*\<^sup>* s s' \<Longrightarrow> \<exists>ts. wk_accepted s' = wk_accepted s @ ts"
  by (induction rule: rtranclp_induct) (auto dest: accepted_grows)

text \<open>C35: Jobs outlive what they work on: a job that is still queued when the destructor of the pool begins is run by it, although
  the member it points to has been destroyed by then, because the pool is declared before that member.\<close>

theorem queued_job_outlives_member:
  assumes "wk_reach n q s" "n \<noteq> 0" "wk_dtor s = DNone" "jb \<in> set (tp_tasks (wk_pool s))" "job_member jb = Some m"
    and "wk_step\<^sup>*\<^sup>* (wk_stop s) s'" "\<nexists>s''. wk_step s' s''"
  shows "count (mset (wk_finished s)) jb < count (mset (wk_finished s')) jb \<and> m \<in> set (destroyed_before ''workers_'')"
proof
  have r: "wk_reach n q (wk_stop s)" using wk_reach.step [OF assms(1) wk_step.stop [OF assms(3)]] .
  have "wk_inv n q s' \<and> wk_dtor s' \<noteq> DNone" by (rule steps_keep [OF assms(6) wk_reach_inv [OF r]]) (simp add: wk_stop_def)
  then have "mset (wk_finished s') = mset (wk_accepted s')" using end_complete(2) [OF _ assms(2) _ assms(7)] by blast
  moreover obtain ts where "wk_accepted s' = wk_accepted s @ ts" using accepted_grow [OF assms(6)] by (auto simp: wk_stop_def)
  moreover have "mset (wk_accepted s) = mset (wk_finished s) + running s + mset (tp_tasks (wk_pool s))"
    using wk_reach_inv [OF assms(1)] unfolding wk_inv_def queue_ok_def by (metis mset_append)
  moreover have "0 < count (mset (tp_tasks (wk_pool s))) jb" using assms(4) by (simp add: count_mset_0_iff [symmetric] flip: neq0_conv)
  ultimately show "count (mset (wk_finished s)) jb < count (mset (wk_finished s')) jb" by simp
  show "m \<in> set (destroyed_before ''workers_'')"
    using assms(5) by (cases jb) (auto simp: destroyed_before_def gateway_members_def)
qed

section \<open>A pool with one worker and one job\<close>

lemma pool_sample:
  obtains s :: "'j job Workers" where "wk_reach 1 4 s" "wk_dtor s = DNone" "tp_tasks (wk_pool s) = [JGrantRefresh]" "wk_accepted s = [JGrantRefresh]"
proof -
  let ?a = "Workers_make 1 4 :: 'j job Workers"
  let ?p = "(ThreadPool_make 4 :: 'j job ThreadPool)\<lparr>tp_tasks := [JGrantRefresh]\<rparr>"
  let ?s = "?a\<lparr>wk_pool := ?p, wk_notify := 1, wk_accepted := [JGrantRefresh]\<rparr>"
  have "wk_add JGrantRefresh ?a = Inr ?s" by (simp add: wk_add_def tp_add_def Workers_make_def ThreadPool_make_def)
  then have "wk_reach 1 4 ?s" by (rule wk_reach.step [OF wk_reach.make wk_step.add])
  then show ?thesis using that [of ?s] by (simp add: Workers_make_def)
qed

theorem pool_runs_in_order_witness: "\<exists>s :: nat job Workers. wk_reach 1 4 s \<and> wk_begun s @ tp_tasks (wk_pool s) = [JGrantRefresh]"
proof -
  obtain s :: "nat job Workers" where "wk_reach 1 4 s" "wk_accepted s = [JGrantRefresh]" using pool_sample by blast
  then show ?thesis using pool_runs_in_order [of 1 4 s] by auto
qed

theorem pool_never_sleeps_on_work_witness:
  "\<exists>s :: nat job Workers. wk_reach 1 4 s \<and> tp_tasks (wk_pool s) = [JGrantRefresh] \<and> (0 < wk_notify s \<or> (\<exists>i < length (wk_threads s). awake (wk_threads s ! i)))"
proof -
  obtain s :: "nat job Workers" where s: "wk_reach 1 4 s" "tp_tasks (wk_pool s) = [JGrantRefresh]" using pool_sample by blast
  then show ?thesis using pool_never_sleeps_on_work [OF s(1)] by auto
qed


theorem queued_job_outlives_member_witness:
  "\<exists>s s' :: nat job Workers. wk_reach 1 4 s \<and> wk_step\<^sup>*\<^sup>* (wk_stop s) s' \<and> JGrantRefresh \<in> set (wk_finished s') \<and>
     ''grants_'' \<in> set (destroyed_before ''workers_'')"
proof -
  obtain s :: "nat job Workers" where s: "wk_reach 1 4 s" "wk_dtor s = DNone" "tp_tasks (wk_pool s) = [JGrantRefresh]" using pool_sample by blast
  have r: "wk_reach 1 4 (wk_stop s)" "wk_dtor (wk_stop s) \<noteq> DNone"
    using wk_reach.step [OF s(1) wk_step.stop [OF s(2)]] by (simp_all add: wk_stop_def)
  obtain s' where s': "wk_step\<^sup>*\<^sup>* (wk_stop s) s'" "\<nexists>s''. wk_step s' s''" using end_exists [OF wk_reach_inv [OF r(1)] r(2)] by blast
  have "count (mset (wk_finished s)) JGrantRefresh < count (mset (wk_finished s')) JGrantRefresh \<and> ''grants_'' \<in> set (destroyed_before ''workers_'')"
    using queued_job_outlives_member [OF s(1) _ s(2) _ _ s', of JGrantRefresh "''grants_''"] s(3) by simp
  then show ?thesis using s(1) s'(1) by (metis count_eq_zero_iff gr_implies_not0 set_mset_mset)
qed

end
