(* ===== verification/Tracer.thy ===== *)
theory Tracer
  imports Sample_World "HOL-Library.Sublist"
begin

text \<open>
  The export of spans (\<^verbatim>\<open>src/observe/OtlpHttpJsonTracer.cpp\<close>): the job on a worker that empties the queue, the request it makes, and the
  destructor that waits for it, interleaved with new spans and with other jobs of the pool; and the writing of the audit
  log (\<^verbatim>\<open>src/audit/JsonlAuditLog.cpp\<close>). Lemmas: accepted spans are posted once and in order, the destructor returns when the end point of the
  configuration can be parsed, and it never returns when it cannot.
\<close>

section \<open>The request\<close>

text \<open>Host, port and path; \<^verbatim>\<open>stoi\<close> throws on a port that is no number.\<close>

definition hostPortPath :: "string \<Rightarrow> exn + (string \<times> int \<times> string)" where
  "hostPortPath url =
    (let rest = (if take 7 url = ''http://'' then drop 7 url else url);
         slash = sv_find ''/'' rest;
         hp = (case slash of None \<Rightarrow> rest | Some i \<Rightarrow> sv_substr rest 0 i);
         path = (case slash of None \<Rightarrow> ''/v1/traces'' | Some i \<Rightarrow> drop i rest)
     in case sv_rfind_char (CHR '':'') hp of
          None \<Rightarrow> Inr (hp, 80, path)
        | Some c \<Rightarrow> (case stoi (drop (c + 1) hp) of Inl e \<Rightarrow> Inl e | Inr p \<Rightarrow> Inr (sv_substr hp 0 c, p, path)))"

text \<open>The result of the request itself is ignored.\<close>

definition postOne :: "string \<Rightarrow> string \<Rightarrow> exn + (string \<times> int \<times> string \<times> string)" where
  "postOne endpoint json = (case hostPortPath endpoint of Inl e \<Rightarrow> Inl e | Inr (host, port, path) \<Rightarrow> Inr (host, port, path, json))"

section \<open>The audit log\<close>

text \<open>The job of a worker for an audit event: one line more in the file.\<close>

definition audit_append :: "'j json_api \<Rightarrow> AuditEvent \<Rightarrow> string list \<Rightarrow> string list" where
  "audit_append J ev file = file @ [j_dump J (audit_line J ev)]"

section \<open>The job and the destructor\<close>

text \<open>Where the job is: none is running, before its critical section, with a span taken from the queue, before the request. \<open>ex_accepted\<close> is the history
  of the spans that were queued, \<open>ex_posted\<close> that of the requests.\<close>

datatype drain_pc = DjNone | DjRound | DjTaken string | DjPost string

datatype closing = CloNo | CloWait | CloDone

record 'j Exporter =
  ex_endpoint :: string
  ex_obs :: "'j World"
  ex_job :: drain_pc
  ex_closing :: closing
  ex_accepted :: "string list"
  ex_posted :: "(string \<times> int \<times> string \<times> string) list"

definition OtlpHttpJsonTracer_make :: "YamlConfig \<Rightarrow> 'j World \<Rightarrow> 'j Exporter" where
  "OtlpHttpJsonTracer_make cfg w =
     \<lparr>ex_endpoint = cf_otelEndpoint cfg,
      ex_obs = w\<lparr>ob_tracer := \<lparr>tr_service = cf_otelService cfg, tr_queueMax = unat (cf_otelQueueMax cfg), tr_q = [], tr_draining = False,
        tr_closed = False, tr_live = []\<rparr>\<rparr>,
      ex_job = DjNone, ex_closing = CloNo, ex_accepted = [], ex_posted = []\<rparr>"

abbreviation ex_tr :: "'j Exporter \<Rightarrow> OtlpTracer" where
  "ex_tr s \<equiv> ob_tracer (ex_obs s)"

abbreviation ex_tasks :: "'j Exporter \<Rightarrow> 'j job list" where
  "ex_tasks s \<equiv> tp_tasks (ob_pool (ex_obs s))"

definition set_tr :: "OtlpTracer \<Rightarrow> 'j Exporter \<Rightarrow> 'j Exporter" where
  "set_tr tr s = s\<lparr>ex_obs := (ex_obs s)\<lparr>ob_tracer := tr\<rparr>\<rparr>"

definition ex_enqueue :: "string \<Rightarrow> 'j Exporter \<Rightarrow> 'j Exporter" where
  "ex_enqueue json s =
    (let w = trace_enqueue json (ex_obs s)
     in s\<lparr>ex_obs := w, ex_accepted := ex_accepted s @ drop (length (tr_q (ex_tr s))) (tr_q (ob_tracer w))\<rparr>)"

text \<open>A worker takes the next job of the pool; the other jobs do not concern the tracer.\<close>

definition ex_take :: "'j Exporter \<Rightarrow> 'j Exporter" where
  "ex_take s =
     (case tp_take (ob_pool (ex_obs s)) of
        None \<Rightarrow> s
      | Some (jb, p) \<Rightarrow>
          (let s1 = s\<lparr>ex_obs := (ex_obs s)\<lparr>ob_pool := p\<rparr>\<rparr> in case jb of JDrain \<Rightarrow> s1\<lparr>ex_job := DjRound\<rparr> | _ \<Rightarrow> s1))"

definition ex_round :: "'j Exporter \<Rightarrow> 'j Exporter" where
  "ex_round s =
     (case drain_step (ex_tr s) of
        (None, tr) \<Rightarrow> (set_tr tr s)\<lparr>ex_job := DjNone\<rparr>
      | (Some x, tr) \<Rightarrow> (set_tr tr s)\<lparr>ex_job := DjTaken x\<rparr>)"

definition ex_test :: "string \<Rightarrow> 'j Exporter \<Rightarrow> 'j Exporter" where
  "ex_test x s = s\<lparr>ex_job := (if tr_closed (ex_tr s) then DjRound else DjPost x)\<rparr>"

text \<open>An exception ends the job; the pool keeps it in a future that nobody reads.\<close>

definition ex_post :: "string \<Rightarrow> 'j Exporter \<Rightarrow> 'j Exporter" where
  "ex_post x s =
     (case postOne (ex_endpoint s) x of
        Inl e \<Rightarrow> s\<lparr>ex_job := DjNone\<rparr>
      | Inr rq \<Rightarrow> s\<lparr>ex_job := DjRound, ex_posted := ex_posted s @ [rq]\<rparr>)"

definition ex_close :: "'j Exporter \<Rightarrow> 'j Exporter" where
  "ex_close s = (set_tr (tracer_close (ex_tr s)) s)\<lparr>ex_closing := CloWait\<rparr>"

text \<open>The destructor looks at \<^verbatim>\<open>draining_\<close> again and again; only the look that lets it return is a step.\<close>

inductive ex_step :: "'j Exporter \<Rightarrow> 'j Exporter \<Rightarrow> bool" where
  span: "ex_closing s = CloNo \<Longrightarrow> ex_step s (ex_enqueue json s)"
| other: "ex_closing s = CloNo \<Longrightarrow> jb \<noteq> JDrain \<Longrightarrow> tp_add jb (ob_pool (ex_obs s)) = Inr p \<Longrightarrow> ex_step s (s\<lparr>ex_obs := (ex_obs s)\<lparr>ob_pool := p\<rparr>\<rparr>)"
| take: "ex_tasks s \<noteq> [] \<Longrightarrow> ex_step s (ex_take s)"
| round: "ex_job s = DjRound \<Longrightarrow> ex_step s (ex_round s)"
| test: "ex_job s = DjTaken x \<Longrightarrow> ex_step s (ex_test x s)"
| post: "ex_job s = DjPost x \<Longrightarrow> ex_step s (ex_post x s)"
| close: "ex_closing s = CloNo \<Longrightarrow> ex_step s (ex_close s)"
| return: "ex_closing s = CloWait \<Longrightarrow> \<not> tr_draining (ex_tr s) \<Longrightarrow> ex_step s (s\<lparr>ex_closing := CloDone\<rparr>)"

inductive ex_reach :: "YamlConfig \<Rightarrow> 'j Exporter \<Rightarrow> bool" for cfg where
  make: "JDrain \<notin> set (tp_tasks (ob_pool w)) \<Longrightarrow> ex_reach cfg (OtlpHttpJsonTracer_make cfg w)"
| step: "ex_reach cfg s \<Longrightarrow> ex_step s s' \<Longrightarrow> ex_reach cfg s'"

lemmas ex_defs = ex_enqueue_def ex_take_def ex_round_def ex_test_def ex_post_def ex_close_def set_tr_def tracer_close_def drain_step_def tp_take_def


section \<open>One job at a time, spans in order\<close>

definition drains :: "'j Exporter \<Rightarrow> nat" where
  "drains s = length (filter (\<lambda>jb. jb = JDrain) (ex_tasks s)) + (if ex_job s = DjNone then 0 else 1)"

fun in_hand :: "drain_pc \<Rightarrow> string list" where
  "in_hand (DjTaken x) = [x]"
| "in_hand (DjPost x) = [x]"
| "in_hand _ = []"

definition ex_inv :: "YamlConfig \<Rightarrow> 'j Exporter \<Rightarrow> bool" where
  "ex_inv cfg s \<longleftrightarrow> ex_endpoint s = cf_otelEndpoint cfg \<and> drains s = (if tr_draining (ex_tr s) then 1 else 0) \<and> (tr_closed (ex_tr s) \<longleftrightarrow> ex_closing s \<noteq> CloNo) \<and>
     (if tr_closed (ex_tr s) then prefix (map (snd \<circ> snd \<circ> snd) (ex_posted s) @ in_hand (ex_job s)) (ex_accepted s)
      else ex_accepted s = map (snd \<circ> snd \<circ> snd) (ex_posted s) @ in_hand (ex_job s) @ tr_q (ex_tr s))"

lemma enqueue_cases:
  fixes w :: "'j World"
  obtains "trace_enqueue json w = w" | c where "trace_enqueue json w = w\<lparr>env_counters := c\<rparr>"
  | "\<not> tr_closed (ob_tracer w)" "tr_draining (ob_tracer w)" "trace_enqueue json w = w\<lparr>ob_tracer := (ob_tracer w)\<lparr>tr_q := tr_q (ob_tracer w) @ [json]\<rparr>\<rparr>"
  | p where "\<not> tr_closed (ob_tracer w)" "\<not> tr_draining (ob_tracer w)" "tp_add JDrain (ob_pool w) = Inr p"
    "trace_enqueue json w = w\<lparr>ob_tracer := (ob_tracer w)\<lparr>tr_q := tr_q (ob_tracer w) @ [json], tr_draining := True\<rparr>, ob_pool := p\<rparr>"
  | c where "\<not> tr_closed (ob_tracer w)" "\<not> tr_draining (ob_tracer w)"
    "trace_enqueue json w = w\<lparr>ob_tracer := (ob_tracer w)\<lparr>tr_q := tr_q (ob_tracer w) @ [json], tr_draining := False\<rparr>, env_counters := c\<rparr>"
proof -
  let ?t = "ob_tracer w"
  consider (shut) "tr_closed ?t" | (full) "\<not> tr_closed ?t" "tr_queueMax ?t \<le> length (tr_q ?t)" | (runs) "\<not> tr_closed ?t" "length (tr_q ?t) < tr_queueMax ?t" "tr_draining ?t"
    | (kick) "\<not> tr_closed ?t" "length (tr_q ?t) < tr_queueMax ?t" "\<not> tr_draining ?t" by fastforce
  then show ?thesis
  proof cases
    case shut
    then show ?thesis by (intro that(1)) (simp add: trace_enqueue_def Let_def)
  next
    case full
    then show ?thesis by (intro that(2)) (simp add: trace_enqueue_def Let_def)
  next
    case runs
    then show ?thesis by (intro that(3)) (simp_all add: trace_enqueue_def Let_def)
  next
    case kick
    show ?thesis
    proof (cases "tp_add (JDrain :: 'j job) (ob_pool w)")
      case (Inl e)
      then show ?thesis using kick by (intro that(5)) (simp_all add: trace_enqueue_def Let_def pool_try_def)
    next
      case (Inr p)
      then show ?thesis using kick by (intro that(4)) (simp_all add: trace_enqueue_def Let_def pool_try_def)
    qed
  qed
qed

lemma ex_inv_enqueue: "ex_inv cfg s \<Longrightarrow> ex_closing s = CloNo \<Longrightarrow> ex_inv cfg (ex_enqueue json s)"
  by (rule enqueue_cases [of json "ex_obs s"]) (auto simp: ex_inv_def ex_enqueue_def drains_def tp_add_def Let_def split: if_splits)

lemma ex_inv_take:
  assumes "ex_inv cfg s" "ex_tasks s \<noteq> []"
  shows "ex_inv cfg (ex_take s)"
proof -
  obtain jb js where t: "ex_tasks s = jb # js" using assms(2) by (cases "ex_tasks s") auto
  have "drains (ex_take s) = drains s \<and> (jb = JDrain \<longrightarrow> ex_job s = DjNone)"
    using t assms(1) by (cases jb) (auto simp: drains_def ex_take_def tp_take_def ex_inv_def split: if_splits)
  moreover have "in_hand (ex_job (ex_take s)) = in_hand (ex_job s)" if "jb = JDrain \<longrightarrow> ex_job s = DjNone"
    using t that by (cases jb) (simp_all add: ex_take_def tp_take_def)
  moreover have "ex_tr (ex_take s) = ex_tr s" "ex_endpoint (ex_take s) = ex_endpoint s" "ex_closing (ex_take s) = ex_closing s"
    "ex_accepted (ex_take s) = ex_accepted s" "ex_posted (ex_take s) = ex_posted s"
    using t by (cases jb; simp add: ex_take_def tp_take_def)+
  ultimately show ?thesis using assms(1) by (simp add: ex_inv_def)
qed

lemma ex_inv_step:
  assumes "ex_step s s'" "ex_inv cfg s" "hostPortPath (cf_otelEndpoint cfg) = Inr hpp"
  shows "ex_inv cfg s'"
  using assms
proof (induction rule: ex_step.induct)
  case (span s json)
  then show ?case by (simp add: ex_inv_enqueue)
next
  case (take s)
  then show ?case by (simp add: ex_inv_take)
next
  case (other s jb p)
  then show ?case by (auto simp: ex_inv_def drains_def tp_add_def split: if_splits)
next
  case (round s)
  then show ?case by (auto simp: ex_inv_def drains_def ex_round_def set_tr_def drain_step_def split: if_splits)
next
  case (test s x)
  then show ?case by (auto simp: ex_inv_def drains_def ex_test_def dest: append_prefixD split: if_splits)
next
  case (post s x)
  then show ?case by (cases hpp) (auto simp: ex_inv_def drains_def ex_post_def postOne_def split: if_splits)
next
  case (close s)
  then show ?case by (auto simp: ex_inv_def drains_def ex_close_def set_tr_def tracer_close_def split: if_splits)
next
  case (return s)
  then show ?case by (auto simp: ex_inv_def drains_def)
qed

lemma ex_reach_inv: "ex_reach cfg s \<Longrightarrow> hostPortPath (cf_otelEndpoint cfg) = Inr hpp \<Longrightarrow> ex_inv cfg s"
proof (induction rule: ex_reach.induct)
  case (make w)
  then show ?case by (auto simp: ex_inv_def OtlpHttpJsonTracer_make_def drains_def filter_empty_conv)
next
  case (step s s')
  then show ?case using ex_inv_step by blast
qed

text \<open>Every accepted span is posted once, in the order of acceptance: before the tracer is closed, the accepted spans are those posted, the one in
  the hands of the worker and the queue; from then on what was posted is a prefix of them. At most one job drains the queue.\<close>

theorem spans_posted_in_order:
  assumes "ex_reach cfg s" "hostPortPath (cf_otelEndpoint cfg) = Inr hpp"
  shows "prefix (map (snd \<circ> snd \<circ> snd) (ex_posted s)) (ex_accepted s) \<and> drains s \<le> 1 \<and>
    (ex_closing s = CloNo \<longrightarrow> ex_accepted s = map (snd \<circ> snd \<circ> snd) (ex_posted s) @ in_hand (ex_job s) @ tr_q (ex_tr s))"
  using ex_reach_inv [OF assms] by (auto simp: ex_inv_def dest: append_prefixD split: if_splits)

section \<open>The destructor\<close>

fun job_weight :: "drain_pc \<Rightarrow> nat" where
  "job_weight DjNone = 0"
| "job_weight DjRound = 1"
| "job_weight _ = 2"

fun closing_weight :: "closing \<Rightarrow> nat" where
  "closing_weight CloNo = 2"
| "closing_weight CloWait = 1"
| "closing_weight CloDone = 0"

definition ex_measure :: "'j Exporter \<Rightarrow> nat" where
  "ex_measure s = 2 * length (ex_tasks s) + job_weight (ex_job s) + closing_weight (ex_closing s)"

lemma ex_measure_step:
  assumes "ex_step s s'" "tr_closed (ex_tr s)" "ex_closing s \<noteq> CloNo"
  shows "ex_measure s' < ex_measure s \<and> tr_closed (ex_tr s') \<and> ex_closing s' \<noteq> CloNo"
  using assms
proof (induction rule: ex_step.induct)
  case (take s)
  then obtain jb js where t: "ex_tasks s = jb # js" by (cases "ex_tasks s") auto
  then show ?case using take by (cases jb) (simp_all add: ex_measure_def ex_take_def tp_take_def)
next
  case (post s x)
  then show ?case by (cases "postOne (ex_endpoint s) x") (simp_all add: ex_measure_def ex_post_def)
qed (simp_all add: ex_measure_def ex_round_def ex_test_def drain_step_def set_tr_def)

lemma ex_end:
  assumes "ex_inv cfg s" "ex_closing s \<noteq> CloNo" "\<nexists>s'. ex_step s s'"
  shows "ex_closing s = CloDone"
proof (rule ccontr)
  assume "ex_closing s \<noteq> CloDone"
  then have w: "ex_closing s = CloWait" using assms(2) by (cases "ex_closing s") auto
  have "tr_draining (ex_tr s)" using assms(3) ex_step.return [OF w] by blast
  then have "drains s = 1" using assms(1) by (simp add: ex_inv_def)
  moreover have "ex_tasks s = []" using assms(3) ex_step.take by blast
  ultimately have "ex_job s \<noteq> DjNone" by (simp add: drains_def split: if_splits)
  then show False using assms(3) ex_step.round ex_step.test ex_step.post by (cases "ex_job s") blast+
qed

lemma ex_steps_keep:
  assumes "ex_step\<^sup>*\<^sup>* s s'" "ex_inv cfg s" "ex_closing s \<noteq> CloNo" "hostPortPath (cf_otelEndpoint cfg) = Inr hpp"
  shows "ex_inv cfg s' \<and> ex_closing s' \<noteq> CloNo"
  using assms
proof (induction rule: rtranclp_induct)
  case (step y z)
  then show ?case using ex_inv_step [OF step(2)] ex_measure_step [OF step(2)] by (simp add: ex_inv_def)
qed simp

text \<open>The destructor of the tracer returns, whatever the jobs of the pool are doing when it begins, provided that the end point can be
  parsed: every run is finite, and one that can go no further has left the destructor.\<close>

theorem tracer_destructor_returns:
  assumes "ex_reach cfg s" "hostPortPath (cf_otelEndpoint cfg) = Inr hpp" "ex_closing s \<noteq> CloNo"
  shows "(\<nexists>f. f 0 = s \<and> (\<forall>i. ex_step (f i) (f (Suc i)))) \<and> (\<forall>s'. ex_step\<^sup>*\<^sup>* s s' \<and> (\<nexists>s''. ex_step s' s'') \<longrightarrow> ex_closing s' = CloDone)"
proof
  note keep = ex_steps_keep [OF _ ex_reach_inv [OF assms(1,2)] assms(3,2)]
  show "\<nexists>f. f 0 = s \<and> (\<forall>i. ex_step (f i) (f (Suc i)))"
  proof
    assume "\<exists>f. f 0 = s \<and> (\<forall>i. ex_step (f i) (f (Suc i)))"
    then obtain f where f: "f 0 = s" "\<And>i. ex_step (f i) (f (Suc i))" by blast
    have "ex_step\<^sup>*\<^sup>* s (f i)" for i by (induction i) (auto simp: f intro: rtranclp.rtrancl_into_rtrancl)
    then have "tr_closed (ex_tr (f i)) \<and> ex_closing (f i) \<noteq> CloNo" for i using keep by (simp add: ex_inv_def)
    then show False using ex_measure_step [OF f(2)] no_endless_run [of ex_measure f] by blast
  qed
  show "\<forall>s'. ex_step\<^sup>*\<^sup>* s s' \<and> (\<nexists>s''. ex_step s' s'') \<longrightarrow> ex_closing s' = CloDone" using keep ex_end by blast
qed

definition stuck :: "'j Exporter \<Rightarrow> bool" where
  "stuck s \<longleftrightarrow> tr_draining (ex_tr s) \<and> ex_job s = DjNone \<and> JDrain \<notin> set (ex_tasks s) \<and> ex_closing s \<noteq> CloDone"

lemma stuck_step:
  assumes "ex_step s s'" "stuck s"
  shows "stuck s' \<and> ex_posted s' = ex_posted s"
  using assms
proof (induction rule: ex_step.induct)
  case (span s json)
  then show ?case
    by (cases rule: enqueue_cases [of json "ex_obs s"]) (auto simp: stuck_def ex_enqueue_def Let_def)
next
  case (other s jb p)
  then show ?case by (auto simp: stuck_def tp_add_def split: if_splits)
next
  case (take s)
  then obtain jb js where t: "ex_tasks s = jb # js" by (cases "ex_tasks s") auto
  then show ?case using take by (cases jb) (simp_all add: stuck_def ex_take_def tp_take_def)
qed (simp_all add: stuck_def ex_close_def set_tr_def tracer_close_def)

definition jobs_ok :: "YamlConfig \<Rightarrow> 'j Exporter \<Rightarrow> bool" where
  "jobs_ok cfg s \<longleftrightarrow> ex_endpoint s = cf_otelEndpoint cfg \<and> drains s \<le> (if tr_draining (ex_tr s) then 1 else 0) \<and> (ex_closing s = CloDone \<longrightarrow> \<not> tr_draining (ex_tr s))"

lemma jobs_ok_enqueue: "jobs_ok cfg s \<Longrightarrow> ex_closing s = CloNo \<Longrightarrow> jobs_ok cfg (ex_enqueue json s)"
  by (rule enqueue_cases [of json "ex_obs s"]) (auto simp: jobs_ok_def ex_enqueue_def drains_def tp_add_def Let_def split: if_splits)

lemma jobs_ok_step:
  assumes "ex_step s s'" "jobs_ok cfg s"
  shows "jobs_ok cfg s'"
  using assms
proof (induction rule: ex_step.induct)
  case (span s json)
  then show ?case by (simp add: jobs_ok_enqueue)
next
  case (other s jb p)
  then show ?case by (auto simp: jobs_ok_def drains_def tp_add_def split: if_splits)
next
  case (take s)
  then obtain jb js where t: "ex_tasks s = jb # js" by (cases "ex_tasks s") auto
  then show ?case using take by (cases jb) (auto simp: jobs_ok_def drains_def ex_take_def tp_take_def split: if_splits)
next
  case (post s x)
  then show ?case by (cases "postOne (ex_endpoint s) x") (auto simp: jobs_ok_def drains_def ex_post_def split: if_splits)
qed (auto simp: jobs_ok_def drains_def ex_round_def ex_test_def ex_close_def set_tr_def drain_step_def tracer_close_def split: if_splits)

lemma ex_reach_jobs: "ex_reach cfg s \<Longrightarrow> jobs_ok cfg s"
proof (induction rule: ex_reach.induct)
  case (make w)
  then show ?case by (auto simp: jobs_ok_def OtlpHttpJsonTracer_make_def drains_def filter_empty_conv)
next
  case (step s s')
  then show ?case using jobs_ok_step by blast
qed

text \<open>C38: An end point that cannot be parsed: the first attempt to post a span ends the job with an exception and leaves \<^verbatim>\<open>draining_\<close> set; from then on
  no span is posted and the destructor never returns, so that the process does not end.\<close>

theorem bad_endpoint_hangs:
  assumes "ex_reach cfg s" "hostPortPath (cf_otelEndpoint cfg) = Inl e" "ex_job s = DjPost x" "ex_step\<^sup>*\<^sup>* (ex_post x s) s'"
  shows "tr_draining (ex_tr s') \<and> ex_closing s' \<noteq> CloDone \<and> ex_posted s' = ex_posted s"
proof -
  have "jobs_ok cfg s" by (rule ex_reach_jobs [OF assms(1)])
  then have "stuck (ex_post x s) \<and> ex_posted (ex_post x s) = ex_posted s"
    using assms(2,3) by (auto simp: jobs_ok_def stuck_def drains_def ex_post_def postOne_def filter_empty_conv split: if_splits)
  with assms(4) have "stuck s' \<and> ex_posted s' = ex_posted s" by (induction rule: rtranclp_induct) (use stuck_step in force)+
  then show ?thesis by (simp add: stuck_def)
qed

section \<open>A gateway with a wrong end point, and one with a good one\<close>

definition sample_otel :: "string \<Rightarrow> YamlConfig" where
  "sample_otel url = YamlConfig_default\<lparr>cf_otelEndpoint := url, cf_otelQueueMax := 1024\<rparr>"

lemma sample_endpoints:
  "hostPortPath ''https://otel/v1/traces'' = Inl InvalidArgument" "hostPortPath ''http://otel:4318/v1/traces'' = Inr (''otel'', 4318, ''/v1/traces'')"
  by code_simp+

lemma export_sample:
  obtains s :: "jv Exporter" where "ex_reach (sample_otel url) s" "ex_job s = DjPost ''x''" "ex_closing s = CloNo" "ex_posted s = []" "ex_accepted s = [''x'']"
    "ex_endpoint s = url"
proof -
  let ?w = "sample_world\<lparr>ob_pool := ThreadPool_make 4\<rparr>" let ?a = "OtlpHttpJsonTracer_make (sample_otel url) ?w"
  let ?b = "ex_enqueue ''x'' ?a" let ?c = "ex_take ?b" let ?d = "ex_round ?c" let ?e = "ex_test ''x'' ?d"
  have a: "tr_q (ex_tr ?a) = []" "\<not> tr_draining (ex_tr ?a)" "\<not> tr_closed (ex_tr ?a)" "0 < tr_queueMax (ex_tr ?a)" "ex_closing ?a = CloNo" "ex_posted ?a = []"
    "ex_accepted ?a = []" "ex_endpoint ?a = url" "ob_pool (ex_obs ?a) = ThreadPool_make 4"
    by (simp_all add: OtlpHttpJsonTracer_make_def sample_otel_def)
  have b: "tr_q (ex_tr ?b) = [''x'']" "tr_draining (ex_tr ?b)" "\<not> tr_closed (ex_tr ?b)" "ex_closing ?b = CloNo" "ex_posted ?b = []" "ex_accepted ?b = [''x'']"
    "ex_endpoint ?b = url" "ex_tasks ?b = [JDrain]"
    using a by (simp_all add: ex_enqueue_def trace_enqueue_def pool_try_def tp_add_def ThreadPool_make_def Let_def)
  have c: "tr_q (ex_tr ?c) = [''x'']" "\<not> tr_closed (ex_tr ?c)" "ex_closing ?c = CloNo" "ex_posted ?c = []" "ex_accepted ?c = [''x'']" "ex_endpoint ?c = url" "ex_job ?c = DjRound"
    using b by (simp_all add: ex_take_def tp_take_def)
  have d: "\<not> tr_closed (ex_tr ?d)" "ex_closing ?d = CloNo" "ex_posted ?d = []" "ex_accepted ?d = [''x'']" "ex_endpoint ?d = url" "ex_job ?d = DjTaken ''x''"
    using c by (simp_all add: ex_round_def drain_step_def set_tr_def)
  have "ex_reach (sample_otel url) ?a" by (rule ex_reach.make) (simp add: ThreadPool_make_def)
  from ex_reach.step [OF this ex_step.span [OF a(5)]] have "ex_reach (sample_otel url) ?b" .
  from ex_reach.step [OF this ex_step.take] b(8) have "ex_reach (sample_otel url) ?c" by simp
  from ex_reach.step [OF this ex_step.round [OF c(7)]] have "ex_reach (sample_otel url) ?d" .
  from ex_reach.step [OF this ex_step.test [OF d(6)]] have "ex_reach (sample_otel url) ?e" .
  then show ?thesis using that [of ?e] d by (simp add: ex_test_def)
qed

theorem bad_endpoint_hangs_witness:
  "\<exists>s :: jv Exporter. ex_reach (sample_otel ''https://otel/v1/traces'') s \<and> (\<forall>s'. ex_step\<^sup>*\<^sup>* s s' \<longrightarrow> ex_closing s' \<noteq> CloDone)"
proof -
  obtain s :: "jv Exporter" where s: "ex_reach (sample_otel ''https://otel/v1/traces'') s" "ex_job s = DjPost ''x''" by (rule export_sample)
  have "ex_closing s' \<noteq> CloDone" if "ex_step\<^sup>*\<^sup>* (ex_post ''x'' s) s'" for s'
    using bad_endpoint_hangs [OF s(1) _ s(2) that] by (simp add: sample_otel_def sample_endpoints)
  then show ?thesis using ex_reach.step [OF s(1) ex_step.post [OF s(2)]] by blast
qed

theorem spans_posted_in_order_witness:
  "\<exists>s :: jv Exporter. ex_reach (sample_otel ''http://otel:4318/v1/traces'') s \<and> ex_posted s = [(''otel'', 4318, ''/v1/traces'', ''x'')] \<and> ex_accepted s = [''x''] \<and> tr_q (ex_tr s) = []"
proof -
  let ?u = "''http://otel:4318/v1/traces''"
  obtain s :: "jv Exporter" where s: "ex_reach (sample_otel ?u) s" "ex_job s = DjPost ''x''" "ex_closing s = CloNo" "ex_posted s = []" "ex_accepted s = [''x'']" "ex_endpoint s = ?u"
    by (rule export_sample)
  let ?t = "ex_post ''x'' s"
  have t: "ex_posted ?t = [(''otel'', 4318, ''/v1/traces'', ''x'')]" "ex_accepted ?t = [''x'']" "ex_closing ?t = CloNo" "ex_job ?t = DjRound"
    using s by (simp_all add: ex_post_def postOne_def sample_endpoints)
  have r: "ex_reach (sample_otel ?u) ?t" using ex_reach.step [OF s(1) ex_step.post [OF s(2)]] .
  show ?thesis using spans_posted_in_order [OF r, of "(''otel'', 4318, ''/v1/traces'')"] r t by (intro exI [of _ ?t]) (simp add: sample_otel_def sample_endpoints)
qed

theorem tracer_destructor_returns_witness:
  "\<exists>s :: jv Exporter. ex_reach (sample_otel ''http://otel:4318/v1/traces'') s \<and> ex_closing s = CloWait \<and> (\<nexists>f. f 0 = s \<and> (\<forall>i. ex_step (f i) (f (Suc i))))"
proof -
  let ?u = "''http://otel:4318/v1/traces''"
  obtain s :: "jv Exporter" where s: "ex_reach (sample_otel ?u) s" "ex_closing s = CloNo" by (rule export_sample)
  have r: "ex_reach (sample_otel ?u) (ex_close s)" "ex_closing (ex_close s) = CloWait"
    using ex_reach.step [OF s(1) ex_step.close [OF s(2)]] by (simp_all add: ex_close_def)
  show ?thesis using tracer_destructor_returns [OF r(1), of "(''otel'', 4318, ''/v1/traces'')"] r by (intro exI [of _ "ex_close s"]) (simp add: sample_otel_def sample_endpoints)
qed

end
