(* ===== verification/Byte_Buffer.thy ===== *)
theory Byte_Buffer
  imports Prelude
begin

text \<open>
  The byte buffer of a connection (\<^verbatim>\<open>netlib/include/netlib/Buffer.h\<close>, \<^verbatim>\<open>netlib/src/Buffer.cpp\<close>):
  a vector with a read and a write index. The indices are \<^typ>\<open>nat\<close>; the invariant keeps them inside
  the vector, so no \<^verbatim>\<open>size_t\<close> operation wraps. \<open>readFd\<close> takes the bytes that \<^verbatim>\<open>readv\<close> delivered.
  The buffer refines a queue of bytes (locale \<open>byte_queue\<close>).
\<close>

unbundle bit_operations_syntax

section \<open>Operations\<close>

definition kBufferPrepend :: nat where "kBufferPrepend = 8"
definition kBufferInit :: nat where "kBufferInit = 1024"
definition kBufferExtra :: nat where "kBufferExtra = 65536"

record Buffer =
  bu_buf :: "char list"
  bu_readIdx :: nat
  bu_writeIdx :: nat

definition Buffer_make :: "nat \<Rightarrow> Buffer" where
  "Buffer_make init = \<lparr>bu_buf = replicate (kBufferPrepend + init) (CHR 0x00), bu_readIdx = kBufferPrepend, bu_writeIdx = kBufferPrepend\<rparr>"

definition readableBytes :: "Buffer \<Rightarrow> nat" where
  "readableBytes b = bu_writeIdx b - bu_readIdx b"

definition writableBytes :: "Buffer \<Rightarrow> nat" where
  "writableBytes b = length (bu_buf b) - bu_writeIdx b"

definition prependableBytes :: "Buffer \<Rightarrow> nat" where
  "prependableBytes b = bu_readIdx b"

text \<open>\<open>peek b n\<close>: the \<open>n\<close> bytes at the pointer that \<^verbatim>\<open>peek()\<close> returns.\<close>

definition peek :: "Buffer \<Rightarrow> nat \<Rightarrow> string" where
  "peek b n = take n (drop (bu_readIdx b) (bu_buf b))"

definition retrieveAll :: "Buffer \<Rightarrow> Buffer" where
  "retrieveAll b = b\<lparr>bu_readIdx := kBufferPrepend, bu_writeIdx := kBufferPrepend\<rparr>"

definition retrieve :: "nat \<Rightarrow> Buffer \<Rightarrow> Buffer" where
  "retrieve n b = (if n < readableBytes b then b\<lparr>bu_readIdx := bu_readIdx b + n\<rparr> else retrieveAll b)"

text \<open>\<^verbatim>\<open>memcpy\<close> to an offset and \<^verbatim>\<open>vector::resize\<close>.\<close>

definition mem_write :: "nat \<Rightarrow> 'a list \<Rightarrow> 'a list \<Rightarrow> 'a list" where
  "mem_write i d xs = take i xs @ d @ drop (i + length d) xs"

definition vec_resize :: "nat \<Rightarrow> char list \<Rightarrow> char list" where
  "vec_resize n xs = take n xs @ replicate (n - length xs) (CHR 0x00)"

definition makeSpace :: "nat \<Rightarrow> Buffer \<Rightarrow> Buffer" where
  "makeSpace len b =
     (if writableBytes b + prependableBytes b < len + kBufferPrepend
      then b\<lparr>bu_buf := vec_resize (bu_writeIdx b + len) (bu_buf b)\<rparr>
      else
        (let readable = readableBytes b
         in \<lparr>bu_buf = mem_write kBufferPrepend (peek b readable) (bu_buf b),
             bu_readIdx = kBufferPrepend, bu_writeIdx = kBufferPrepend + readable\<rparr>))"

definition bu_append :: "string \<Rightarrow> Buffer \<Rightarrow> Buffer" where
  "bu_append d b =
    (let b1 = (if writableBytes b < length d then makeSpace (length d) b else b)
     in b1\<lparr>bu_buf := mem_write (bu_writeIdx b1) d (bu_buf b1), bu_writeIdx := bu_writeIdx b1 + length d\<rparr>)"

text \<open>\<^verbatim>\<open>appendUintN\<close>: the loop fills the bytes from the end; \<open>n\<close> is \<^verbatim>\<open>sizeof(T)\<close>.\<close>

fun uint_bytes :: "nat \<Rightarrow> 'a :: len word \<Rightarrow> string" where
  "uint_bytes 0 v = []"
| "uint_bytes (Suc n) v = uint_bytes n (drop_bit 8 v) @ [char_of (unat (v AND 0xFF))]"

definition appendUintN :: "'a :: len word \<Rightarrow> Buffer \<Rightarrow> Buffer" where
  "appendUintN v b = bu_append (uint_bytes (LENGTH('a) div 8) v) b"

text \<open>\<^verbatim>\<open>peekUintNAt\<close>; \<^verbatim>\<open>peekUintN\<close> is the case of offset 0.\<close>

definition peekUintNAt :: "nat \<Rightarrow> Buffer \<Rightarrow> 'a :: len word" where
  "peekUintNAt offset b =
     fold (\<lambda>c v. push_bit 8 v OR of_nat (of_char c)) (take (LENGTH('a) div 8) (drop (bu_readIdx b + offset) (bu_buf b))) 0"

text \<open>\<open>Inl e\<close>: \<^verbatim>\<open>readv\<close> failed with \<^verbatim>\<open>errno\<close> \<open>e\<close>; \<open>Inr d\<close>: it delivered the bytes \<open>d\<close>, first into the
  buffer and then into the extra area on the stack.\<close>

definition readFd :: "int + string \<Rightarrow> Buffer \<Rightarrow> (int + nat) \<times> Buffer" where
  "readFd r b =
     (case r of
        Inl e \<Rightarrow> (Inl e, b)
      | Inr d \<Rightarrow>
          (let writable = writableBytes b;
               b1 = b\<lparr>bu_buf := mem_write (bu_writeIdx b) (take writable d) (bu_buf b)\<rparr>
           in (Inr (length d),
               if length d \<le> writable then b1\<lparr>bu_writeIdx := bu_writeIdx b1 + length d\<rparr>
               else bu_append (drop writable d) (b1\<lparr>bu_writeIdx := length (bu_buf b1)\<rparr>))))"

definition readv_limit :: "Buffer \<Rightarrow> nat" where
  "readv_limit b = (if writableBytes b < kBufferExtra then writableBytes b + kBufferExtra else writableBytes b)"

section \<open>The queue of bytes\<close>

definition buffer_wf :: "Buffer \<Rightarrow> bool" where
  "buffer_wf b \<longleftrightarrow> kBufferPrepend \<le> bu_readIdx b \<and> bu_readIdx b \<le> bu_writeIdx b \<and> bu_writeIdx b \<le> length (bu_buf b)"

definition content :: "Buffer \<Rightarrow> string" where
  "content b = peek b (readableBytes b)"

text \<open>What the clients of a buffer rely on.\<close>

locale byte_queue =
  fixes wf :: "'b \<Rightarrow> bool" and bytes :: "'b \<Rightarrow> string" and put :: "string \<Rightarrow> 'b \<Rightarrow> 'b" and discard :: "nat \<Rightarrow> 'b \<Rightarrow> 'b"
  assumes wf_put: "wf b \<Longrightarrow> wf (put d b)" and bytes_put: "wf b \<Longrightarrow> bytes (put d b) = bytes b @ d"
    and wf_discard: "wf b \<Longrightarrow> wf (discard n b)" and bytes_discard: "wf b \<Longrightarrow> bytes (discard n b) = drop n (bytes b)"
begin

lemma put_all: "wf b \<Longrightarrow> wf (fold put ds b) \<and> bytes (fold put ds b) = bytes b @ concat ds"
  by (induction ds arbitrary: b) (simp_all add: wf_put bytes_put)

lemma discard_all: "wf b \<Longrightarrow> wf (fold discard ns b) \<and> bytes (fold discard ns b) = drop (sum_list ns) (bytes b)"
  by (induction ns arbitrary: b) (simp_all add: wf_discard bytes_discard add.commute)

lemma put_discard: "wf b \<Longrightarrow> n \<le> length (bytes b) \<Longrightarrow> bytes (discard n (put d b)) = bytes (put d (discard n b))"
  by (simp add: wf_put wf_discard bytes_put bytes_discard)

end

lemma length_mem_write [simp]: "i + length d \<le> length xs \<Longrightarrow> length (mem_write i d xs) = length xs"
  by (simp add: mem_write_def)

lemma take_mem_write: "i \<le> length xs \<Longrightarrow> take (i + length d) (mem_write i d xs) = take i xs @ d"
  by (simp add: mem_write_def)

lemma content_alt: "buffer_wf b \<Longrightarrow> content b = drop (bu_readIdx b) (take (bu_writeIdx b) (bu_buf b))"
  by (simp add: content_def peek_def readableBytes_def take_drop buffer_wf_def)

lemma length_content [simp]: "buffer_wf b \<Longrightarrow> length (content b) = readableBytes b"
  by (simp add: content_alt readableBytes_def buffer_wf_def)

lemma content_make [simp]: "content (Buffer_make n) = []" "buffer_wf (Buffer_make n)"
  by (simp_all add: Buffer_make_def content_def readableBytes_def peek_def buffer_wf_def)

lemma content_retrieve:
  assumes "buffer_wf b"
  shows "buffer_wf (retrieve n b)" "content (retrieve n b) = drop n (content b)"
proof -
  show "buffer_wf (retrieve n b)"
    using assms by (auto simp: retrieve_def retrieveAll_def buffer_wf_def readableBytes_def)
  then show "content (retrieve n b) = drop n (content b)"
    using assms length_content [OF assms]
    by (auto simp: content_alt retrieve_def retrieveAll_def readableBytes_def buffer_wf_def add.commute)
qed

lemma makeSpace_ok:
  assumes "buffer_wf b" "writableBytes b < len"
  shows "buffer_wf (makeSpace len b)" "content (makeSpace len b) = content b" "len \<le> writableBytes (makeSpace len b)"
proof -
  show wf: "buffer_wf (makeSpace len b)"
    using assms by (auto simp: makeSpace_def buffer_wf_def vec_resize_def readableBytes_def peek_def mem_write_def Let_def)
  show "len \<le> writableBytes (makeSpace len b)"
    using assms by (auto simp: makeSpace_def buffer_wf_def vec_resize_def writableBytes_def prependableBytes_def readableBytes_def peek_def
        mem_write_def Let_def)
  show "content (makeSpace len b) = content b"
    unfolding content_alt [OF wf] content_alt [OF assms(1)]
    using assms by (auto simp: makeSpace_def buffer_wf_def vec_resize_def readableBytes_def peek_def mem_write_def take_drop Let_def)
qed

lemma bytes_append_fit:
  assumes "buffer_wf b" "length d \<le> writableBytes b"
  shows "buffer_wf (b\<lparr>bu_buf := mem_write (bu_writeIdx b) d (bu_buf b), bu_writeIdx := bu_writeIdx b + length d\<rparr>)" (is "buffer_wf ?b")
    and "content (b\<lparr>bu_buf := mem_write (bu_writeIdx b) d (bu_buf b), bu_writeIdx := bu_writeIdx b + length d\<rparr>) = content b @ d"
proof -
  show wf: "buffer_wf ?b" using assms by (simp add: buffer_wf_def writableBytes_def mem_write_def)
  show "content ?b = content b @ d"
    unfolding content_alt [OF wf] content_alt [OF assms(1)]
    using assms by (simp add: take_mem_write buffer_wf_def)
qed

lemma content_append:
  assumes "buffer_wf b"
  shows "buffer_wf (bu_append d b)" "content (bu_append d b) = content b @ d"
  using assms makeSpace_ok [OF assms, of "length d"] bytes_append_fit [of "makeSpace (length d) b" d] bytes_append_fit [of b d]
  by (simp_all add: bu_append_def Let_def not_less)

interpretation buffer_queue: byte_queue buffer_wf content bu_append retrieve
  by unfold_locales (simp_all add: content_append content_retrieve)

lemma content_readFd:
  assumes "buffer_wf b"
  shows "buffer_wf (snd (readFd (Inr d) b))" "content (snd (readFd (Inr d) b)) = content b @ d"
proof -
  let ?w = "writableBytes b"
  let ?b1 = "b\<lparr>bu_buf := mem_write (bu_writeIdx b) (take ?w d) (bu_buf b)\<rparr>"
  let ?b2 = "b\<lparr>bu_buf := mem_write (bu_writeIdx b) (take ?w d) (bu_buf b), bu_writeIdx := bu_writeIdx b + length (take ?w d)\<rparr>"
  note f = bytes_append_fit [OF assms, of "take ?w d"]
  have "\<not> length d \<le> ?w \<Longrightarrow> ?b1\<lparr>bu_writeIdx := length (bu_buf ?b1)\<rparr> = ?b2"
    using assms by (simp add: buffer_wf_def writableBytes_def)
  then show "buffer_wf (snd (readFd (Inr d) b))" "content (snd (readFd (Inr d) b)) = content b @ d"
    using f content_append [of ?b2 "drop ?w d"] by (auto simp: readFd_def Let_def)
qed

lemma low_byte: "of_nat (of_char (char_of (unat ((v :: 'a :: len word) AND 0xFF)) :: char)) = take_bit 8 v"
proof -
  have m: "v AND 0xFF = take_bit 8 v" by (simp add: take_bit_eq_mask mask_eq_exp_minus_1)
  have "unat (take_bit 8 v) < 256" using take_bit_nat_less_exp [of 8 "unat v"] by (simp add: unsigned_take_bit_eq)
  then show ?thesis unfolding m by (simp add: of_char_of)
qed

lemma fold_uint_bytes:
  fixes v a :: "'a :: len word"
  shows "fold (\<lambda>c v. push_bit 8 v OR of_nat (of_char c)) (uint_bytes n v) a = push_bit (8 * n) a OR take_bit (8 * n) v"
proof (induction n arbitrary: v)
  case (Suc n)
  have "push_bit 8 (push_bit (8 * n) a OR take_bit (8 * n) (drop_bit 8 v)) OR take_bit 8 v = push_bit (8 * Suc n) a OR take_bit (8 * Suc n) v"
    by (rule bit_word_eqI) (auto simp: bit_simps)
  then show ?case using low_byte [of v] by (simp add: Suc del: of_char_of)
qed simp

lemma length_uint_bytes [simp]: "length (uint_bytes n v) = n"
  by (induction n arbitrary: v) simp_all

lemma peek_content:
  assumes "buffer_wf b" "k + offset \<le> length (content b)"
  shows "take k (drop (bu_readIdx b + offset) (bu_buf b)) = take k (drop offset (content b))"
proof -
  have "k + offset \<le> readableBytes b" using assms by simp
  then show ?thesis by (simp add: content_def peek_def drop_take take_take add.commute min_def)
qed

section \<open>Properties\<close>

text \<open>C19: the buffer is a queue of bytes: every operation keeps the indices inside the vector, an append
  or a read from the socket adds exactly its bytes at the end, whatever the fill level, and a
  retrieve removes exactly the first bytes.\<close>

theorem buffer_is_queue:
  assumes "buffer_wf b"
  shows "buffer_wf (bu_append d b) \<and> content (bu_append d b) = content b @ d \<and>
    buffer_wf (retrieve n b) \<and> content (retrieve n b) = drop n (content b) \<and>
    buffer_wf (snd (readFd (Inr d) b)) \<and> content (snd (readFd (Inr d) b)) = content b @ d \<and>
    readableBytes b = length (content b)"
  using assms content_readFd [OF assms] by (simp add: content_append content_retrieve)

theorem buffer_is_queue_witness: "content (snd (readFd (Inr ''GET /'') (Buffer_make 2))) = ''GET /''"
  using buffer_is_queue [of "Buffer_make 2" "''GET /''" 0] by simp

text \<open>integers of any width that is a multiple of eight survive the wire format: what was appended in network
  byte order is read back at its offset.\<close>

theorem uint_roundtrip:
  fixes v :: "'a :: len word"
  assumes "buffer_wf b" "8 dvd LENGTH('a)"
  shows "peekUintNAt (readableBytes b) (appendUintN v b) = v"
proof -
  let ?n = "LENGTH('a) div 8"
  have "take ?n (drop (bu_readIdx (appendUintN v b) + readableBytes b) (bu_buf (appendUintN v b))) = uint_bytes ?n v"
    using assms(1) by (subst peek_content) (simp_all add: appendUintN_def content_append)
  then show ?thesis using assms(2) by (simp add: peekUintNAt_def fold_uint_bytes)
qed

theorem uint_roundtrip_witness: "peekUintNAt 0 (appendUintN (0x1234 :: 16 word) (Buffer_make 4)) = (0x1234 :: 16 word)"
proof -
  have "readableBytes (Buffer_make 4) = 0" by (simp add: readableBytes_def Buffer_make_def)
  then show ?thesis using uint_roundtrip [of "Buffer_make 4" "0x1234 :: 16 word"] by simp
qed

end
