(* ===== verification/Connection.thy ===== *)
theory Connection
  imports Byte_Buffer
begin

text \<open>
  A TCP connection (\<^verbatim>\<open>netlib/src/TcpConnection.cpp\<close>) as its loop thread sees it: the buffers, the state
  machine from connected to closed, edge-triggered reading and writing. System calls are lists of
  their results, \<open>Inl\<close> an \<^verbatim>\<open>errno\<close>; a loop that has used up its list has not returned yet
  (\<open>None\<close>). \<open>co_wire\<close> records the bytes the kernel took, \<open>co_events\<close> the callbacks, \<open>co_posted\<close> the
  functions handed to \<^verbatim>\<open>EventLoop::runInLoop\<close> from another thread. Lemmas: what the peer receives is a
  prefix of what was sent, in order.
\<close>

section \<open>State\<close>

datatype conn_state = kConnecting | kConnected | kDisconnecting | kDisconnected

datatype conn_event = EConn | EWriteComplete | EClose

datatype conn_post = PostSend string | PostBuffer Buffer | PostClose

record Conn =
  co_state :: conn_state
  co_input :: Buffer
  co_output :: Buffer
  co_writing :: bool
  co_outQueue :: "Buffer list"
  co_outQueueBytes :: nat
  co_chRead :: bool
  co_chWrite :: bool
  co_wire :: string
  co_events :: "conn_event list"
  co_posted :: "conn_post list"

definition TcpConnection_make :: Conn where
  "TcpConnection_make =
     \<lparr>co_state = kConnecting, co_input = Buffer_make kBufferInit, co_output = Buffer_make kBufferInit, co_writing = False,
      co_outQueue = [], co_outQueueBytes = 0, co_chRead = False, co_chWrite = False, co_wire = [], co_events = [], co_posted = []\<rparr>"

definition kEINTR :: int where "kEINTR = 4"
definition kEAGAIN :: int where "kEAGAIN = 11"

type_synonym wres = "int + nat"

definition conn_event :: "conn_event \<Rightarrow> Conn \<Rightarrow> Conn" where
  "conn_event e c = c\<lparr>co_events := co_events c @ [e]\<rparr>"

definition attachToLoop :: "Conn \<Rightarrow> Conn" where
  "attachToLoop c = conn_event EConn (c\<lparr>co_state := kConnected, co_chRead := True\<rparr>)"

section \<open>Closing\<close>

definition handleClose :: "Conn \<Rightarrow> Conn" where
  "handleClose c =
     (if co_state c = kDisconnected then c
      else conn_event EClose (c\<lparr>co_chRead := False, co_chWrite := False, co_state := kDisconnected\<rparr>))"

text \<open>\<^verbatim>\<open>handleError\<close> reads and reports the error of the socket first.\<close>

definition handleError :: "Conn \<Rightarrow> Conn" where
  "handleError c = handleClose c"

definition closeInLoop :: "Conn \<Rightarrow> Conn" where
  "closeInLoop c =
     (if readableBytes (co_output c) = 0 \<and> co_outQueue c = [] then handleClose c else c\<lparr>co_state := kDisconnecting\<rparr>)"

text \<open>\<open>inLoop\<close>: the caller is the loop thread and the loop runs.\<close>

definition runClose :: "bool \<Rightarrow> Conn \<Rightarrow> Conn" where
  "runClose inLoop c = (if inLoop then closeInLoop c else c\<lparr>co_posted := co_posted c @ [PostClose]\<rparr>)"

definition conn_shutdown :: "bool \<Rightarrow> Conn \<Rightarrow> Conn" where
  "conn_shutdown inLoop c =
     (if co_state c = kConnected then runClose inLoop (c\<lparr>co_state := kDisconnecting\<rparr>) else c)"

definition forceClose :: "bool \<Rightarrow> Conn \<Rightarrow> Conn" where
  "forceClose inLoop c =
     (if co_state c = kDisconnected then c else runClose inLoop (c\<lparr>co_state := kDisconnecting\<rparr>))"

section \<open>Sending\<close>

text \<open>\<^verbatim>\<open>write\<close> in its \<^verbatim>\<open>EINTR\<close> loop.\<close>

fun sys_write :: "wres list \<Rightarrow> (wres \<times> wres list) option" where
  "sys_write [] = None"
| "sys_write (r # rs) = (if r = Inl kEINTR then sys_write rs else Some (r, rs))"

definition startWriting :: "Conn \<Rightarrow> Conn" where
  "startWriting c = (if \<not> co_writing c then c\<lparr>co_writing := True, co_chWrite := True\<rparr> else c)"

definition send_rest :: "Buffer \<Rightarrow> nat \<Rightarrow> Conn \<Rightarrow> Conn" where
  "send_rest buf remaining c =
     (if remaining > 0
      then startWriting (c\<lparr>co_output := bu_append (drop (readableBytes buf - remaining) (content buf)) (co_output c)\<rparr>)
      else conn_event EWriteComplete c)"

definition sendBufferInLoop :: "wres list \<Rightarrow> Buffer \<Rightarrow> Conn \<Rightarrow> (Conn \<times> wres list) option" where
  "sendBufferInLoop rs buf c =
     (if co_state c = kDisconnected then Some (c, rs)
      else if \<not> co_writing c \<and> readableBytes (co_output c) = 0 \<and> co_outQueue c = [] then
        (case sys_write rs of
           None \<Rightarrow> None
         | Some (Inr n, rs1) \<Rightarrow>
             Some (send_rest buf (readableBytes buf - n) (c\<lparr>co_wire := co_wire c @ take n (content buf)\<rparr>), rs1)
         | Some (Inl e, rs1) \<Rightarrow>
             Some (if e \<noteq> kEAGAIN then c else send_rest buf (readableBytes buf) c, rs1))
      else Some (send_rest buf (readableBytes buf) c, rs))"

definition sendInLoop :: "wres list \<Rightarrow> string \<Rightarrow> Conn \<Rightarrow> (Conn \<times> wres list) option" where
  "sendInLoop rs data c = sendBufferInLoop rs (bu_append data (Buffer_make kBufferInit)) c"

definition conn_send :: "bool \<Rightarrow> wres list \<Rightarrow> string \<Rightarrow> Conn \<Rightarrow> (Conn \<times> wres list) option" where
  "conn_send inLoop rs data c =
     (if co_state c \<noteq> kConnected then Some (c, rs)
      else if inLoop then sendInLoop rs data c
      else Some (c\<lparr>co_posted := co_posted c @ [PostSend data]\<rparr>, rs))"

definition conn_sendBuffer :: "bool \<Rightarrow> wres list \<Rightarrow> Buffer \<Rightarrow> Conn \<Rightarrow> (Conn \<times> wres list) option" where
  "conn_sendBuffer inLoop rs buf c =
     (if co_state c \<noteq> kConnected then Some (c, rs)
      else if inLoop then sendBufferInLoop rs buf c
      else Some (c\<lparr>co_posted := co_posted c @ [PostBuffer buf]\<rparr>, rs))"

text \<open>The loop runs the first posted function.\<close>

definition run_posted :: "wres list \<Rightarrow> Conn \<Rightarrow> (Conn \<times> wres list) option" where
  "run_posted rs c =
     (case co_posted c of
        [] \<Rightarrow> Some (c, rs)
      | PostSend data # ps \<Rightarrow> sendInLoop rs data (c\<lparr>co_posted := ps\<rparr>)
      | PostBuffer buf # ps \<Rightarrow> sendBufferInLoop rs buf (c\<lparr>co_posted := ps\<rparr>)
      | PostClose # ps \<Rightarrow> Some (closeInLoop (c\<lparr>co_posted := ps\<rparr>), rs))"

section \<open>Events of the socket\<close>

text \<open>\<open>msg\<close> is the message callback; \<open>s\<close> is the state it works on. A read of no byte is the end of the
  stream.\<close>

fun handleRead :: "(Conn \<times> 's \<Rightarrow> Conn \<times> 's) \<Rightarrow> (int + string) list \<Rightarrow> Conn \<times> 's \<Rightarrow> (Conn \<times> 's) option" where
  "handleRead msg [] cs = None"
| "handleRead msg (r # rs) (c, s) =
     (case readFd r (co_input c) of
        (Inr n, b) \<Rightarrow>
          if n > 0 then handleRead msg rs (msg (c\<lparr>co_input := b\<rparr>, s))
          else Some (handleClose (c\<lparr>co_input := b\<rparr>), s)
      | (Inl e, b) \<Rightarrow>
          if e = kEINTR then handleRead msg rs (c, s)
          else if e = kEAGAIN then Some (c, s)
          else Some (handleError c, s))"

text \<open>The loop of \<^verbatim>\<open>handleWrite\<close>; the flag tells whether the buffer was drained.\<close>

fun write_loop :: "wres list \<Rightarrow> Conn \<Rightarrow> (bool \<times> Conn) option" where
  "write_loop [] c = (if readableBytes (co_output c) = 0 then Some (True, c) else None)"
| "write_loop (Inr n # rs) c =
     (if readableBytes (co_output c) = 0 then Some (True, c)
      else if n > 0 then write_loop rs (c\<lparr>co_wire := co_wire c @ take n (content (co_output c)), co_output := retrieve n (co_output c)\<rparr>)
      else Some (False, c))"
| "write_loop (Inl e # rs) c =
     (if readableBytes (co_output c) = 0 then Some (True, c)
      else if e = kEINTR then write_loop rs c else Some (False, c))"

definition handleWrite :: "wres list \<Rightarrow> Conn \<Rightarrow> Conn option" where
  "handleWrite rs c =
     (if \<not> co_writing c then Some c
      else case write_loop rs c of
        None \<Rightarrow> None
      | Some (False, c1) \<Rightarrow> Some c1
      | Some (True, c1) \<Rightarrow>
          (let c2 = c1\<lparr>co_writing := False, co_chWrite := False\<rparr>;
               c3 = (if co_state c2 = kDisconnecting then closeInLoop c2 else c2)
           in Some (conn_event EWriteComplete c3)))"

section \<open>Frames that are written together\<close>

definition queueFrame :: "Buffer \<Rightarrow> Conn \<Rightarrow> Conn" where
  "queueFrame f c = c\<lparr>co_outQueueBytes := co_outQueueBytes c + readableBytes f, co_outQueue := co_outQueue c @ [f]\<rparr>"

definition kMaxIov :: nat where "kMaxIov = 64"

text \<open>The written bytes are taken off the queue.\<close>

fun consume :: "nat \<Rightarrow> Buffer list \<Rightarrow> Buffer list" where
  "consume written [] = []"
| "consume written (f # fs) =
     (if written = 0 then f # fs
      else if written \<ge> readableBytes f then consume (written - readableBytes f) fs
      else retrieve written f # fs)"

definition flushQueued :: "wres list \<Rightarrow> Conn \<Rightarrow> Conn option" where
  "flushQueued rs c =
     (if co_outQueue c = [] then Some c
      else if co_state c = kDisconnected then Some (c\<lparr>co_outQueue := [], co_outQueueBytes := 0\<rparr>)
      else
        (let total = concat (map content (take kMaxIov (co_outQueue c))) in
         case sys_write rs of
           None \<Rightarrow> None
         | Some (r, rs1) \<Rightarrow>
             if (case r of Inl e \<Rightarrow> e \<noteq> kEAGAIN | Inr n \<Rightarrow> False) then Some (handleClose c)
             else
               (let n = (case r of Inl e \<Rightarrow> 0 | Inr n \<Rightarrow> n);
                    q = consume n (co_outQueue c);
                    c1 = c\<lparr>co_wire := co_wire c @ take n total, co_outQueue := [], co_outQueueBytes := 0\<rparr>
                in if q \<noteq> []
                   then Some (startWriting (c1\<lparr>co_output := fold (\<lambda>f b. bu_append (content f) b) q (co_output c1)\<rparr>))
                   else Some c1)))"

section \<open>What the peer receives\<close>

text \<open>Whether \<^verbatim>\<open>sendBufferInLoop\<close> takes the bytes: not on a closed connection, and not when its own
  \<^verbatim>\<open>write\<close> fails.\<close>

definition idle :: "Conn \<Rightarrow> bool" where
  "idle c \<longleftrightarrow> \<not> co_writing c \<and> readableBytes (co_output c) = 0 \<and> co_outQueue c = []"

definition taken :: "wres list \<Rightarrow> Conn \<Rightarrow> bool" where
  "taken rs c \<longleftrightarrow> co_state c \<noteq> kDisconnected \<and>
     (idle c \<longrightarrow> (case sys_write rs of Some (Inl e, _) \<Rightarrow> e = kEAGAIN | _ \<Rightarrow> True))"

definition posted_data :: "Conn \<Rightarrow> string" where
  "posted_data c = (case co_posted c of PostSend data # _ \<Rightarrow> data | PostBuffer buf # _ \<Rightarrow> content buf | _ \<Rightarrow> [])"

text \<open>The life of a connection whose owner sends with \<^verbatim>\<open>send\<close>, as the HTTP front end does; \<open>S\<close> is what was
  sent so far.\<close>

inductive conn_reach :: "Conn \<Rightarrow> string \<Rightarrow> bool" where
  attach: "conn_reach (attachToLoop TcpConnection_make) []"
| send: "conn_reach c S \<Longrightarrow> co_state c = kConnected \<Longrightarrow> conn_send True rs data c = Some (c', rs') \<Longrightarrow>
    conn_reach c' (S @ (if taken rs c then data else []))"
| post: "conn_reach c S \<Longrightarrow> conn_send False rs data c = Some (c', rs') \<Longrightarrow> conn_reach c' S"
| send_buffer: "conn_reach c S \<Longrightarrow> buffer_wf buf \<Longrightarrow> co_state c = kConnected \<Longrightarrow> conn_sendBuffer True rs buf c = Some (c', rs') \<Longrightarrow>
    conn_reach c' (S @ (if taken rs c then content buf else []))"
| post_buffer: "conn_reach c S \<Longrightarrow> buffer_wf buf \<Longrightarrow> conn_sendBuffer False rs buf c = Some (c', rs') \<Longrightarrow> conn_reach c' S"
| posted: "conn_reach c S \<Longrightarrow> run_posted rs c = Some (c', rs') \<Longrightarrow>
    conn_reach c' (S @ (if taken rs c then posted_data c else []))"
| reads: "conn_reach c S \<Longrightarrow> conn_reach (c\<lparr>co_input := b\<rparr>) S"
| writable: "conn_reach c S \<Longrightarrow> handleWrite rs c = Some c' \<Longrightarrow> conn_reach c' S"
| hangup: "conn_reach c S \<Longrightarrow> conn_reach (handleClose c) S"
| failed: "conn_reach c S \<Longrightarrow> conn_reach (handleError c) S"
| shutdown: "conn_reach c S \<Longrightarrow> conn_reach (conn_shutdown inLoop c) S"
| force: "conn_reach c S \<Longrightarrow> conn_reach (forceClose inLoop c) S"

definition conn_inv :: "Conn \<Rightarrow> string \<Rightarrow> bool" where
  "conn_inv c S \<longleftrightarrow> buffer_wf (co_output c) \<and> co_outQueue c = [] \<and> (content (co_output c) \<noteq> [] \<longrightarrow> co_writing c) \<and>
     co_wire c @ content (co_output c) = S"

definition conn_part :: "Conn \<Rightarrow> Buffer \<times> Buffer list \<times> bool \<times> string" where
  "conn_part c = (co_output c, co_outQueue c, co_writing c, co_wire c)"

lemma conn_inv_part: "conn_part c' = conn_part c \<Longrightarrow> conn_inv c' S = conn_inv c S"
  by (simp add: conn_part_def conn_inv_def)

lemma conn_part_simps [simp]:
  "conn_part (conn_event e c) = conn_part c" "conn_part (handleClose c) = conn_part c" "conn_part (handleError c) = conn_part c" "conn_part (closeInLoop c) = conn_part c"
  "conn_part (runClose b c) = conn_part c" "conn_part (conn_shutdown b c) = conn_part c" "conn_part (forceClose b c) = conn_part c"
  "conn_part (c\<lparr>co_input := i\<rparr>) = conn_part c" "conn_part (c\<lparr>co_state := st\<rparr>) = conn_part c"
  "conn_part (c\<lparr>co_posted := p\<rparr>) = conn_part c" "conn_part (c\<lparr>co_chWrite := w\<rparr>) = conn_part c"
  by (simp_all add: conn_part_def conn_event_def handleClose_def handleError_def closeInLoop_def runClose_def conn_shutdown_def forceClose_def)

lemma co_output_simps [simp]: "co_output (conn_event e c) = co_output c" "co_output (closeInLoop c) = co_output c"
  by (simp_all add: conn_event_def closeInLoop_def handleClose_def)

lemmas conn_inv_simps [simp] = conn_part_simps [THEN conn_inv_part]

lemma readable_content: "buffer_wf b \<Longrightarrow> readableBytes b = 0 \<longleftrightarrow> content b = []"
  by (metis length_0_conv length_content)

lemma content_fresh [simp]: "content (bu_append d (Buffer_make n)) = d" "buffer_wf (bu_append d (Buffer_make n))"
  by (simp_all add: content_append)

lemma send_rest_inv:
  assumes "conn_inv c S" "buffer_wf buf" "k \<le> readableBytes buf"
  shows "conn_inv (send_rest buf (readableBytes buf - k) c) (S @ drop k (content buf))"
proof (cases "readableBytes buf - k > 0")
  case True
  then show ?thesis
    using assms buffer_queue.bytes_put [of "co_output c"] buffer_queue.wf_put [of "co_output c"]
    by (auto simp: send_rest_def startWriting_def conn_inv_def)
next
  case False
  then have "drop k (content buf) = []" using assms by simp
  then show ?thesis using assms(1) False by (simp add: send_rest_def)
qed

lemma sendBuffer_inv:
  assumes inv: "conn_inv c S" and wf: "buffer_wf buf" and run: "sendBufferInLoop rs buf c = Some (c', rs')"
  shows "conn_inv c' (S @ (if taken rs c then content buf else []))"
proof (cases "idle c \<and> co_state c \<noteq> kDisconnected")
  case True
  then obtain r rs1 where w: "sys_write rs = Some (r, rs1)"
    using run by (auto simp: sendBufferInLoop_def idle_def split: option.splits)
  have idle: "\<not> co_writing c" "readableBytes (co_output c) = 0" "co_outQueue c = []" "co_state c \<noteq> kDisconnected"
    using True by (simp_all add: idle_def)
  show ?thesis
  proof (cases r)
    case (Inr n)
    have c': "c' = send_rest buf (readableBytes buf - n) (c\<lparr>co_wire := co_wire c @ take n (content buf)\<rparr>)"
      using run w idle by (simp add: sendBufferInLoop_def Inr)
    have "content (co_output c) = []" using inv idle(2) by (simp add: conn_inv_def readable_content)
    then have i: "conn_inv (c\<lparr>co_wire := co_wire c @ take n (content buf)\<rparr>) (S @ take n (content buf))"
      using inv by (simp add: conn_inv_def)
    have "taken rs c" using w idle by (simp add: taken_def Inr)
    moreover have "conn_inv c' (S @ content buf)"
    proof (cases "n \<le> readableBytes buf")
      case True
      then show ?thesis using send_rest_inv [OF i wf True] by (simp add: c')
    next
      case False
      then have "take n (content buf) = content buf" using wf by simp
      then show ?thesis using i False by (simp add: c' send_rest_def)
    qed
    ultimately show ?thesis by simp
  next
    case (Inl e)
    then show ?thesis
      using run w idle inv send_rest_inv [OF inv wf, of 0] by (auto simp: sendBufferInLoop_def taken_def idle_def)
  qed
next
  case False
  then show ?thesis
    using run inv send_rest_inv [OF inv wf, of 0] by (auto simp: sendBufferInLoop_def taken_def idle_def split: if_splits)
qed

lemma sendInLoop_inv:
  "conn_inv c S \<Longrightarrow> sendInLoop rs data c = Some (c', rs') \<Longrightarrow> conn_inv c' (S @ (if taken rs c then data else []))"
  using sendBuffer_inv [of c S "bu_append data (Buffer_make kBufferInit)" rs c' rs'] by (simp add: sendInLoop_def split: if_splits)

lemma write_loop_inv:
  "conn_inv c S \<Longrightarrow> co_writing c \<Longrightarrow> write_loop rs c = Some (b, c') \<Longrightarrow>
   conn_inv c' S \<and> co_writing c' \<and> co_state c' = co_state c \<and> (b \<longrightarrow> content (co_output c') = [])"
proof (induction rs c rule: write_loop.induct)
  case (2 n rs c)
  let ?c = "c\<lparr>co_wire := co_wire c @ take n (content (co_output c)), co_output := retrieve n (co_output c)\<rparr>"
  have "conn_inv ?c S" using "2.prems" by (auto simp: conn_inv_def content_retrieve)
  then have "conn_inv c' S \<and> co_writing c' \<and> co_state c' = co_state c \<and> (b \<longrightarrow> content (co_output c') = [])"
    if "readableBytes (co_output c) \<noteq> 0" "n > 0"
    using "2.IH" [OF that] "2.prems" that by simp
  then show ?case using "2.prems" by (cases "readableBytes (co_output c) = 0"; cases "n = 0") (auto simp: conn_inv_def readable_content)
next
  case (3 e rs c)
  have "conn_inv c' S \<and> co_writing c' \<and> co_state c' = co_state c \<and> (b \<longrightarrow> content (co_output c') = [])"
    if "readableBytes (co_output c) \<noteq> 0" "e = kEINTR"
    using "3.IH" [OF that] "3.prems" that by simp
  then show ?case using "3.prems" by (cases "readableBytes (co_output c) = 0"; cases "e = kEINTR") (auto simp: conn_inv_def readable_content)
qed (auto simp: conn_inv_def readable_content split: if_splits)

lemma handleWrite_inv:
  assumes "conn_inv c S" "handleWrite rs c = Some c'"
  shows "conn_inv c' S \<and> (co_state c \<noteq> kDisconnected \<and> co_state c' = kDisconnected \<longrightarrow> content (co_output c') = [])"
proof (cases "co_writing c")
  case True
  then obtain b c1 where w: "write_loop rs c = Some (b, c1)" using assms(2) by (auto simp: handleWrite_def split: option.splits)
  note l = write_loop_inv [OF assms(1) True w]
  show ?thesis
  proof (cases b)
    case True
    let ?c2 = "c1\<lparr>co_writing := False, co_chWrite := False\<rparr>"
    have "conn_inv ?c2 S" using l True by (auto simp: conn_inv_def)
    then show ?thesis
      using assms(2) \<open>co_writing c\<close> w True l by (auto simp: handleWrite_def Let_def)
  qed (use assms(2) \<open>co_writing c\<close> w l in \<open>auto simp: handleWrite_def\<close>)
qed (use assms in \<open>auto simp: handleWrite_def\<close>)

text \<open>A buffer that was posted is well-formed until it is sent.\<close>

fun post_ok :: "conn_post \<Rightarrow> bool" where
  "post_ok (PostBuffer b) = buffer_wf b"
| "post_ok _ = True"

definition posted_wf :: "Conn \<Rightarrow> bool" where
  "posted_wf c \<longleftrightarrow> list_all post_ok (co_posted c)"

lemma posted_wf_cong: "co_posted c' = co_posted c \<Longrightarrow> posted_wf c' = posted_wf c"
  by (simp add: posted_wf_def)

lemma co_posted_simps [simp]:
  "co_posted (conn_event e c) = co_posted c" "co_posted (handleClose c) = co_posted c" "co_posted (handleError c) = co_posted c"
  "co_posted (closeInLoop c) = co_posted c" "co_posted (send_rest b n c) = co_posted c" "co_posted (attachToLoop c) = co_posted c"
  by (simp_all add: conn_event_def handleClose_def handleError_def closeInLoop_def send_rest_def startWriting_def attachToLoop_def)

lemma co_posted_sendBuffer: "sendBufferInLoop rs b c = Some (c', rs') \<Longrightarrow> co_posted c' = co_posted c"
  by (auto simp: sendBufferInLoop_def split: if_splits option.splits sum.splits)

lemma co_posted_write_loop: "write_loop rs c = Some (b, c') \<Longrightarrow> co_posted c' = co_posted c"
  by (induction rs c rule: write_loop.induct) (auto split: if_splits)

lemma co_posted_handleWrite: "handleWrite rs c = Some c' \<Longrightarrow> co_posted c' = co_posted c"
  by (auto simp: handleWrite_def Let_def split: if_splits option.splits prod.splits bool.splits dest: co_posted_write_loop)

lemma posted_wf_close: "posted_wf c \<Longrightarrow> posted_wf (conn_shutdown b c)" "posted_wf c \<Longrightarrow> posted_wf (forceClose b c)"
  by (simp_all add: posted_wf_def conn_shutdown_def forceClose_def runClose_def)

lemma conn_reach_posted: "conn_reach c S \<Longrightarrow> posted_wf c"
proof (induction rule: conn_reach.induct)
  case attach
  show ?case by (simp add: posted_wf_def TcpConnection_make_def)
next
  case (posted c S rs c' rs')
  then show ?case
    by (auto simp: run_posted_def sendInLoop_def posted_wf_def split: list.splits conn_post.splits dest: co_posted_sendBuffer)
qed (auto simp: conn_send_def conn_sendBuffer_def sendInLoop_def posted_wf_def split: if_splits
    dest: co_posted_sendBuffer co_posted_handleWrite posted_wf_close [unfolded posted_wf_def])

lemma conn_reach_inv: "conn_reach c S \<Longrightarrow> conn_inv c S"
proof (induction rule: conn_reach.induct)
  case attach
  show ?case by (simp add: attachToLoop_def) (simp add: TcpConnection_make_def conn_inv_def)
next
  case (send c S rs data c' rs')
  then show ?case using sendInLoop_inv by (simp add: conn_send_def)
next
  case (post c S rs data c' rs')
  then show ?case by (auto simp: conn_send_def split: if_splits)
next
  case (send_buffer c S buf rs c' rs')
  then show ?case using sendBuffer_inv by (simp add: conn_sendBuffer_def)
next
  case (post_buffer c S buf rs c' rs')
  then show ?case by (auto simp: conn_sendBuffer_def split: if_splits)
next
  case (posted c S rs c' rs')
  have t: "taken rs (c\<lparr>co_posted := p\<rparr>) = taken rs c" for p by (simp add: taken_def idle_def)
  show ?case
    using posted conn_reach_posted [OF posted(1)] sendInLoop_inv [of "c\<lparr>co_posted := p\<rparr>" S rs _ c' rs' for p]
      sendBuffer_inv [of "c\<lparr>co_posted := p\<rparr>" S _ rs c' rs' for p]
    by (auto simp: run_posted_def posted_data_def posted_wf_def t split: list.splits conn_post.splits)
next
  case (writable c S rs c')
  then show ?case using handleWrite_inv by blast
qed simp_all


lemma idle_sample: "idle (attachToLoop TcpConnection_make)"
  by (simp add: idle_def attachToLoop_def TcpConnection_make_def conn_event_def readableBytes_def Buffer_make_def)

lemma conn_sample:
  obtains c where "conn_reach c ''abc''" "co_wire c = ''a''" "co_state c = kConnected"
proof -
  let ?c = "attachToLoop TcpConnection_make" and ?b = "bu_append ''abc'' (Buffer_make kBufferInit)"
  let ?c1 = "send_rest ?b 2 (?c\<lparr>co_wire := ''a''\<rparr>)"
  have b: "content ?b = ''abc''" "readableBytes ?b = 3"
    using length_content [of ?b] by (simp_all add: content_append)
  have st: "co_state ?c = kConnected" "co_wire ?c = []" by (simp_all add: attachToLoop_def conn_event_def TcpConnection_make_def)
  have "conn_send True [Inr 1] ''abc'' ?c = Some (?c1, [])"
    using idle_sample st b by (simp add: conn_send_def sendInLoop_def sendBufferInLoop_def idle_def)
  moreover have "taken [Inr 1] ?c" using st by (simp add: taken_def)
  ultimately have "conn_reach ?c1 ''abc''" using conn_reach.send [OF conn_reach.attach st(1)] by fastforce
  moreover have "co_wire ?c1 = ''a''" "co_state ?c1 = kConnected" using st by (simp_all add: send_rest_def startWriting_def)
  ultimately show ?thesis by (rule that)
qed



lemma conn_sample_drained:
  obtains c where "conn_reach c ''abc''" "co_state c = kConnected" "co_wire c = ''abc''" "content (co_output c) = []" "co_outQueue c = []"
proof -
  let ?c = "attachToLoop TcpConnection_make" and ?b = "bu_append ''abc'' (Buffer_make kBufferInit)"
  let ?c1 = "send_rest ?b 0 (?c\<lparr>co_wire := ''abc''\<rparr>)"
  have b: "content ?b = ''abc''" "readableBytes ?b = 3"
    using length_content [of ?b] by (simp_all add: content_append)
  have st: "co_state ?c = kConnected" "co_wire ?c = []" by (simp_all add: attachToLoop_def conn_event_def TcpConnection_make_def)
  have "conn_send True [Inr 3] ''abc'' ?c = Some (?c1, [])"
    using idle_sample st b by (simp add: conn_send_def sendInLoop_def sendBufferInLoop_def idle_def)
  moreover have "taken [Inr 3] ?c" using st by (simp add: taken_def)
  ultimately have r: "conn_reach ?c1 ''abc''" using conn_reach.send [OF conn_reach.attach st(1)] by fastforce
  have f: "co_wire ?c1 = ''abc''" "co_state ?c1 = kConnected" using st by (simp_all add: send_rest_def conn_event_def)
  have "conn_inv ?c1 ''abc''" by (rule conn_reach_inv [OF r])
  then show ?thesis using r f that by (auto simp: conn_inv_def)
qed


text \<open>frames that are queued for one common \<^verbatim>\<open>writev\<close> overtake the output buffer: \<^verbatim>\<open>flushQueued\<close> writes them at
  once although earlier bytes still wait in the buffer, so the peer receives them in the wrong order.\<close>

theorem flush_overtakes_output:
  assumes "buffer_wf (co_output c)" "content (co_output c) = old" "co_state c = kConnected" "co_outQueue c = []"
    and "buffer_wf f" "content f \<noteq> []"
  shows "\<exists>c'. flushQueued [Inr (readableBytes f)] (queueFrame f c) = Some c' \<and>
    co_wire c' = co_wire c @ content f \<and> content (co_output c') = old"
proof -
  have "readableBytes f \<noteq> 0" using assms(5,6) by (simp add: readable_content)
  moreover have "take (readableBytes f) (content f) = content f" using assms(5) by simp
  ultimately show ?thesis using assms by (simp add: flushQueued_def queueFrame_def kMaxIov_def)
qed

theorem flush_overtakes_output_witness:
  "\<exists>c c'. conn_reach c ''abc'' \<and> flushQueued [Inr 1] (queueFrame (bu_append ''X'' (Buffer_make kBufferInit)) c) = Some c' \<and>
     co_wire c' = ''aX''"
proof -
  obtain c where c: "conn_reach c ''abc''" "co_wire c = ''a''" "co_state c = kConnected" by (rule conn_sample)
  let ?f = "bu_append ''X'' (Buffer_make kBufferInit)"
  have f: "readableBytes ?f = 1" using length_content [of ?f] by simp
  have i: "conn_inv c ''abc''" by (rule conn_reach_inv [OF c(1)])
  then obtain c' where "flushQueued [Inr (readableBytes ?f)] (queueFrame ?f c) = Some c'" "co_wire c' = co_wire c @ content ?f"
    using flush_overtakes_output [of c "content (co_output c)" ?f] c(3) by (auto simp: conn_inv_def)
  then show ?thesis using c f by (intro exI [of _ c] exI [of _ c']) simp
qed

end
