(* ===== verification/Http_Front.thy ===== *)
theory Http_Front
  imports Stop Connection
begin

text \<open>
  The HTTP front end (\<^verbatim>\<open>src/frontend/HttpMcp.cpp\<close>): from the bytes of a connection to a request of the
  pipeline and from its answer back to bytes. The parser llhttp is the parameter \<open>L\<close>: for a chunk of
  input it lists the callbacks in order, each with the parser's state and error position should
  the callback stop it, and then how the chunk ends. The continuation of a request is its token: \<open>hm_wait\<close>
  maps it to the connection and the identifier that the closure captures, and \<open>deliver\<close> runs it on the
  answers the pipeline has recorded. The function that an answer queues to read the rest of the input is
  kept in \<open>hm_again\<close>, apart from the other queued functions, and runs as an event of its own.
\<close>

section \<open>Text\<close>

definition tolower_c :: "char \<Rightarrow> char" where
  "tolower_c c = (let n = of_char c :: nat in if 65 \<le> n \<and> n \<le> 90 then char_of (n + 32) else c)"

definition lower :: "string \<Rightarrow> string" where
  "lower s = map tolower_c s"

definition header :: "(string, string) umap \<Rightarrow> string \<Rightarrow> string" where
  "header h k = (case um_find h k of None \<Rightarrow> [] | Some v \<Rightarrow> v)"

definition crlf :: string where "crlf = [CHR 0x0D, CHR 0x0A]"

definition int_text :: "int \<Rightarrow> string" where
  "int_text i = (if i < 0 then ''-'' else []) @ nat_digits (nat \<bar>i\<bar>)"

definition httpText :: "int \<Rightarrow> string \<Rightarrow> string \<Rightarrow> string" where
  "httpText status reason body =
     ''HTTP/1.1 '' @ int_text status @ '' '' @ reason @ crlf @
     ''Content-Type: application/json'' @ crlf @
     ''Content-Length: '' @ nat_digits (length body) @ crlf @
     ''MCP-Protocol-Version: '' @ kProtocolVersion @ crlf @
     ''Connection: keep-alive'' @ crlf @ crlf @ body"

definition wrapRpc :: "'j json_api \<Rightarrow> 'j \<Rightarrow> 'j Response \<Rightarrow> 'j" where
  "wrapRpc J i r =
    (let out = j_obj J [(''jsonrpc'', j_str J ''2.0''), (''id'', i)]
     in if r_isError r then j_put J out ''error'' (r_body r) else j_put J out ''result'' (r_body r))"

definition httpStatusFor :: "'j json_api \<Rightarrow> 'j Response \<Rightarrow> exn + int" where
  "httpStatusFor J r =
     (if r_httpStatus r \<noteq> 200 then Inr (r_httpStatus r)
      else if r_klass r = Capability then Inr 400
      else if r_klass r = Protocol \<and> r_isError r then
        (if j_is_object J (r_body r) then
           (case j_value_int J (r_body r) ''code'' 0 of
              None \<Rightarrow> Inl TypeError
            | Some code \<Rightarrow> Inr (if code = -32601 then 404 else 400))
         else Inr 400)
      else Inr 200)"

definition reasonFor :: "int \<Rightarrow> string" where
  "reasonFor st =
     (if st = 200 then ''OK'' else if st = 400 then ''Bad Request'' else if st = 401 then ''Unauthorized''
      else if st = 404 then ''Not Found'' else if st = 406 then ''Not Acceptable''
      else if st = 503 then ''Service Unavailable'' else ''OK'')"

definition originOk :: "YamlConfig \<Rightarrow> string \<Rightarrow> bool" where
  "originOk cfg origin \<longleftrightarrow> origin = [] \<or> list_ex (\<lambda>a. a = ''*'' \<or> a = origin) (cf_originAllowlist cfg)"

definition acceptIncludesJson :: "string \<Rightarrow> bool" where
  "acceptIncludesJson accept \<longleftrightarrow> sv_find ''application/json'' accept \<noteq> None"

definition hasForbiddenSessionHeader :: "(string, string) umap \<Rightarrow> bool" where
  "hasForbiddenSessionHeader h \<longleftrightarrow> um_find h ''mcp-session-id'' \<noteq> None \<or> um_find h ''last-event-id'' \<noteq> None"

section \<open>The parser and the session\<close>

datatype ll_event =
    LUrl string | LMethod string | LField string | LValue string | LValueComplete | LBody string | LMsgComplete

datatype ll_errno = HPE_OK | HPE_PAUSED | HPE_OTHER

record 'p llhttp_api =
  ll_init :: 'p
  ll_reset :: "'p \<Rightarrow> 'p"
  ll_resume :: "'p \<Rightarrow> 'p"
  ll_execute :: "'p \<Rightarrow> string \<Rightarrow> (ll_event \<times> 'p \<times> nat option) list \<times> bool \<times> 'p"  \<comment> \<open>callbacks; whether the chunk is good HTTP\<close>

record 'p Session =
  se_parser :: 'p
  se_url :: string
  se_method :: string
  se_field :: string
  se_value :: string
  se_body :: string
  se_headers :: "(string, string) umap"
  se_complete :: bool
  se_busy :: bool
  se_bodyTooLarge :: bool
  se_maxBody :: nat

definition makeSession :: "'p llhttp_api \<Rightarrow> nat \<Rightarrow> 'p Session" where
  "makeSession L maxBody =
     \<lparr>se_parser = ll_init L, se_url = [], se_method = [], se_field = [], se_value = [], se_body = [], se_headers = [],
      se_complete = False, se_busy = False, se_bodyTooLarge = False, se_maxBody = maxBody\<rparr>"

definition resetSession :: "'p llhttp_api \<Rightarrow> 'p Session \<Rightarrow> 'p Session" where
  "resetSession L s =
     s\<lparr>se_url := [], se_method := [], se_field := [], se_value := [], se_body := [], se_headers := [],
       se_complete := False, se_bodyTooLarge := False, se_parser := ll_reset L (se_parser s)\<rparr>"

definition onHdrValueComplete :: "'p Session \<Rightarrow> 'p Session" where
  "onHdrValueComplete s =
     s\<lparr>se_headers := um_set (lower (se_field s)) (se_value s) (se_headers s), se_field := [], se_value := []\<rparr>"

text \<open>The callbacks; the flag is the error their result stands for.\<close>

definition onBody :: "string \<Rightarrow> 'p Session \<Rightarrow> ll_errno \<times> 'p Session" where
  "onBody d s =
     (if length (se_body s) + length d > se_maxBody s then (HPE_OTHER, s\<lparr>se_bodyTooLarge := True\<rparr>)
      else (HPE_OK, s\<lparr>se_body := se_body s @ d\<rparr>))"

definition onCallback :: "ll_event \<Rightarrow> 'p Session \<Rightarrow> ll_errno \<times> 'p Session" where
  "onCallback e s =
     (case e of
        LUrl d \<Rightarrow> (HPE_OK, s\<lparr>se_url := se_url s @ d\<rparr>)
      | LMethod d \<Rightarrow> (HPE_OK, s\<lparr>se_method := se_method s @ d\<rparr>)
      | LField d \<Rightarrow> (HPE_OK, s\<lparr>se_field := se_field s @ d\<rparr>)
      | LValue d \<Rightarrow> (HPE_OK, s\<lparr>se_value := se_value s @ d\<rparr>)
      | LValueComplete \<Rightarrow> (HPE_OK, onHdrValueComplete s)
      | LBody d \<Rightarrow> onBody d s
      | LMsgComplete \<Rightarrow> (HPE_PAUSED, s\<lparr>se_complete := True\<rparr>))"

text \<open>\<^verbatim>\<open>llhttp_execute\<close> with these callbacks: it stops at the first that returns an error.\<close>

fun run_callbacks ::
  "(ll_event \<times> 'p \<times> nat option) list \<Rightarrow> bool \<times> 'p \<Rightarrow> 'p Session \<Rightarrow> ll_errno \<times> nat option \<times> 'p Session" where
  "run_callbacks [] fin s = ((if fst fin then HPE_OK else HPE_OTHER), None, s\<lparr>se_parser := snd fin\<rparr>)"
| "run_callbacks ((e, p, pos) # es) fin s =
     (case onCallback e s of
        (err, s1) \<Rightarrow> if err = HPE_OK then run_callbacks es fin s1 else (err, pos, s1\<lparr>se_parser := p\<rparr>))"

definition llhttp_execute :: "'p llhttp_api \<Rightarrow> string \<Rightarrow> 'p Session \<Rightarrow> ll_errno \<times> nat option \<times> 'p Session" where
  "llhttp_execute L d s = (case ll_execute L (se_parser s) d of (es, fin) \<Rightarrow> run_callbacks es fin s)"

section \<open>The first half of onMessage: reading\<close>

datatype fed = FIdle | FTooLarge | FBad | FMore | FComplete

definition feed :: "'p llhttp_api \<Rightarrow> 'p Session \<times> Buffer \<Rightarrow> fed \<times> 'p Session \<times> Buffer" where
  "feed L sb =
    (case sb of (s, buf) \<Rightarrow>
      let n = readableBytes buf in
      if se_busy s \<or> n = 0 then (FIdle, s, buf)
      else
        (case llhttp_execute L (peek buf n) s of
           (err, pos, s1) \<Rightarrow>
             if se_bodyTooLarge s1 then (FTooLarge, (resetSession L s1)\<lparr>se_busy := False\<rparr>, retrieveAll buf)
             else if err = HPE_OTHER then (FBad, resetSession L s1, retrieve n buf)
             else
               (let consumed = (case pos of None \<Rightarrow> n | Some k \<Rightarrow> k);
                    (s2, buf2) = (if err = HPE_PAUSED
                                  then (s1\<lparr>se_parser := ll_resume L (se_parser s1)\<rparr>, retrieve consumed buf)
                                  else (s1, retrieve n buf))
                in if \<not> se_complete s2 then (FMore, s2, buf2) else (FComplete, s2\<lparr>se_busy := True\<rparr>, buf2))))"

section \<open>State\<close>

record ('p, 'j) Http =
  hm_world :: "'j World"
  hm_identity :: YamlIdentityStore
  hm_stopping :: bool
  hm_conns :: "(nat, 'p Session \<times> Buffer) umap"
  hm_sent :: "(nat \<times> string) list"
  hm_again :: "nat list"
  hm_wait :: "(nat, nat \<times> 'j) umap"
  hm_next :: nat

definition HttpMcp_make :: "'j World \<Rightarrow> ('p, 'j) Http" where
  "HttpMcp_make w =
     \<lparr>hm_world = w, hm_identity = YamlIdentityStore_make (w_cfg w), hm_stopping = False, hm_conns = [], hm_sent = [], hm_again = [],
      hm_wait = [], hm_next = 0\<rparr>"

definition onConn :: "'p llhttp_api \<Rightarrow> nat \<Rightarrow> ('p, 'j) Http \<Rightarrow> ('p, 'j) Http" where
  "onConn L conn h =
     h\<lparr>hm_conns := um_set conn (makeSession L (unat (cf_httpMaxBodyBytes (w_cfg (hm_world h)))), Buffer_make kBufferInit) (hm_conns h)\<rparr>"

definition sendHttp :: "nat \<Rightarrow> int \<Rightarrow> string \<Rightarrow> string \<Rightarrow> ('p, 'j) Http \<Rightarrow> ('p, 'j) Http" where
  "sendHttp conn status reason body h = h\<lparr>hm_sent := hm_sent h @ [(conn, httpText status reason body)]\<rparr>"

definition upd_session :: "nat \<Rightarrow> ('p Session \<Rightarrow> 'p Session) \<Rightarrow> ('p, 'j) Http \<Rightarrow> ('p, 'j) Http" where
  "upd_session conn f h =
     (case um_find (hm_conns h) conn of None \<Rightarrow> h | Some (s, b) \<Rightarrow> h\<lparr>hm_conns := um_set conn (f s, b) (hm_conns h)\<rparr>)"

definition doneWrite :: "'p llhttp_api \<Rightarrow> nat \<Rightarrow> int \<Rightarrow> string \<Rightarrow> string \<Rightarrow> ('p, 'j) Http \<Rightarrow> ('p, 'j) Http" where
  "doneWrite L conn status reason body h =
    (let h1 = upd_session conn (\<lambda>s. (resetSession L s)\<lparr>se_busy := False\<rparr>) (sendHttp conn status reason body h)
     in h1\<lparr>hm_again := hm_again h1 @ [conn]\<rparr>)"

definition rpcErrorText :: "'j json_api \<Rightarrow> int \<Rightarrow> string \<Rightarrow> 'j \<Rightarrow> 'j \<Rightarrow> string" where
  "rpcErrorText J code msg data i =
     j_dump J (j_obj J [(''jsonrpc'', j_str J ''2.0''), (''id'', i), (''error'', jsonRpcError J code msg data)])"

definition rpcErr :: "'p llhttp_api \<Rightarrow> 'j json_api \<Rightarrow> nat \<Rightarrow> int \<Rightarrow> int \<Rightarrow> string \<Rightarrow> 'j \<Rightarrow> 'j \<Rightarrow> ('p, 'j) Http \<Rightarrow> ('p, 'j) Http" where
  "rpcErr L J conn http code msg data i h =
     doneWrite L conn http (if http = 401 then ''Unauthorized'' else ''Bad Request'') (rpcErrorText J code msg data i) h"

section \<open>Requests\<close>

definition pathOf :: "string \<Rightarrow> string" where
  "pathOf url = takeWhile (\<lambda>c. c \<noteq> CHR ''?'') url"

definition bearerOf :: "(string, string) umap \<Rightarrow> string" where
  "bearerOf hs =
    (let authz = header hs ''authorization''
     in if length authz \<ge> 7 \<and> lower (take 7 authz) = ''bearer '' then drop 7 authz else [])"

text \<open>The trace identifier that a failed authentication is recorded under.\<close>

definition traceIdOf :: "(string, string) umap \<Rightarrow> 'j World \<Rightarrow> string \<times> 'j World" where
  "traceIdOf hs w =
    (let tp = header hs ''traceparent''
     in if length tp \<ge> 55 \<and> tp ! 2 = CHR ''-'' then (sv_substr tp 3 32, w) else env_randomHex 16 w)"

definition authFail :: "(string, string) umap \<Rightarrow> string \<Rightarrow> 'j World \<Rightarrow> 'j World" where
  "authFail hs status w =
    (let (tid, w1) = traceIdOf hs w
     in audit_emit \<lparr>ev_event = ''auth_fail'', ev_tsMs = 0, ev_traceId = tid, ev_principal = [], ev_level = [], ev_tool = [],
          ev_server = [], ev_status = status\<rparr> w1)"

definition upstreamsBody :: "'j json_api \<Rightarrow> 'j World \<Rightarrow> 'j" where
  "upstreamsBody J w =
    (let row = (\<lambda>nm. j_obj J [(''name'', j_str J nm), (''state'', j_str J (healthStateName (health_state (w_health w) nm))),
                 (''latency_ewma_ms'', j_uint J (latencyEwmaMs (w_health w) nm)),
                 (''secret'', j_bool J (case Catalog_find (w_catalog w) nm of None \<Rightarrow> False | Some e \<Rightarrow> bm_secret (ce_meta e)))]);
         n = env_counters w
     in j_obj J
          [(''upstreams'', j_arr J (map row (Catalog_names (w_catalog w)))),
           (''observe'',
            j_obj J [(''inflight_hit'', j_uint J (cn_inflightHit n)), (''inflight_confirm'', j_uint J (cn_inflightConfirm n)),
              (''throttled'', j_uint J (cn_throttled n)), (''circuit_open'', j_uint J (cn_circuitOpen n)),
              (''otlp_dropped'', j_uint J (cn_otlpDropped n)), (''permit_held'', j_int J (cn_permitHeld n)),
              (''inflight_held'', j_int J (cn_inflightHeld n))]),
           (''governor_tools'', governor_statusJson J w)])"

definition serveUpstreams :: "'p llhttp_api \<Rightarrow> 'j json_api \<Rightarrow> nat \<Rightarrow> 'p Session \<Rightarrow> ('p, 'j) Http \<Rightarrow> ('p, 'j) Http" where
  "serveUpstreams L J conn s h =
    (let bearer = bearerOf (se_headers s);
         who = (if bearer = [] then None else authenticate (hm_identity h) bearer)
     in if (case who of None \<Rightarrow> True | Some p \<Rightarrow> \<not> p_admin p) then
          (let h1 = h\<lparr>hm_world := authFail (se_headers s) (if bearer = [] then ''missing'' else ''unknown'') (hm_world h)\<rparr>
           in doneWrite L conn 401 ''Unauthorized'' (rpcErrorText J (-32000) ''unauthorized'' (j_null J) (j_null J)) h1)
        else doneWrite L conn 200 ''OK'' (j_dump J (upstreamsBody J (hm_world h))) h)"

text \<open>The checks of the JSON-RPC envelope, in the order of the code. \<open>Inl\<close>: an exception of the JSON library,
  which nothing catches.\<close>

datatype 'j rpc = RpcBad int int string 'j | RpcOk string string 'j 'j 'j

definition kKnown :: "string list" where
  "kKnown = [''server/discover'', ''tools/list'', ''tools/call'', ''tasks/get'', ''tasks/cancel'']"

definition rpcName :: "'j json_api \<Rightarrow> string \<Rightarrow> 'j \<Rightarrow> exn + string" where
  "rpcName J method params =
    (let get = (\<lambda>k. if j_is_object J params
                    then (case j_value_str J params k [] of None \<Rightarrow> Inl TypeError | Some v \<Rightarrow> Inr v) else Inr [])
     in if method = ''tools/call'' then get ''name''
        else if take 6 method = ''tasks/'' then get ''taskId'' else Inr [])"

definition checkMeta :: "'j json_api \<Rightarrow> (string, string) umap \<Rightarrow> string \<Rightarrow> 'j \<Rightarrow> 'j \<Rightarrow> 'j \<Rightarrow> exn + 'j rpc" where
  "checkMeta J hs method params meta i =
     (case (if j_is_object J meta then j_value_str J meta kMetaProtocol [] else Some []) of
        None \<Rightarrow> Inl TypeError
      | Some bodyVer \<Rightarrow>
          if bodyVer \<noteq> kProtocolVersion then
            Inr (if bodyVer = [] \<or> \<not> j_contains J meta kMetaCaps then RpcBad 400 (-32602) ''missing _meta required fields'' i
                 else RpcBad 400 (-32020) ''HeaderMismatch'' i)
          else if \<not> j_contains J meta kMetaCaps then Inr (RpcBad 400 (-32602) ''missing _meta required fields'' i)
          else if header hs ''mcp-protocol-version'' \<noteq> bodyVer then Inr (RpcBad 400 (-32020) ''HeaderMismatch'' i)
          else if header hs ''mcp-method'' = [] \<or> header hs ''mcp-method'' \<noteq> method then Inr (RpcBad 400 (-32020) ''HeaderMismatch'' i)
          else
            (case rpcName J method params of
               Inl e \<Rightarrow> Inl e
             | Inr nm \<Rightarrow>
                 if (method = ''tools/call'' \<or> method = ''tasks/get'' \<or> method = ''tasks/cancel'') \<and>
                    (header hs ''mcp-name'' = [] \<or> header hs ''mcp-name'' \<noteq> nm)
                 then Inr (RpcBad 400 (-32020) ''HeaderMismatch'' i)
                 else if method \<notin> set kKnown then Inr (RpcBad 404 (-32601) ''Method not found'' i)
                 else Inr (RpcOk method nm params meta i)))"

definition parseRpc :: "'j json_api \<Rightarrow> (string, string) umap \<Rightarrow> string \<Rightarrow> exn + 'j rpc" where
  "parseRpc J hs text =
     (case j_parse J text of
        None \<Rightarrow> Inr (RpcBad 400 (-32700) ''Parse error'' (j_null J))
      | Some body \<Rightarrow>
          if \<not> j_is_object J body then Inr (RpcBad 400 (-32700) ''Parse error'' (j_null J))
          else
            (let has = j_contains J body; i = (if has ''id'' then j_at J body ''id'' else j_null J) in
             if (\<not> has ''method'' \<or> has ''result'' \<or> \<not> has ''id'' \<and> \<not> has ''params'') \<and> \<not> has ''id''
             then Inr (RpcBad 400 (-32600) ''notifications are not accepted'' (j_null J))
             else
               (case j_value_str J body ''method'' [] of
                  None \<Rightarrow> Inl TypeError
                | Some method \<Rightarrow>
                    (let params = (if has ''params'' then j_at J body ''params'' else j_obj J []);
                         meta = (if j_is_object J params \<and> j_contains J params ''_meta'' then j_at J params ''_meta'' else j_obj J [])
                     in checkMeta J hs method params meta i))))"

definition timeoutMsOf :: "'j json_api \<Rightarrow> 'j \<Rightarrow> u64" where
  "timeoutMsOf J meta =
     (if j_contains J meta kMetaTimeoutMs \<and> j_is_number_integer J (j_at J meta kMetaTimeoutMs) \<and>
         j_get_i64 J (j_at J meta kMetaTimeoutMs) > 0
      then of_int (j_get_i64 J (j_at J meta kMetaTimeoutMs)) else 60000)"

definition capsOf :: "'j json_api \<Rightarrow> 'j \<Rightarrow> ClientCaps" where
  "capsOf J meta =
    (let caps = j_at J meta kMetaCaps
     in \<lparr>c_tasks = j_contains J meta kMetaCaps \<and> j_is_object J caps \<and> j_contains J caps ''extensions'' \<and>
           j_is_object J (j_at J caps ''extensions'') \<and> j_contains J (j_at J caps ''extensions'') kTasksExt\<rparr>)"

definition makeRequest ::
  "'j json_api \<Rightarrow> (string, string) umap \<Rightarrow> Principal \<Rightarrow> string \<Rightarrow> string \<Rightarrow> 'j \<Rightarrow> 'j \<Rightarrow> 'j \<Rightarrow> 'j World \<Rightarrow> 'j Request \<times> 'j World" where
  "makeRequest J hs who method nm params meta i w =
    (let (t1, w1) = nowMs w;
         who1 = who\<lparr>p_grantBump := effectiveBump (p_agentId who) t1 (w_grants w1)\<rparr>;
         (t2, w2) = nowMs w1;
         tp = header hs ''traceparent''
     in (\<lparr>rq_method = method, rq_name = nm, rq_upstreamId = j_dump J i, rq_idJson = i, rq_params = params, rq_meta = meta, rq_who = who1,
          rq_trace = (if length tp \<ge> 55 \<and> tp ! 2 = CHR ''-''
                      then TraceContext_default\<lparr>t_traceId := sv_substr tp 3 32, t_spanId := sv_substr tp 36 16\<rparr>
                      else TraceContext_default),
          rq_deadlineMs = t2 + timeoutMsOf J meta, rq_caps = capsOf J meta\<rparr>, w2))"

section \<open>Answers\<close>

definition answerOne :: "'p llhttp_api \<Rightarrow> 'j json_api \<Rightarrow> nat \<Rightarrow> 'j Response \<Rightarrow> ('p, 'j) Http \<Rightarrow> exn + ('p, 'j) Http" where
  "answerOne L J tok r h =
     (case um_find (hm_wait h) tok of
        None \<Rightarrow> Inr h
      | Some (conn, i) \<Rightarrow>
          (case httpStatusFor J r of
             Inl e \<Rightarrow> Inl e
           | Inr st \<Rightarrow> Inr (doneWrite L conn st (reasonFor st) (j_dump J (wrapRpc J i r)) (h\<lparr>hm_wait := um_erase tok (hm_wait h)\<rparr>))))"

fun deliver_list :: "'p llhttp_api \<Rightarrow> 'j json_api \<Rightarrow> (nat \<times> 'j Response) list \<Rightarrow> ('p, 'j) Http \<Rightarrow> exn + ('p, 'j) Http" where
  "deliver_list L J [] h = Inr h"
| "deliver_list L J ((tok, r) # outs) h =
     (case answerOne L J tok r h of Inl e \<Rightarrow> Inl e | Inr h1 \<Rightarrow> deliver_list L J outs h1)"

text \<open>The continuations of the answers that are recorded and have not run yet.\<close>

definition deliver :: "'p llhttp_api \<Rightarrow> 'j json_api \<Rightarrow> ('p, 'j) Http \<Rightarrow> exn + ('p, 'j) Http" where
  "deliver L J h = deliver_list L J (w_outs (hm_world h)) h"

section \<open>The second half of onMessage: routing\<close>

definition authReject :: "'p llhttp_api \<Rightarrow> 'j json_api \<Rightarrow> nat \<Rightarrow> (string, string) umap \<Rightarrow> string \<Rightarrow> 'j \<Rightarrow> ('p, 'j) Http \<Rightarrow> ('p, 'j) Http" where
  "authReject L J conn hs status i h =
     rpcErr L J conn 401 (-32000) ''unauthorized'' (j_null J) i (h\<lparr>hm_world := authFail hs status (hm_world h)\<rparr>)"

definition servePost :: "'p llhttp_api \<Rightarrow> 'j json_api \<Rightarrow> int \<Rightarrow> nat \<Rightarrow> 'p Session \<Rightarrow> ('p, 'j) Http \<Rightarrow> exn + ('p, 'j) Http" where
  "servePost L J mt conn s h =
    (let hs = se_headers s in
     case parseRpc J hs (se_body s) of
       Inl e \<Rightarrow> Inl e
     | Inr (RpcBad http code msg i) \<Rightarrow> Inr (rpcErr L J conn http code msg (j_null J) i h)
     | Inr (RpcOk method nm params meta i) \<Rightarrow>
         if bearerOf hs = [] then Inr (authReject L J conn hs ''missing'' i h)
         else
           (case authenticate (hm_identity h) (bearerOf hs) of
              None \<Rightarrow> Inr (authReject L J conn hs ''unknown'' i h)
            | Some who \<Rightarrow>
                (let (req, w1) = makeRequest J hs who method nm params meta i (hm_world h);
                     tok = hm_next h;
                     h1 = h\<lparr>hm_wait := um_set tok (conn, i) (hm_wait h), hm_next := Suc tok\<rparr>
                 in case handle J mt tok req w1 of
                      Inl e \<Rightarrow> Inl e
                    | Inr w2 \<Rightarrow> deliver L J (h1\<lparr>hm_world := w2\<rparr>))))"

definition onRequest :: "'p llhttp_api \<Rightarrow> 'j json_api \<Rightarrow> int \<Rightarrow> nat \<Rightarrow> 'p Session \<Rightarrow> ('p, 'j) Http \<Rightarrow> exn + ('p, 'j) Http" where
  "onRequest L J mt conn s h =
    (let path = pathOf (se_url s); hs = se_headers s;
         refuse = (\<lambda>st reason code msg. Inr (doneWrite L conn st reason (rpcErrorText J code msg (j_null J) (j_null J)) h))
     in if se_method s = ''GET'' \<and> path = ''/healthz''
        then Inr (doneWrite L conn 200 ''OK'' (''{'' @ [CHR 0x22] @ ''ok'' @ [CHR 0x22] @ '':true}'') h)
        else if \<not> originOk (w_cfg (hm_world h)) (header hs ''origin'') then refuse 403 ''Forbidden'' (-32000) ''origin denied''
        else if se_method s = ''GET'' \<and> path = ''/upstreams'' then Inr (serveUpstreams L J conn s h)
        else if se_method s \<noteq> ''POST'' \<or> path \<noteq> ''/mcp'' then refuse 404 ''Not Found'' (-32601) ''not found''
        else if hasForbiddenSessionHeader hs then refuse 400 ''Bad Request'' (-32600) ''session headers are not accepted''
        else if hm_stopping h then refuse 503 ''Service Unavailable'' (-32000) ''draining''
        else if \<not> acceptIncludesJson (header hs ''accept'')
        then refuse 406 ''Not Acceptable'' (-32600) ''Accept must include application/json''
        else if header hs ''mcp-protocol-version'' \<noteq> kProtocolVersion
        then Inr (rpcErr L J conn 400 (-32022) ''Unsupported protocol version''
                    (j_obj J [(''supported'', j_arr J [j_str J kProtocolVersion])]) (j_null J) h)
        else servePost L J mt conn s h)"

definition onMessage :: "'p llhttp_api \<Rightarrow> 'j json_api \<Rightarrow> int \<Rightarrow> nat \<Rightarrow> ('p, 'j) Http \<Rightarrow> exn + ('p, 'j) Http" where
  "onMessage L J mt conn h =
     (case um_find (hm_conns h) conn of
        None \<Rightarrow> Inr h
      | Some sb \<Rightarrow>
          (case feed L sb of
             (f, s, b) \<Rightarrow>
               (let h1 = h\<lparr>hm_conns := um_set conn (s, b) (hm_conns h)\<rparr> in
                case f of
                  FIdle \<Rightarrow> Inr h1
                | FMore \<Rightarrow> Inr h1
                | FTooLarge \<Rightarrow>
                    Inr (sendHttp conn 413 ''Payload Too Large'' (rpcErrorText J (-32700) ''payload too large'' (j_null J) (j_null J)) h1)
                | FBad \<Rightarrow> Inr (sendHttp conn 400 ''Bad Request'' (rpcErrorText J (-32700) ''parse error'' (j_null J) (j_null J)) h1)
                | FComplete \<Rightarrow> onRequest L J mt conn s h1)))"

section \<open>Events\<close>

text \<open>Bytes arrive; the queued function runs; the gateway does something else and its answers are written.\<close>

definition onData :: "'p llhttp_api \<Rightarrow> 'j json_api \<Rightarrow> int \<Rightarrow> nat \<Rightarrow> string \<Rightarrow> ('p, 'j) Http \<Rightarrow> exn + ('p, 'j) Http" where
  "onData L J mt conn d h =
     (case um_find (hm_conns h) conn of
        None \<Rightarrow> Inr h
      | Some (s, b) \<Rightarrow> onMessage L J mt conn (h\<lparr>hm_conns := um_set conn (s, snd (readFd (Inr d) b)) (hm_conns h)\<rparr>))"

definition onAgain :: "'p llhttp_api \<Rightarrow> 'j json_api \<Rightarrow> int \<Rightarrow> ('p, 'j) Http \<Rightarrow> exn + ('p, 'j) Http" where
  "onAgain L J mt h = (case hm_again h of [] \<Rightarrow> Inr h | conn # cs \<Rightarrow> onMessage L J mt conn (h\<lparr>hm_again := cs\<rparr>))"

definition http_requestStop :: "'p llhttp_api \<Rightarrow> 'j json_api \<Rightarrow> ('p, 'j) Http \<Rightarrow> exn + ('p, 'j) Http" where
  "http_requestStop L J h =
     (case gateway_requestStop J (hm_world h) of
        Inl e \<Rightarrow> Inl e
      | Inr w \<Rightarrow> deliver L J (h\<lparr>hm_world := w, hm_stopping := True\<rparr>))"

definition gw_event :: "'j json_api \<Rightarrow> 'j World \<Rightarrow> 'j World \<Rightarrow> bool" where
  "gw_event J w w' \<longleftrightarrow>
     doPending J w = Inr w' \<or> (\<exists>now. processExpiredTimers J now w = Inr w') \<or> take_job w = Some w' \<or>
     (\<exists>mt r i. end_job J mt r i w = Inr w')"

inductive http_reach :: "'p llhttp_api \<Rightarrow> 'j json_api \<Rightarrow> ('p, 'j) Http \<Rightarrow> bool" for L J where
  start: "gw_init w \<Longrightarrow> http_reach L J (HttpMcp_make w)"
| connect: "http_reach L J h \<Longrightarrow> um_find (hm_conns h) conn = None \<Longrightarrow> http_reach L J (onConn L conn h)"
| data: "http_reach L J h \<Longrightarrow> onData L J mt conn d h = Inr h' \<Longrightarrow> http_reach L J h'"
| again: "http_reach L J h \<Longrightarrow> onAgain L J mt h = Inr h' \<Longrightarrow> http_reach L J h'"
| event: "http_reach L J h \<Longrightarrow> gw_event J (hm_world h) w \<Longrightarrow> deliver L J (h\<lparr>hm_world := w\<rparr>) = Inr h' \<Longrightarrow> http_reach L J h'"
| stop: "http_reach L J h \<Longrightarrow> http_requestStop L J h = Inr h' \<Longrightarrow> http_reach L J h'"

end
