(* ===== verification/Http_Laws.thy ===== *)
theory Http_Laws
  imports Http_Front
begin

text \<open>
  What the front end guarantees over all interleavings of input, answers and shutdown: a connection is
  busy exactly while one of its requests is unanswered, answers go to the connection that asked,
  and input that came too early is not forgotten.
\<close>

section \<open>Reading\<close>

lemma onCallback_keeps:
  assumes "onCallback e s = (err, s')"
  shows "se_busy s' = se_busy s" "err = HPE_PAUSED \<Longrightarrow> se_complete s'"
  using assms by (auto simp: onCallback_def onBody_def onHdrValueComplete_def split: ll_event.splits if_splits)

lemma run_callbacks_keeps:
  "run_callbacks es fin s = (err, pos, s') \<Longrightarrow> se_busy s' = se_busy s \<and> (err = HPE_PAUSED \<longrightarrow> se_complete s')"
proof (induction es arbitrary: s)
  case (Cons x es)
  obtain e p q where x: "x = (e, p, q)" by (cases x)
  obtain err1 s1 where c: "onCallback e s = (err1, s1)" by (cases "onCallback e s")
  show ?case
    using Cons onCallback_keeps [OF c] by (cases "err1 = HPE_OK") (auto simp: x c)
qed (auto split: if_splits)

lemma execute_keeps:
  "llhttp_execute L d s = (err, pos, s') \<Longrightarrow> se_busy s' = se_busy s \<and> (err = HPE_PAUSED \<longrightarrow> se_complete s')"
  by (auto simp: llhttp_execute_def split: prod.splits dest: run_callbacks_keeps)

lemma retrieve_all: "buffer_wf b \<Longrightarrow> readableBytes b \<le> n \<Longrightarrow> buffer_wf (retrieve n b) \<and> content (retrieve n b) = []"
  by (simp add: content_retrieve)

lemma retrieveAll_empty: "buffer_wf b \<Longrightarrow> buffer_wf (retrieveAll b) \<and> content (retrieveAll b) = []"
  using retrieve_all [of b "readableBytes b"] by (simp add: retrieve_def)

text \<open>One call of the parser: what it leaves in the session and in the buffer.\<close>

lemma feed_result:
  assumes "feed L (s, b) = (f, s', b')" "buffer_wf b"
  shows "buffer_wf b'"
    "f = FIdle \<Longrightarrow> s' = s \<and> b' = b \<and> (se_busy s \<or> content b = [])"
    "f \<noteq> FIdle \<Longrightarrow> \<not> se_busy s \<and> (se_busy s' \<longleftrightarrow> f = FComplete) \<and> (f = FComplete \<or> content b' = [])"
proof -
  let ?n = "readableBytes b"
  obtain err pos s1 where ex: "llhttp_execute L (peek b ?n) s = (err, pos, s1)" by (cases "llhttp_execute L (peek b ?n) s")
  note k = execute_keeps [OF ex]
  note f = assms(1) [unfolded feed_def, simplified, unfolded ex Let_def, simplified]
  show "buffer_wf b'"
    using f assms(2) by (auto simp: content_retrieve retrieveAll_empty split: if_splits option.splits)
  show "f = FIdle \<Longrightarrow> s' = s \<and> b' = b \<and> (se_busy s \<or> content b = [])"
    using f assms(2) by (auto simp: readable_content split: if_splits)
  show "f \<noteq> FIdle \<Longrightarrow> \<not> se_busy s \<and> (se_busy s' \<longleftrightarrow> f = FComplete) \<and> (f = FComplete \<or> content b' = [])"
    using f k assms(2) by (auto simp: resetSession_def retrieve_all retrieveAll_empty split: if_splits option.splits)
qed

section \<open>The invariant\<close>

definition waiters :: "('p, 'j) Http \<Rightarrow> nat set" where
  "waiters h = (fst \<circ> snd) ` set (hm_wait h)"

definition wait_ok :: "('p, 'j) Http \<Rightarrow> bool" where
  "wait_ok h \<longleftrightarrow> distinct (map fst (hm_wait h)) \<and> distinct (map (fst \<circ> snd) (hm_wait h)) \<and>
     (\<forall>tok \<in> fst ` set (hm_wait h). tok < hm_next h) \<and> (\<forall>conn \<in> waiters h. um_find (hm_conns h) conn \<noteq> None)"

text \<open>\<open>X\<close>: the connections whose request is being handled right now.\<close>

definition conn_ok :: "nat set \<Rightarrow> ('p, 'j) Http \<Rightarrow> nat \<Rightarrow> 'p Session \<Rightarrow> Buffer \<Rightarrow> bool" where
  "conn_ok X h conn s b \<longleftrightarrow> buffer_wf b \<and> (se_busy s \<longleftrightarrow> conn \<in> waiters h \<union> X) \<and>
     (content b \<noteq> [] \<longrightarrow> se_busy s \<or> conn \<in> set (hm_again h))"

definition conns_ok :: "nat set \<Rightarrow> ('p, 'j) Http \<Rightarrow> bool" where
  "conns_ok X h \<longleftrightarrow> (\<forall>conn s b. um_find (hm_conns h) conn = Some (s, b) \<longrightarrow> conn_ok X h conn s b)"

definition acct_ok :: "('p, 'j) Http \<Rightarrow> bool" where
  "acct_ok h \<longleftrightarrow> winv {#} (hm_world h) \<and> owed (hm_world h) = mset [0..<hm_next h]"

lemma doneWrite_fields [simp]:
  "hm_wait (doneWrite L conn st rs bd h) = hm_wait h" "hm_next (doneWrite L conn st rs bd h) = hm_next h"
  "hm_world (doneWrite L conn st rs bd h) = hm_world h" "waiters (doneWrite L conn st rs bd h) = waiters h"
  "set (hm_again (doneWrite L conn st rs bd h)) = insert conn (set (hm_again h))"
  "hm_identity (doneWrite L conn st rs bd h) = hm_identity h" "hm_stopping (doneWrite L conn st rs bd h) = hm_stopping h"
  by (auto simp: doneWrite_def upd_session_def sendHttp_def waiters_def Let_def split: option.splits)

lemma doneWrite_conns:
  "um_find (hm_conns (doneWrite L conn st rs bd h)) c =
     (if c = conn then map_option (\<lambda>(s, b). ((resetSession L s)\<lparr>se_busy := False\<rparr>, b)) (um_find (hm_conns h) c)
      else um_find (hm_conns h) c)"
  by (auto simp: doneWrite_def upd_session_def sendHttp_def um_find_set Let_def split: option.splits)

lemma doneWrite_ok:
  assumes "wait_ok h" "conns_ok X h" "conn \<notin> waiters h"
  shows "wait_ok (doneWrite L conn st rs bd h)" "conns_ok (X - {conn}) (doneWrite L conn st rs bd h)"
proof -
  show "wait_ok (doneWrite L conn st rs bd h)"
    using assms(1) by (auto simp: wait_ok_def doneWrite_conns)
  show "conns_ok (X - {conn}) (doneWrite L conn st rs bd h)"
    using assms(2,3) by (auto simp: conns_ok_def conn_ok_def doneWrite_conns split: if_splits)
qed

lemma acct_doneWrite [simp]: "acct_ok (doneWrite L conn st rs bd h) = acct_ok h"
  by (simp add: acct_ok_def)

section \<open>Answers\<close>

lemma erase_waiters:
  assumes "wait_ok h" "um_find (hm_wait h) tok = Some (conn, i)"
  defines "h' \<equiv> h\<lparr>hm_wait := um_erase tok (hm_wait h)\<rparr>"
  shows "wait_ok h'" "waiters h = insert conn (waiters h')" "conn \<notin> waiters h'"
proof -
  have mem: "(tok, conn, i) \<in> set (hm_wait h)" using assms(2) by (rule map_of_SomeD)
  have d: "distinct (map fst (hm_wait h))" "distinct (map (fst \<circ> snd) (hm_wait h))" using assms(1) by (simp_all add: wait_ok_def)
  have er: "set (um_erase tok (hm_wait h)) = set (hm_wait h) - {(tok, conn, i)}"
    using d(1) mem by (auto simp: AList.delete_eq set_filter inj_on_def dest: eq_key_imp_eq_value)
  define W where "W = um_erase tok (hm_wait h)"
  have sub: "set W \<subseteq> set (hm_wait h)" using er unfolding W_def by blast
  have "distinct (map fst W)" "distinct (map (fst \<circ> snd) W)"
    unfolding W_def AList.delete_eq by (rule distinct_map_filter [OF d(1)], rule distinct_map_filter [OF d(2)])
  moreover have "waiters h' \<subseteq> waiters h"
    using image_mono [OF sub] by (simp add: waiters_def h'_def flip: W_def)
  moreover have "\<forall>tok \<in> fst ` set W. tok < hm_next h" using assms(1) sub unfolding wait_ok_def by blast
  ultimately show "wait_ok h'" using assms(1) by (simp add: wait_ok_def h'_def subset_iff flip: W_def)
  have "set (hm_wait h) = insert (tok, conn, i) (set W)" using er mem unfolding W_def by blast
  then show "waiters h = insert conn (waiters h')" by (simp add: waiters_def h'_def flip: W_def)
  show "conn \<notin> waiters h'"
  proof
    assume "conn \<in> waiters h'"
    then obtain x where x: "x \<in> set W" "fst (snd x) = conn" by (auto simp: waiters_def h'_def simp flip: W_def)
    then have "x = (tok, conn, i)" using d(2) mem sub unfolding distinct_map inj_on_def by fastforce
    then show False using x(1) er unfolding W_def by blast
  qed
qed

lemma answerOne_ok:
  assumes "wait_ok h" "conns_ok {} h" "answerOne L J tok r h = Inr h'"
  shows "wait_ok h' \<and> conns_ok {} h' \<and> hm_world h' = hm_world h \<and> hm_next h' = hm_next h \<and>
    fst ` set (hm_wait h') = fst ` set (hm_wait h) - {tok} \<and> set (hm_wait h') \<subseteq> set (hm_wait h) \<and>
    hm_identity h' = hm_identity h \<and> hm_stopping h' = hm_stopping h"
proof (cases "um_find (hm_wait h) tok")
  case None
  then have "tok \<notin> fst ` set (hm_wait h)" by (simp add: map_of_eq_None_iff)
  then show ?thesis using assms None by (simp add: answerOne_def)
next
  case (Some ci)
  obtain conn i where ci: "ci = (conn, i)" by (cases ci)
  let ?h = "h\<lparr>hm_wait := um_erase tok (hm_wait h)\<rparr>"
  obtain st where h': "h' = doneWrite L conn st (reasonFor st) (j_dump J (wrapRpc J i r)) ?h"
    using assms(3) Some by (auto simp: answerOne_def ci split: sum.splits)
  note er = erase_waiters [OF assms(1) Some [unfolded ci]]
  have "conns_ok {conn} ?h"
    using assms(2) er(2) by (auto simp: conns_ok_def conn_ok_def)
  then have "wait_ok h'" "conns_ok {} h'" using doneWrite_ok [OF er(1) _ er(3), of "{conn}"] by (simp_all add: h')
  moreover have "fst ` set (um_erase tok (hm_wait h)) = fst ` set (hm_wait h) - {tok}" by (auto simp: AList.delete_eq)
  ultimately show ?thesis by (auto simp: h' AList.delete_eq)
qed

lemma deliver_list_ok:
  assumes "wait_ok h" "conns_ok {} h" "deliver_list L J outs h = Inr h'"
  shows "wait_ok h' \<and> conns_ok {} h' \<and> hm_world h' = hm_world h \<and> hm_next h' = hm_next h \<and>
    fst ` set (hm_wait h') = fst ` set (hm_wait h) - fst ` set outs \<and> hm_identity h' = hm_identity h \<and> hm_stopping h' = hm_stopping h"
  using assms
proof (induction outs arbitrary: h)
  case (Cons x outs)
  obtain tok r where x: "x = (tok, r)" by (cases x)
  obtain h1 where h1: "answerOne L J tok r h = Inr h1" "deliver_list L J outs h1 = Inr h'"
    using Cons.prems(3) by (auto simp: x split: sum.splits)
  note a = answerOne_ok [OF Cons.prems(1,2) h1(1)]
  show ?case using Cons.IH [OF _ _ h1(2)] a by (auto simp: x)
qed simp

lemma deliver_ok:
  assumes "wait_ok h" "conns_ok {} h" "acct_ok h" "deliver L J h = Inr h'"
  shows "wait_ok h' \<and> conns_ok {} h' \<and> acct_ok h' \<and> fst ` set (hm_wait h') \<inter> fst ` set (w_outs (hm_world h')) = {} \<and>
    hm_next h' = hm_next h \<and> hm_world h' = hm_world h"
  using deliver_list_ok [OF assms(1,2), of L J "w_outs (hm_world h)" h'] assms(3,4)
  by (auto simp: deliver_def acct_ok_def)

section \<open>Events keep the invariant\<close>

definition answered_once :: "('p, 'j) Http \<Rightarrow> bool" where
  "answered_once h \<longleftrightarrow> fst ` set (hm_wait h) \<inter> fst ` set (w_outs (hm_world h)) = {}"

definition http_inv :: "nat set \<Rightarrow> ('p, 'j) Http \<Rightarrow> bool" where
  "http_inv X h \<longleftrightarrow> wait_ok h \<and> conns_ok X h \<and> acct_ok h \<and> answered_once h"

lemma http_inv_deliver:
  assumes "wait_ok h" "conns_ok {} h" "acct_ok h" "deliver L J h = Inr h'"
  shows "http_inv {} h'"
  unfolding http_inv_def answered_once_def using deliver_ok [OF assms] by blast

lemma http_inv_doneWrite:
  assumes "http_inv {conn} h" "conn \<notin> waiters h"
  shows "http_inv {} (doneWrite L conn st rs bd h)"
  using assms doneWrite_ok [of h "{conn}" conn L st rs bd] by (simp add: http_inv_def answered_once_def)

lemma world_frames [simp]:
  "waiters (h\<lparr>hm_world := w\<rparr>) = waiters h" "wait_ok (h\<lparr>hm_world := w\<rparr>) = wait_ok h" "conns_ok X (h\<lparr>hm_world := w\<rparr>) = conns_ok X h"
  "waiters (h\<lparr>hm_stopping := b\<rparr>) = waiters h" "wait_ok (h\<lparr>hm_stopping := b\<rparr>) = wait_ok h" "conns_ok X (h\<lparr>hm_stopping := b\<rparr>) = conns_ok X h"
  by (simp_all add: waiters_def wait_ok_def conns_ok_def conn_ok_def)

lemma http_inv_world:
  assumes "http_inv X h" "obs_rel (hm_world h) w"
  shows "http_inv X (h\<lparr>hm_world := w\<rparr>)"
proof -
  note o = obs_rel_world [OF assms(2)]
  have "winv {#} w = winv {#} (hm_world h)" "owed w = owed (hm_world h)"
    using winv_shape [of w "hm_world h"] owed_shape [of w "hm_world h"] o by simp_all
  then show ?thesis
    using assms(1) o(5) by (simp add: http_inv_def acct_ok_def answered_once_def)
qed

lemma obs_rel_authFail: "obs_rel w (authFail hs st w)"
proof -
  have "obs_rel w (snd (traceIdOf hs w))" by (simp add: traceIdOf_def Let_def obs_rel_randomHex)
  then show ?thesis unfolding authFail_def by (auto simp: split_beta Let_def intro: obs_rel_trans obs_rel_audit)
qed

lemma obs_rel_makeRequest: "obs_rel w (snd (makeRequest J hs who m nm ps mt i w))"
  using obs_rel_trans [OF obs_rel_nowMs [of w] obs_rel_nowMs] by (simp add: makeRequest_def Let_def split_beta)

lemma servePost_pipeline:
  assumes inv: "http_inv {conn} h" and c: "conn \<notin> waiters h" "um_find (hm_conns h) conn \<noteq> None"
    and go: "parseRpc J (se_headers s) (se_body s) = Inr (RpcOk m nm ps me i)"
      "authenticate (hm_identity h) (bearerOf (se_headers s)) = Some who" "bearerOf (se_headers s) \<noteq> []"
    and run: "servePost L J mt conn s h = Inr h'"
  shows "http_inv {} h'"
proof -
  let ?tok = "hm_next h"
  define w1 where "w1 = snd (makeRequest J (se_headers s) who m nm ps me i (hm_world h))"
  define req where "req = fst (makeRequest J (se_headers s) who m nm ps me i (hm_world h))"
  let ?h1 = "h\<lparr>hm_wait := um_set ?tok (conn, i) (hm_wait h), hm_next := Suc ?tok\<rparr>"
  obtain w2 where w2: "handle J mt ?tok req w1 = Inr w2" "deliver L J (?h1\<lparr>hm_world := w2\<rparr>) = Inr h'"
    using run go by (auto simp: servePost_def w1_def req_def Let_def split_beta split: sum.splits)
  have inv1: "winv {#} w1" "owed w1 = mset [0..<?tok]"
    using http_inv_world [OF inv obs_rel_makeRequest] by (simp_all add: w1_def http_inv_def acct_ok_def)
  have "acct_ok (?h1\<lparr>hm_world := w2\<rparr>)"
    using handle_result [OF w2(1) inv1(1)] inv1(2) by (simp add: acct_ok_def)
  moreover have fresh: "?tok \<notin> fst ` set (hm_wait h)" using inv by (auto simp: http_inv_def wait_ok_def)
  then have upd: "um_set ?tok (conn, i) (hm_wait h) = hm_wait h @ [(?tok, conn, i)]" by (rule um_set_new)
  have "wait_ok (?h1\<lparr>hm_world := w2\<rparr>)"
    using inv c fresh by (auto simp: http_inv_def wait_ok_def waiters_def upd intro: less_SucI)
  moreover have "conns_ok {} (?h1\<lparr>hm_world := w2\<rparr>)"
    using inv by (auto simp: http_inv_def conns_ok_def conn_ok_def waiters_def upd)
  ultimately show ?thesis using w2(2) by (intro http_inv_deliver)
qed

lemma servePost_inv:
  assumes inv: "http_inv {conn} h" and c: "conn \<notin> waiters h" "um_find (hm_conns h) conn \<noteq> None"
    and run: "servePost L J mt conn s h = Inr h'"
  shows "http_inv {} h'"
proof -
  let ?hs = "se_headers s"
  have auth: "http_inv {} (authReject L J conn ?hs st i h)" for st i
    unfolding authReject_def rpcErr_def
    by (rule http_inv_doneWrite [OF http_inv_world [OF inv obs_rel_authFail]]) (simp add: c)
  have bad: "http_inv {} (rpcErr L J conn a b d e i h)" for a b d e i
    unfolding rpcErr_def by (rule http_inv_doneWrite [OF inv c(1)])
  show ?thesis
  proof (cases "\<exists>m nm ps me i who. parseRpc J ?hs (se_body s) = Inr (RpcOk m nm ps me i) \<and> bearerOf ?hs \<noteq> [] \<and>
      authenticate (hm_identity h) (bearerOf ?hs) = Some who")
    case False
    then show ?thesis
      using run auth bad by (auto simp: servePost_def Let_def split: sum.splits rpc.splits if_splits option.splits)
  next
    case True
    then obtain m nm ps me i who where go: "parseRpc J ?hs (se_body s) = Inr (RpcOk m nm ps me i)"
      "authenticate (hm_identity h) (bearerOf ?hs) = Some who" "bearerOf ?hs \<noteq> []" by blast
    show ?thesis by (rule servePost_pipeline [OF inv c go run])
  qed
qed

lemma onRequest_inv:
  assumes inv: "http_inv {conn} h" and c: "conn \<notin> waiters h" "um_find (hm_conns h) conn \<noteq> None"
    and run: "onRequest L J mt conn s h = Inr h'"
  shows "http_inv {} h'"
proof -
  have dw: "http_inv {} (doneWrite L conn st rs bd h)" for st rs bd by (rule http_inv_doneWrite [OF inv c(1)])
  have ups: "http_inv {} (serveUpstreams L J conn s h)"
    using http_inv_doneWrite [OF http_inv_world [OF inv obs_rel_authFail], unfolded world_frames, OF c(1)] dw
    by (simp add: serveUpstreams_def Let_def)
  show ?thesis
    using run dw ups servePost_inv [OF inv c] unfolding onRequest_def rpcErr_def Let_def by (auto split: if_splits)
qed

lemma sendHttp_inv [simp]: "http_inv X (sendHttp conn st rs bd h) = http_inv X h"
  by (simp add: sendHttp_def http_inv_def wait_ok_def conns_ok_def conn_ok_def acct_ok_def answered_once_def waiters_def)

text \<open>Only the state of one connection changes.\<close>

lemma http_inv_conn:
  assumes "http_inv X h" "um_find (hm_conns h) conn \<noteq> None"
    and "conn_ok Y (h\<lparr>hm_again := ag\<rparr>) conn s b" "X - {conn} = Y - {conn}" "set (hm_again h) - {conn} \<subseteq> set ag"
  shows "http_inv Y (h\<lparr>hm_conns := um_set conn (s, b) (hm_conns h), hm_again := ag\<rparr>)"
proof -
  let ?h = "h\<lparr>hm_conns := um_set conn (s, b) (hm_conns h), hm_again := ag\<rparr>"
  have f: "waiters ?h = waiters h" "waiters (h\<lparr>hm_again := ag\<rparr>) = waiters h" by (simp_all add: waiters_def)
  have "conn_ok Y ?h c s' b'" if "um_find (hm_conns ?h) c = Some (s', b')" for c s' b'
  proof (cases "c = conn")
    case True
    then have "s' = s" "b' = b" using that by (simp_all add: um_find_set)
    then show ?thesis using assms(3) True unfolding conn_ok_def f by auto
  next
    case False
    then have "conn_ok X h c s' b'" using assms(1) that by (simp add: http_inv_def conns_ok_def um_find_set)
    moreover have "c \<in> X \<longleftrightarrow> c \<in> Y" using assms(4) False by blast
    ultimately show ?thesis using assms(5) False f by (auto simp: conn_ok_def)
  qed
  then have "conns_ok Y ?h" by (simp add: conns_ok_def)
  moreover have "wait_ok ?h" using assms(1,2) f(1) by (simp add: http_inv_def wait_ok_def um_find_set)
  ultimately show ?thesis using assms(1) by (simp add: http_inv_def acct_ok_def answered_once_def)
qed

text \<open>\<open>onMessage\<close> on a connection that need not be announced in \<open>hm_again\<close>: the event that calls it is the
  announcement.\<close>

lemma onMessage_inv:
  assumes inv: "http_inv {} (h\<lparr>hm_again := conn # hm_again h\<rparr>)" and run: "onMessage L J mt conn h = Inr h'"
  shows "http_inv {} h'"
proof (cases "um_find (hm_conns h) conn")
  case None
  have "conns_ok {} h"
    unfolding conns_ok_def
  proof (intro allI impI)
    fix c s b assume c: "um_find (hm_conns h) c = Some (s, b)"
    then have "conn_ok {} (h\<lparr>hm_again := conn # hm_again h\<rparr>) c s b" using inv by (simp add: http_inv_def conns_ok_def)
    moreover have "c \<noteq> conn" using c None by auto
    ultimately show "conn_ok {} h c s b" by (auto simp: conn_ok_def waiters_def)
  qed
  then show ?thesis
    using inv None run by (simp add: onMessage_def http_inv_def wait_ok_def acct_ok_def answered_once_def waiters_def)
next
  case (Some sb)
  obtain s b where sb: "sb = (s, b)" by (cases sb)
  obtain f s' b' where fd: "feed L (s, b) = (f, s', b')" by (cases "feed L (s, b)")
  let ?h0 = "h\<lparr>hm_again := conn # hm_again h\<rparr>" and ?h1 = "h\<lparr>hm_conns := um_set conn (s', b') (hm_conns h)\<rparr>"
  have "conn_ok {} ?h0 conn s b" using inv Some sb by (simp add: http_inv_def conns_ok_def)
  then have ok: "buffer_wf b" "se_busy s \<longleftrightarrow> conn \<in> waiters h" by (simp_all add: conn_ok_def waiters_def)
  note r = feed_result [OF fd ok(1)]
  have h1: "http_inv Y ?h1" if "conn_ok Y h conn s' b'" "Y \<subseteq> {conn}" for Y
    using http_inv_conn [OF inv, of conn Y "hm_again h" s' b'] that Some by (auto simp: conn_ok_def waiters_def)
  show ?thesis
  proof (cases "f = FComplete")
    case True
    have "conn_ok {conn} h conn s' b'" using r True by (simp add: conn_ok_def)
    then have "http_inv {conn} ?h1" by (rule h1) simp
    moreover have "conn \<notin> waiters ?h1" using ok(2) r(3) True by (simp add: waiters_def)
    ultimately show ?thesis
      using onRequest_inv [of conn ?h1 L J mt s' h'] run Some sb fd True by (simp add: onMessage_def um_find_set)
  next
    case False
    have "conn_ok {} h conn s' b'"
      using r False ok by (cases "f = FIdle") (auto simp: conn_ok_def waiters_def)
    then have "http_inv {} ?h1" by (rule h1) simp
    then show ?thesis using run Some sb fd False by (cases f) (auto simp: onMessage_def)
  qed
qed

lemma onData_inv:
  assumes inv: "http_inv {} h" and run: "onData L J mt conn d h = Inr h'"
  shows "http_inv {} h'"
proof (cases "um_find (hm_conns h) conn")
  case None
  then show ?thesis using inv run by (simp add: onData_def)
next
  case (Some sb)
  obtain s b where sb: "sb = (s, b)" by (cases sb)
  let ?b = "snd (readFd (Inr d) b)"
  have "conn_ok {} h conn s b" using inv Some sb by (simp add: http_inv_def conns_ok_def)
  then have "conn_ok {} (h\<lparr>hm_again := conn # hm_again h\<rparr>) conn s ?b"
    using content_readFd [of b d] by (simp add: conn_ok_def waiters_def)
  then have "http_inv {} (h\<lparr>hm_conns := um_set conn (s, ?b) (hm_conns h), hm_again := conn # hm_again h\<rparr>)"
    using http_inv_conn [OF inv, of conn "{}" "conn # hm_again h" s ?b] Some by auto
  then show ?thesis
    using run Some sb onMessage_inv [of conn "h\<lparr>hm_conns := um_set conn (s, ?b) (hm_conns h)\<rparr>" L J mt h'] by (simp add: onData_def)
qed

lemma onAgain_inv:
  assumes inv: "http_inv {} h" and run: "onAgain L J mt h = Inr h'"
  shows "http_inv {} h'"
proof (cases "hm_again h")
  case (Cons conn cs)
  have "h\<lparr>hm_again := conn # cs\<rparr> = h" using Cons by (cases h) simp
  then have "http_inv {} (h\<lparr>hm_again := conn # cs\<rparr>)" using inv by simp
  then show ?thesis using run Cons onMessage_inv [of conn "h\<lparr>hm_again := cs\<rparr>" L J mt h'] by (simp add: onAgain_def)
qed (use inv run in \<open>simp add: onAgain_def\<close>)

lemma gw_event_conserves: "gw_event J w w' \<Longrightarrow> conserves w w'"
  unfolding gw_event_def
  using doPending_conserves processExpiredTimers_conserves take_job_conserves end_job_conserves by blast

lemma deliver_world_inv:
  assumes "http_inv {} h" "conserves (hm_world h) w" "deliver L J (h\<lparr>hm_world := w, hm_stopping := b\<rparr>) = Inr h'"
  shows "http_inv {} h'"
proof -
  have "winv {#} w \<and> owed w = owed (hm_world h)"
    using assms(1,2) by (auto simp: http_inv_def acct_ok_def conserves_def)
  then have "acct_ok (h\<lparr>hm_world := w, hm_stopping := b\<rparr>)" using assms(1) by (simp add: http_inv_def acct_ok_def)
  then show ?thesis using assms(1,3) by (intro http_inv_deliver) (simp_all add: http_inv_def)
qed

lemma http_reach_inv: "http_reach L J h \<Longrightarrow> http_inv {} h"
proof (induction rule: http_reach.induct)
  case (start w)
  then show ?case
    by (simp add: HttpMcp_make_def http_inv_def wait_ok_def conns_ok_def acct_ok_def answered_once_def gw_init_def waiters_def)
next
  case (connect h conn)
  have "conn \<notin> waiters h" using connect by (auto simp: http_inv_def wait_ok_def)
  moreover have "conn_ok {} (onConn L conn h) c s b" if "um_find (hm_conns h) c = Some (s, b)" for c s b
    using connect that by (auto simp: http_inv_def conns_ok_def conn_ok_def onConn_def waiters_def)
  ultimately have "conns_ok {} (onConn L conn h)"
    by (auto simp: conns_ok_def onConn_def um_find_set) (auto simp: conn_ok_def makeSession_def waiters_def)
  moreover have "wait_ok (onConn L conn h)"
    using connect by (auto simp: http_inv_def wait_ok_def onConn_def waiters_def um_find_set)
  ultimately show ?case using connect by (simp add: http_inv_def acct_ok_def answered_once_def onConn_def)
next
  case (data h mt conn d h')
  then show ?case using onData_inv by blast
next
  case (again h mt h')
  then show ?case using onAgain_inv by blast
next
  case (event h w h')
  have "h\<lparr>hm_world := w, hm_stopping := hm_stopping h\<rparr> = h\<lparr>hm_world := w\<rparr>" by simp
  then show ?case using deliver_world_inv [OF event.IH gw_event_conserves [OF event.hyps(2)], of L J "hm_stopping h" h'] event.hyps(3) by simp
next
  case (stop h h')
  then obtain w where "gateway_requestStop J (hm_world h) = Inr w" "deliver L J (h\<lparr>hm_world := w, hm_stopping := True\<rparr>) = Inr h'"
    by (auto simp: http_requestStop_def split: sum.splits)
  then show ?case using deliver_world_inv [OF stop.IH requestStop_conserves] by blast
qed

section \<open>Sample connections\<close>

text \<open>A parser that takes any first byte for a whole request for \<^verbatim>\<open>/healthz\<close>.\<close>

definition sample_llhttp :: "unit llhttp_api" where
  "sample_llhttp =
     \<lparr>ll_init = (), ll_reset = id, ll_resume = id,
      ll_execute = (\<lambda>p d. ([(LMethod ''GET'', (), None), (LUrl ''/healthz'', (), None), (LMsgComplete, (), Some 1)], True, ()))\<rparr>"

definition sample_open :: "(unit, jv) Http" where
  "sample_open = onConn sample_llhttp 3 (HttpMcp_make sample_world)"

text \<open>Two bytes came in, the second is still in the buffer.\<close>

definition sample_leftover :: "(unit, jv) Http" where
  "sample_leftover = projr (onData sample_llhttp jv_api 0 3 ''xy'' sample_open)"

lemma sample_open_reach: "http_reach sample_llhttp jv_api sample_open"
  unfolding sample_open_def by (rule http_reach.connect [OF http_reach.start [OF sample_world_init]]) (simp add: HttpMcp_make_def)

lemma sample_feed:
  obtains s b where "feed sample_llhttp (makeSession sample_llhttp n, snd (readFd (Inr ''xy'') (Buffer_make kBufferInit))) = (FComplete, s, b)"
    "content b = ''y''" "se_method s = ''GET''" "se_url s = ''/healthz''"
proof -
  let ?b = "snd (readFd (Inr ''xy'') (Buffer_make kBufferInit))"
  have b: "buffer_wf ?b" "content ?b = ''xy''" using content_readFd [of "Buffer_make kBufferInit" "''xy''"] by simp_all
  have n: "readableBytes ?b = 2" using length_content [OF b(1)] by (simp add: b(2))
  have "content (retrieve 1 ?b) = ''y''" by (simp add: content_retrieve b)
  then show ?thesis
    by (intro that) (auto simp: feed_def n llhttp_execute_def sample_llhttp_def makeSession_def onCallback_def Let_def)
qed

lemma sample_onData:
  obtains s b where "onData sample_llhttp jv_api 0 3 ''xy'' sample_open = Inr sample_leftover"
    "um_find (hm_conns sample_leftover) 3 = Some (s, b)" "content b = ''y''" "\<not> se_busy s"
    "hm_sent sample_leftover = [(3, httpText 200 ''OK'' (''{'' @ [CHR 0x22] @ ''ok'' @ [CHR 0x22] @ '':true}''))]"
proof -
  define n where "n = unat (cf_httpMaxBodyBytes (w_cfg sample_world))"
  obtain s b where f: "feed sample_llhttp (makeSession sample_llhttp n, snd (readFd (Inr ''xy'') (Buffer_make kBufferInit))) = (FComplete, s, b)"
    "content b = ''y''" "se_method s = ''GET''" "se_url s = ''/healthz''" by (rule sample_feed)
  define h1 where "h1 = sample_open\<lparr>hm_conns := [(3, s, b)]\<rparr>"
  have "onData sample_llhttp jv_api 0 3 ''xy'' sample_open = onRequest sample_llhttp jv_api 0 3 s h1"
    by (simp add: onData_def onMessage_def sample_open_def onConn_def HttpMcp_make_def f(1) h1_def flip: n_def)
  then have run: "onData sample_llhttp jv_api 0 3 ''xy'' sample_open =
      Inr (doneWrite sample_llhttp 3 200 ''OK'' (''{'' @ [CHR 0x22] @ ''ok'' @ [CHR 0x22] @ '':true}'') h1)"
    using f(3,4) by (simp add: onRequest_def pathOf_def)
  moreover have "um_find (hm_conns h1) 3 = Some (s, b)" "hm_sent h1 = []" by (simp_all add: h1_def sample_open_def onConn_def HttpMcp_make_def)
  moreover from this have "hm_sent (doneWrite sample_llhttp 3 st rs bd h1) = [(3, httpText st rs bd)]" for st rs bd
    by (simp add: doneWrite_def upd_session_def sendHttp_def Let_def)
  ultimately show ?thesis
    using f(2) by (intro that [of "(resetSession sample_llhttp s)\<lparr>se_busy := False\<rparr>" b]) (simp_all add: sample_leftover_def doneWrite_conns)
qed

lemma sample_leftover_reach: "http_reach sample_llhttp jv_api sample_leftover"
  using sample_onData http_reach.data [OF sample_open_reach] by metis

lemma sample_leftover_conn:
  obtains s b where "um_find (hm_conns sample_leftover) 3 = Some (s, b)" "content b = ''y''" "\<not> se_busy s"
  using sample_onData by metis

section \<open>Properties\<close>

text \<open>C4: a connection has at most one request in the pipeline: in every reachable state of the front end it is
  marked busy exactly if one of its requests has not been answered, never two of them, and
  the answer that is still to come belongs to a request that was issued and not answered.\<close>

theorem http_one_request_per_connection:
  assumes "http_reach L J h" "um_find (hm_conns h) conn = Some (s, b)"
  shows "length (filter (\<lambda>x. fst (snd x) = conn) (hm_wait h)) = (if se_busy s then 1 else 0) \<and>
    (\<forall>tok i. (tok, conn, i) \<in> set (hm_wait h) \<longrightarrow> tok < hm_next h \<and> tok \<notin> fst ` set (w_outs (hm_world h)))"
proof -
  have inv: "http_inv {} h" by (rule http_reach_inv [OF assms(1)])
  have busy: "se_busy s \<longleftrightarrow> conn \<in> (fst \<circ> snd) ` set (hm_wait h)"
    using inv assms(2) by (simp add: http_inv_def conns_ok_def conn_ok_def waiters_def)
  have d: "distinct (map (fst \<circ> snd) (hm_wait h))" using inv by (simp add: http_inv_def wait_ok_def)
  have count: "distinct (map g xs) \<Longrightarrow> length (filter (\<lambda>x. g x = y) xs) = (if y \<in> g ` set xs then 1 else 0)" for g :: "nat \<times> nat \<times> 'b \<Rightarrow> nat" and xs y
    by (induction xs) (auto simp: filter_empty_conv)
  have "tok < hm_next h \<and> tok \<notin> fst ` set (w_outs (hm_world h))" if "(tok, conn, i) \<in> set (hm_wait h)" for tok i
  proof -
    have "tok \<in> fst ` set (hm_wait h)" using that by (rule rev_image_eqI) simp
    then show ?thesis using inv by (auto simp: http_inv_def wait_ok_def answered_once_def)
  qed
  then show ?thesis using count [OF d, of conn] busy by simp
qed

theorem http_one_request_per_connection_witness:
  "length (filter (\<lambda>x. fst (snd x) = 3) (hm_wait sample_leftover)) = 0"
proof -
  obtain s b where "um_find (hm_conns sample_leftover) 3 = Some (s, b)" "\<not> se_busy s" by (rule sample_leftover_conn)
  then show ?thesis using http_one_request_per_connection [OF sample_leftover_reach] by simp
qed

text \<open>C15: input is never forgotten: bytes that wait in the buffer of a connection belong to one that is busy, or
  the function that reads them is queued already.\<close>

theorem http_input_not_forgotten:
  assumes "http_reach L J h" "um_find (hm_conns h) conn = Some (s, b)" "content b \<noteq> []"
  shows "se_busy s \<or> conn \<in> set (hm_again h)"
  using http_reach_inv [OF assms(1)] assms(2,3) by (auto simp: http_inv_def conns_ok_def conn_ok_def)

theorem http_input_not_forgotten_witness: "3 \<in> set (hm_again sample_leftover)"
proof -
  obtain s b where "um_find (hm_conns sample_leftover) 3 = Some (s, b)" "content b = ''y''" "\<not> se_busy s" by (rule sample_leftover_conn)
  then show ?thesis using http_input_not_forgotten [OF sample_leftover_reach] by fastforce
qed

lemma deliver_list_next: "deliver_list L J outs h = Inr h' \<Longrightarrow> hm_next h' = hm_next h"
proof (induction outs arbitrary: h)
  case (Cons x outs)
  obtain tok r where x: "x = (tok, r)" by (cases x)
  obtain h1 where h1: "answerOne L J tok r h = Inr h1" "deliver_list L J outs h1 = Inr h'"
    using Cons.prems by (auto simp: x split: sum.splits)
  have "hm_next h1 = hm_next h" using h1(1) by (auto simp: answerOne_def split: option.splits sum.splits)
  then show ?case using Cons.IH [OF h1(2)] by simp
qed simp

text \<open>C6: only authenticated requests reach the pipeline: whenever a complete HTTP message is turned into a request
  of the pipeline, it was a POST to \<^verbatim>\<open>/mcp\<close> with an allowed origin, no session header, a matching protocol
  version and a bearer token that the identity store knows, and the gateway was not shutting down.\<close>

theorem http_only_authenticated:
  assumes "onRequest L J mt conn s h = Inr h'" "hm_next h' \<noteq> hm_next h"
  shows "se_method s = ''POST'' \<and> pathOf (se_url s) = ''/mcp'' \<and> originOk (w_cfg (hm_world h)) (header (se_headers s) ''origin'') \<and>
    \<not> hasForbiddenSessionHeader (se_headers s) \<and> \<not> hm_stopping h \<and> acceptIncludesJson (header (se_headers s) ''accept'') \<and>
    header (se_headers s) ''mcp-protocol-version'' = kProtocolVersion \<and>
    (\<exists>who. authenticate (hm_identity h) (bearerOf (se_headers s)) = Some who) \<and> bearerOf (se_headers s) \<noteq> []"
proof -
  have ups: "hm_next (serveUpstreams L J conn s h) = hm_next h" by (simp add: serveUpstreams_def Let_def)
  have post: "bearerOf (se_headers s) \<noteq> [] \<and> (\<exists>who. authenticate (hm_identity h) (bearerOf (se_headers s)) = Some who)"
    if "servePost L J mt conn s h = Inr h'"
    using that assms(2)
    by (auto simp: servePost_def rpcErr_def authReject_def Let_def split: sum.splits rpc.splits if_splits option.splits)
  show ?thesis
    using assms ups post unfolding onRequest_def rpcErr_def Let_def by (auto split: if_splits)
qed

text \<open>A request for \<^verbatim>\<open>server/discover\<close> of an agent with the token \<open>k\<close>.\<close>

definition sample_meta :: jv where
  "sample_meta = JObj [(kMetaProtocol, JStr kProtocolVersion), (kMetaCaps, JObj [])]"

definition sample_json :: "jv json_api" where
  "sample_json = jv_api\<lparr>j_parse := (\<lambda>_. Some (JObj [(''id'', JInt 1), (''method'', JStr ''server/discover''), (''params'', JObj [(''_meta'', sample_meta)])]))\<rparr>"

definition sample_headers :: "(string, string) umap" where
  "sample_headers = [(''accept'', ''application/json''), (''authorization'', ''Bearer k''), (''mcp-protocol-version'', kProtocolVersion),
     (''mcp-method'', ''server/discover'')]"

definition sample_session :: "unit Session" where
  "sample_session = (makeSession sample_llhttp 100)\<lparr>se_method := ''POST'', se_url := ''/mcp'', se_headers := sample_headers\<rparr>"

definition sample_http :: "(unit, jv) Http" where
  "sample_http = sample_open\<lparr>hm_identity := \<lparr>is_byToken = [(''k'', \<lparr>ag_id = ''ann'', ag_token = ''k'', ag_level = 0,
     ag_hasLevel = True, ag_admin = False, ag_levelName = ''default''\<rparr>)], is_admin = None\<rparr>\<rparr>"

lemma sample_keys: "kMetaProtocol \<noteq> kMetaCaps"
  by (simp add: kMetaProtocol_def kMetaCaps_def)

lemma sample_parse_rpc:
  "parseRpc sample_json sample_headers t = Inr (RpcOk ''server/discover'' [] (JObj [(''_meta'', sample_meta)]) sample_meta (JInt 1))"
  using sample_keys
  by (simp add: parseRpc_def checkMeta_def rpcName_def sample_json_def sample_meta_def sample_headers_def jv_api_def jv_contains_def jv_at_def
      header_def kKnown_def kProtocolVersion_def Let_def)

lemma sample_bearer: "bearerOf sample_headers = ''k''"
  by code_simp

lemma discover_answered:
  assumes "rq_method req = ''server/discover''"
  shows "\<exists>w' r. handle J mt tok req w = Inr w' \<and> w_outs w' = w_outs w @ [(tok, r)] \<and> r_klass r = Ok \<and> r_httpStatus r = 200"
proof -
  let ?o = "handle_open tok req w" and ?r = "(Response_default J)\<lparr>r_body := discoverBody J\<rparr>"
  have h: "handle J mt tok req w = Inr (finish_call J (snd (fst ?o)) ?r (snd ?o))"
    using assms handle_open_req(1) [of tok req w] by (simp add: handle_def split_beta Let_def)
  obtain r where r: "quiet (fi_token (snd (fst ?o))) (snd ?o) r (finish_call J (snd (fst ?o)) ?r (snd ?o))"
    "r_klass r = r_klass ?r" "r_httpStatus r = r_httpStatus ?r" using finish_quiet by blast
  then show ?thesis
    using h quiet_world(7) [OF r(1)] obs_rel_world(5) [OF obs_rel_handle_open [of w tok req]] handle_open_frames(3) [of tok req w]
    by (auto simp: Response_default_def)
qed

theorem http_only_authenticated_witness:
  "\<exists>h'. onRequest sample_llhttp sample_json 0 3 sample_session sample_http = Inr h' \<and> hm_next h' = 1 \<and>
     (\<exists>who. authenticate (hm_identity sample_http) (bearerOf sample_headers) = Some who)"
proof -
  let ?w = "hm_world sample_http"
  have f: "hm_wait sample_http = []" "hm_next sample_http = 0" "\<not> hm_stopping sample_http" "?w = sample_world"
    by (simp_all add: sample_http_def sample_open_def onConn_def HttpMcp_make_def)
  obtain who where who: "authenticate (hm_identity sample_http) ''k'' = Some who"
    by (simp add: authenticate_def sample_http_def)
  define rq where "rq = makeRequest sample_json sample_headers who ''server/discover'' [] (JObj [(''_meta'', sample_meta)]) sample_meta (JInt 1) ?w"
  have "rq_method (fst rq) = ''server/discover''" by (simp add: rq_def makeRequest_def Let_def split_beta)
  from discover_answered [OF this, of sample_json 0 0 "snd rq"] obtain w2 r where
    h: "handle sample_json 0 0 (fst rq) (snd rq) = Inr w2" "w_outs w2 = w_outs (snd rq) @ [(0, r)]" "r_klass r = Ok" "r_httpStatus r = 200" by blast
  have "w_outs (snd rq) = []" unfolding rq_def obs_rel_world(5) [OF obs_rel_makeRequest] by (simp add: f sample_world_fields)
  then obtain h' where d: "deliver sample_llhttp sample_json (sample_http\<lparr>hm_wait := [(0, 3, JInt 1)], hm_next := Suc 0, hm_world := w2\<rparr>) = Inr h'"
    using h by (simp add: deliver_def answerOne_def httpStatusFor_def)
  have "servePost sample_llhttp sample_json 0 3 sample_session sample_http = Inr h'"
    using d h(1) who by (simp add: servePost_def sample_session_def sample_parse_rpc sample_bearer f(1,2) split_beta flip: rq_def)
  moreover have "onRequest sample_llhttp sample_json 0 3 sample_session sample_http = servePost sample_llhttp sample_json 0 3 sample_session sample_http"
    by (simp add: onRequest_def sample_session_def pathOf_def sample_headers_def header_def originOk_def hasForbiddenSessionHeader_def
        acceptIncludesJson_def f(3))
  ultimately have run: "onRequest sample_llhttp sample_json 0 3 sample_session sample_http = Inr h'" by simp
  have n: "hm_next h' = 1" using deliver_list_next [OF d [unfolded deliver_def]] by simp
  have "se_headers sample_session = sample_headers" by (simp add: sample_session_def)
  then show ?thesis using http_only_authenticated [OF run] n f(2) run by auto
qed

text \<open>shutting down frees every connection: when \<^verbatim>\<open>Gateway::requestStop\<close> has returned and its answers are written,
  no request is waiting and no connection is busy.\<close>

theorem http_stop_frees_connections:
  assumes "http_reach L J h" "live_complete (hm_world h)" "http_requestStop L J h = Inr h'"
  shows "hm_wait h' = [] \<and> (\<forall>conn s b. um_find (hm_conns h') conn = Some (s, b) \<longrightarrow> \<not> se_busy s)"
proof -
  have inv: "http_inv {} h" by (rule http_reach_inv [OF assms(1)])
  obtain w where w: "gateway_requestStop J (hm_world h) = Inr w" "waiting w = {#}" "\<And>b. answered w b"
    using stop_steps [OF _ assms(2), of J] inv by (auto simp: http_inv_def acct_ok_def)
  let ?h1 = "h\<lparr>hm_world := w, hm_stopping := True\<rparr>"
  have c: "winv {#} w \<and> owed w = mset [0..<hm_next h]"
    using requestStop_conserves [OF w(1)] inv by (auto simp: http_inv_def acct_ok_def conserves_def)
  then have "mset (map fst (w_outs w)) = mset [0..<hm_next h]"
    using no_open_tokens [of w] w by (simp add: owed_def winv_def)
  from arg_cong [OF this, of set_mset] have outs: "fst ` set (w_outs w) = {0..<hm_next h}" by simp
  have "deliver L J ?h1 = Inr h'" using assms(3) w(1) by (simp add: http_requestStop_def)
  moreover have "acct_ok ?h1" using c by (simp add: acct_ok_def)
  ultimately have d: "wait_ok h'" "conns_ok {} h'" "fst ` set (hm_wait h') \<inter> fst ` set (w_outs w) = {}" "hm_next h' = hm_next h"
    using deliver_ok [of ?h1 L J h'] inv by (auto simp: http_inv_def)
  have "fst ` set (hm_wait h') \<subseteq> {0..<hm_next h}" using d(1,4) by (auto simp: wait_ok_def)
  then have "fst ` set (hm_wait h') = {}" using d(3) unfolding outs by (simp only: Int_absorb2)
  then have "hm_wait h' = []" by simp
  then show ?thesis using d(2) by (auto simp: conns_ok_def conn_ok_def waiters_def)
qed

lemma deliver_nobody: "hm_wait h = [] \<Longrightarrow> deliver_list L J outs h = Inr h"
  by (induction outs) (auto simp: answerOne_def)

theorem http_stop_frees_connections_witness:
  "\<exists>h'. http_requestStop sample_llhttp jv_api sample_open = Inr h' \<and> hm_wait h' = []"
proof -
  have w: "hm_world sample_open = sample_world" "hm_wait sample_open = []" by (simp_all add: sample_open_def onConn_def HttpMcp_make_def)
  have l: "live_complete (hm_world sample_open)" by (simp add: w live_complete_def sample_world_fields)
  have "winv {#} (hm_world sample_open)" using http_reach_inv [OF sample_open_reach] by (simp add: http_inv_def acct_ok_def)
  from stop_steps [OF this l, of jv_api] obtain w' where "gateway_requestStop jv_api (hm_world sample_open) = Inr w'" by blast
  then obtain h' where "http_requestStop sample_llhttp jv_api sample_open = Inr h'"
    by (simp add: http_requestStop_def deliver_def deliver_nobody w)
  then show ?thesis using http_stop_frees_connections [OF sample_open_reach l] by blast
qed

end
