(* ===== verification/Wire.thy ===== *)
theory Wire
  imports Http_Laws "HOL-Library.Sublist"
begin

text \<open>
  The front end on top of its connections: every \<^verbatim>\<open>sendHttp\<close> of theory \<open>Http_Front\<close> is a \<^verbatim>\<open>TcpConnection::send\<close> of theory \<open>Connection\<close>
  on the loop thread, interleaved with write events, closing and errors of the sockets. Lemmas: what a client reads is a
  sequence of whole answers, in the order in which the front end gave them.
\<close>

section \<open>State\<close>

text \<open>A connection is named as in the front end; its input buffer is kept there.\<close>

record ('p, 'j) Wire =
  wi_http :: "('p, 'j) Http"
  wi_conns :: "(nat, Conn) umap"

text \<open>\<^verbatim>\<open>sendHttp\<close> hands every text to its connection; \<open>rss\<close>: the results of the system calls, one list for every text.\<close>

fun send_texts :: "wres list list \<Rightarrow> (nat \<times> string) list \<Rightarrow> (nat, Conn) umap \<Rightarrow> (nat, Conn) umap option" where
  "send_texts rss [] cs = Some cs"
| "send_texts [] (x # xs) cs = None"
| "send_texts (rs # rss) ((conn, text) # xs) cs =
     (case um_find cs conn of
        None \<Rightarrow> send_texts rss xs cs
      | Some c \<Rightarrow>
          (case conn_send True rs text c of
             None \<Rightarrow> None
           | Some (c', rs') \<Rightarrow> send_texts rss xs (um_set conn c' cs)))"

text \<open>What a step of the front end has sent.\<close>

definition new_texts :: "('p, 'j) Http \<Rightarrow> ('p, 'j) Http \<Rightarrow> (nat \<times> string) list" where
  "new_texts h h' = drop (length (hm_sent h)) (hm_sent h')"

definition answers :: "nat \<Rightarrow> ('p, 'j) Http \<Rightarrow> string list" where
  "answers conn h = map snd (filter (\<lambda>x. fst x = conn) (hm_sent h))"

inductive http_step :: "'p llhttp_api \<Rightarrow> 'j json_api \<Rightarrow> ('p, 'j) Http \<Rightarrow> ('p, 'j) Http \<Rightarrow> bool" for L J where
  data: "onData L J mt conn d h = Inr h' \<Longrightarrow> http_step L J h h'"
| again: "onAgain L J mt h = Inr h' \<Longrightarrow> http_step L J h h'"
| event: "gw_event J (hm_world h) w \<Longrightarrow> deliver L J (h\<lparr>hm_world := w\<rparr>) = Inr h' \<Longrightarrow> http_step L J h h'"
| stop: "http_requestStop L J h = Inr h' \<Longrightarrow> http_step L J h h'"

inductive sock_step :: "Conn \<Rightarrow> Conn \<Rightarrow> bool" where
  writable: "handleWrite rs c = Some c' \<Longrightarrow> sock_step c c'"
| hangup: "sock_step c (handleClose c)"
| failed: "sock_step c (handleError c)"
| shutdown: "sock_step c (conn_shutdown inLoop c)"
| force: "sock_step c (forceClose inLoop c)"
| posted: "run_posted rs c = Some (c', rs') \<Longrightarrow> sock_step c c'"

text \<open>A new connection has a name that was not used before. \<open>clean\<close>: no \<^verbatim>\<open>write\<close> of a new text fails for another reason than a full buffer of the kernel.\<close>

definition soft :: "wres \<Rightarrow> bool" where
  "soft r = (case r of Inl e \<Rightarrow> e = kEINTR \<or> e = kEAGAIN | Inr n \<Rightarrow> True)"

inductive wire_reach :: "'p llhttp_api \<Rightarrow> 'j json_api \<Rightarrow> bool \<Rightarrow> ('p, 'j) Wire \<Rightarrow> bool" for L J clean where
  start: "gw_init w \<Longrightarrow> wire_reach L J clean \<lparr>wi_http = HttpMcp_make w, wi_conns = []\<rparr>"
| connect: "wire_reach L J clean s \<Longrightarrow> um_find (hm_conns (wi_http s)) conn = None \<Longrightarrow> um_find (wi_conns s) conn = None \<Longrightarrow>
    answers conn (wi_http s) = [] \<Longrightarrow>
    wire_reach L J clean \<lparr>wi_http = onConn L conn (wi_http s), wi_conns = um_set conn (attachToLoop TcpConnection_make) (wi_conns s)\<rparr>"
| http: "wire_reach L J clean s \<Longrightarrow> http_step L J (wi_http s) h' \<Longrightarrow> send_texts rss (new_texts (wi_http s) h') (wi_conns s) = Some cs' \<Longrightarrow>
    clean \<longrightarrow> list_all (list_all soft) rss \<Longrightarrow> wire_reach L J clean \<lparr>wi_http = h', wi_conns = cs'\<rparr>"
| sock: "wire_reach L J clean s \<Longrightarrow> um_find (wi_conns s) conn = Some c \<Longrightarrow> sock_step c c' \<Longrightarrow>
    wire_reach L J clean (s\<lparr>wi_conns := um_set conn c' (wi_conns s)\<rparr>)"

section \<open>The front end only appends\<close>

named_theorems sent_grows

lemma sent_doneWrite [sent_grows]: "prefix (hm_sent h) (hm_sent (doneWrite L conn st rs bd h))"
  by (auto simp: doneWrite_def upd_session_def sendHttp_def Let_def split: option.splits)

lemma sent_answerOne [sent_grows]: "answerOne L J tok r h = Inr h' \<Longrightarrow> prefix (hm_sent h) (hm_sent h')"
  using sent_doneWrite [of "h\<lparr>hm_wait := um_erase tok (hm_wait h)\<rparr>"] by (auto simp: answerOne_def split: option.splits sum.splits)

lemma sent_deliver_list: "deliver_list L J outs h = Inr h' \<Longrightarrow> prefix (hm_sent h) (hm_sent h')"
proof (induction outs arbitrary: h)
  case (Cons x outs)
  then show ?case by (cases x) (auto split: sum.splits dest!: sent_answerOne intro: prefix_order.trans)
qed simp

lemma sent_deliver [sent_grows]: "deliver L J h = Inr h' \<Longrightarrow> prefix (hm_sent h) (hm_sent h')"
  unfolding deliver_def by (rule sent_deliver_list)

lemma sent_rpcErr: "prefix (hm_sent h) (hm_sent (rpcErr L J conn st code msg data i h))"
  by (simp add: rpcErr_def sent_doneWrite)

lemma sent_authReject: "prefix (hm_sent h) (hm_sent (authReject L J conn hs st i h))"
  using sent_rpcErr [of "h\<lparr>hm_world := authFail hs st (hm_world h)\<rparr>"] by (simp add: authReject_def)

lemma sent_serveUpstreams: "prefix (hm_sent h) (hm_sent (serveUpstreams L J conn s h))"
proof -
  have "prefix (hm_sent h) (hm_sent (doneWrite L conn st rs bd (h\<lparr>hm_world := w\<rparr>)))" for st rs bd w
    using sent_doneWrite [of "h\<lparr>hm_world := w\<rparr>"] by simp
  then show ?thesis unfolding serveUpstreams_def Let_def by (auto simp: sent_doneWrite)
qed

lemma sent_servePost: "servePost L J mt conn s h = Inr h' \<Longrightarrow> prefix (hm_sent h) (hm_sent h')"
  by (auto simp: servePost_def Let_def sent_rpcErr sent_authReject split: sum.splits rpc.splits option.splits if_splits prod.splits
      dest!: sent_deliver)

lemma sent_onRequest: "onRequest L J mt conn s h = Inr h' \<Longrightarrow> prefix (hm_sent h) (hm_sent h')"
  unfolding onRequest_def Let_def
  by (auto simp: sent_doneWrite sent_serveUpstreams sent_rpcErr split: if_splits dest!: sent_servePost)

lemma sent_onMessage: "onMessage L J mt conn h = Inr h' \<Longrightarrow> prefix (hm_sent h) (hm_sent h')"
  by (auto simp: onMessage_def sendHttp_def Let_def split: option.splits prod.splits fed.splits dest!: sent_onRequest)

lemma sent_http_step: "http_step L J h h' \<Longrightarrow> prefix (hm_sent h) (hm_sent h')"
proof (induction rule: http_step.induct)
  case (data mt conn d h h')
  then show ?case by (auto simp: onData_def split: option.splits dest!: sent_onMessage)
next
  case (again mt h h')
  then show ?case by (auto simp: onAgain_def split: list.splits dest!: sent_onMessage)
next
  case (event h w h')
  then show ?case by (auto dest!: sent_deliver)
next
  case (stop h h')
  then show ?case by (auto simp: http_requestStop_def split: sum.splits dest!: sent_deliver)
qed

lemma sent_split: "http_step L J h h' \<Longrightarrow> hm_sent h' = hm_sent h @ new_texts h h'"
  using sent_http_step [of L J h h'] by (auto simp: new_texts_def prefix_def)

section \<open>Sending\<close>

definition texts_for :: "nat \<Rightarrow> (nat \<times> string) list \<Rightarrow> string list" where
  "texts_for conn xs = map snd (filter (\<lambda>x. fst x = conn) xs)"

text \<open>The life of a connection with the list \<open>ts\<close> of the answers it took; \<open>all\<close>: those it was given while it was connected.\<close>

definition carries :: "bool \<Rightarrow> Conn \<Rightarrow> string list \<Rightarrow> bool" where
  "carries clean c all \<longleftrightarrow> (\<exists>ts. conn_reach c (concat ts) \<and> subseq ts all \<and> set (co_posted c) \<subseteq> {PostClose} \<and>
     (clean \<and> co_state c = kConnected \<longrightarrow> ts = all))"

lemma sys_write_soft: "list_all soft rs \<Longrightarrow> sys_write rs = Some (r, rs') \<Longrightarrow> r \<noteq> Inl kEINTR \<and> soft r"
  by (induction rs) (auto split: if_splits)

lemma taken_soft: "list_all soft rs \<Longrightarrow> co_state c = kConnected \<Longrightarrow> taken rs c"
  by (auto simp: taken_def soft_def split: option.splits sum.splits dest: sys_write_soft)

lemma co_state_sendBuffer: "sendBufferInLoop rs b c = Some (c', rs') \<Longrightarrow> co_state c' = co_state c"
  by (auto simp: sendBufferInLoop_def send_rest_def startWriting_def conn_event_def split: if_splits option.splits sum.splits)

lemma carries_send:
  assumes "carries clean c all" "conn_send True rs text c = Some (c', rs')" "clean \<longrightarrow> list_all soft rs"
  shows "carries clean c' (all @ [text])"
proof (cases "co_state c = kConnected")
  case True
  obtain ts where ts: "conn_reach c (concat ts)" "subseq ts all" "set (co_posted c) \<subseteq> {PostClose}" "clean \<longrightarrow> ts = all"
    using assms(1) True by (auto simp: carries_def)
  let ?ts = "if taken rs c then ts @ [text] else ts"
  have "conn_reach c' (concat ?ts)" using conn_reach.send [OF ts(1) True assms(2)] by (simp split: if_splits)
  moreover have "subseq ?ts (all @ [text])" using ts(2) by (simp add: list_emb_append_mono subseq_rev_drop_many)
  moreover have "co_posted c' = co_posted c" "co_state c' = co_state c"
    using assms(2) True by (auto simp: conn_send_def sendInLoop_def dest: co_posted_sendBuffer co_state_sendBuffer)
  moreover have "clean \<longrightarrow> ?ts = all @ [text]" using ts(4) taken_soft [OF _ True] assms(3) by simp
  ultimately show ?thesis using ts(3) unfolding carries_def by (intro exI [of _ ?ts]) simp
next
  case False
  then have "c' = c" using assms(2) by (simp add: conn_send_def)
  then show ?thesis using assms(1) False unfolding carries_def by (auto intro: subseq_rev_drop_many)
qed

lemma co_state_write_loop: "write_loop rs c = Some (b, c') \<Longrightarrow> co_state c' = co_state c"
  by (induction rs c rule: write_loop.induct) (auto split: if_splits)

lemma sock_step_connected: "sock_step c c' \<Longrightarrow> set (co_posted c) \<subseteq> {PostClose} \<Longrightarrow> co_state c' = kConnected \<Longrightarrow> co_state c = kConnected"
proof (induction rule: sock_step.induct)
  case (writable rs c c')
  then show ?case
    by (auto simp: handleWrite_def conn_event_def closeInLoop_def handleClose_def Let_def
        split: if_splits option.splits prod.splits bool.splits dest: co_state_write_loop)
next
  case (posted rs c c' rs')
  then show ?case by (auto simp: run_posted_def closeInLoop_def handleClose_def conn_event_def split: list.splits conn_post.splits if_splits)
qed (auto simp: handleClose_def handleError_def conn_shutdown_def forceClose_def runClose_def closeInLoop_def conn_event_def split: if_splits)

lemma sock_step_reach:
  assumes "sock_step c c'" "conn_reach c S" "set (co_posted c) \<subseteq> {PostClose}"
  shows "conn_reach c' S \<and> set (co_posted c') \<subseteq> {PostClose}"
  using assms
proof (induction rule: sock_step.induct)
  case (posted rs c c' rs')
  have "posted_data c = []" using posted(3) by (cases "co_posted c") (auto simp: posted_data_def)
  then have "conn_reach c' S" using conn_reach.posted [OF posted(2,1)] by (simp split: if_splits)
  then show ?case using posted(1,3) by (auto simp: run_posted_def split: list.splits conn_post.splits)
next
  case (writable rs c c')
  then show ?case using conn_reach.writable by (auto simp: co_posted_handleWrite)
next
  case (shutdown c inLoop)
  then show ?case using conn_reach.shutdown [OF shutdown(1), of inLoop] by (auto simp: conn_shutdown_def runClose_def)
next
  case (force c inLoop)
  then show ?case using conn_reach.force [OF force(1), of inLoop] by (auto simp: forceClose_def runClose_def)
qed (auto intro: conn_reach.hangup conn_reach.failed)

lemma carries_sock: "sock_step c c' \<Longrightarrow> carries clean c all \<Longrightarrow> carries clean c' all"
  unfolding carries_def using sock_step_reach sock_step_connected by metis

lemma send_texts_dom: "send_texts rss xs cs = Some cs' \<Longrightarrow> um_find cs' conn = None \<longleftrightarrow> um_find cs conn = None"
proof (induction rss xs cs rule: send_texts.induct)
  case (3 rs rss k tx xs cs)
  then show ?case by (fastforce simp: um_find_set split: option.splits prod.splits if_splits)
qed auto

lemma send_texts_carries:
  assumes "send_texts rss xs cs = Some cs'" "clean \<longrightarrow> list_all (list_all soft) rss"
    and "\<And>conn c. um_find cs conn = Some c \<Longrightarrow> carries clean c (f conn)" "um_find cs' conn = Some c"
  shows "carries clean c (f conn @ texts_for conn xs)"
  using assms
proof (induction rss xs cs arbitrary: f rule: send_texts.induct)
  case (3 rs rss k tx xs cs)
  show ?case
  proof (cases "um_find cs k")
    case None
    then have "send_texts rss xs cs = Some cs'" using "3.prems"(1) by simp
    moreover from this have "conn \<noteq> k" using None "3.prems"(4) send_texts_dom [of rss xs cs cs' k] by auto
    ultimately show ?thesis using "3.IH"(1) [OF None _ _ "3.prems"(3) "3.prems"(4)] "3.prems"(2) by (simp add: texts_for_def)
  next
    case (Some d)
    obtain d' rs' where d: "conn_send True rs tx d = Some (d', rs')" "send_texts rss xs (um_set k d' cs) = Some cs'"
      using "3.prems"(1) Some by (auto split: option.splits)
    let ?f = "f(k := f k @ [tx])"
    have "carries clean e (?f j)" if "um_find (um_set k d' cs) j = Some e" for j e
      using that "3.prems"(2,3) Some carries_send [OF _ d(1), of clean "f k"] by (auto simp: um_find_set split: if_splits)
    then have "carries clean c (?f conn @ texts_for conn xs)"
      using "3.IH"(2) [OF Some d(1) refl d(2) _ _ "3.prems"(4), of ?f] "3.prems"(2) by simp
    then show ?thesis by (auto simp: texts_for_def split: if_splits)
  qed
qed (auto simp: texts_for_def)

section \<open>What the client reads\<close>

lemma wire_carries:
  assumes "wire_reach L J clean s" "um_find (wi_conns s) conn = Some c"
  shows "carries clean c (answers conn (wi_http s))"
  using assms
proof (induction arbitrary: conn c rule: wire_reach.induct)
  case (connect s k)
  have new: "answers j (onConn L k (wi_http s)) = answers j (wi_http s)" for j by (simp add: answers_def onConn_def)
  have "carries clean (attachToLoop TcpConnection_make) []"
    unfolding carries_def using conn_reach.attach
    by (intro exI [of _ "[]"]) (simp, simp add: TcpConnection_make_def)
  then show ?case using connect by (auto simp: um_find_set new split: if_splits)
next
  case (http s h' rss cs')
  have "answers conn h' = answers conn (wi_http s) @ texts_for conn (new_texts (wi_http s) h')"
    using sent_split [OF http(2)] by (simp add: answers_def texts_for_def)
  then show ?case using send_texts_carries [where f = "\<lambda>k. answers k (wi_http s)", OF http(3,4) http(5)] http(6) by simp
next
  case (sock s k d d')
  then show ?case using carries_sock [OF sock(3)] by (auto simp: um_find_set split: if_splits)
qed simp



end
