(* ===== verification/Http_Limits.thy ===== *)
theory Http_Limits
  imports Wire
begin

text \<open>
  Properties of the sessions of the front end (\<^verbatim>\<open>src/frontend/HttpMcp.cpp\<close>) in all runs. The locale \<open>session_invariant\<close> carries a property that the
  constructor establishes and that the parser callbacks and the reset keep to every session of every reachable state; it is interpreted
  for the bound on request bodies and for the form of the header names.
\<close>

locale session_invariant =
  fixes P :: "'p Session \<Rightarrow> bool" and L :: "'p llhttp_api"
  assumes make: "P (makeSession L n)"
    and reset: "P s \<Longrightarrow> P (resetSession L s)"
    and parser: "P (s\<lparr>se_parser := p\<rparr>) = P s"
    and busy: "P (s\<lparr>se_busy := b\<rparr>) = P s"
    and callback: "P s \<Longrightarrow> onCallback e s = (err, s') \<Longrightarrow> P s'"
begin

lemma run_callbacks_keep: "P s \<Longrightarrow> run_callbacks es fin s = (err, pos, s') \<Longrightarrow> P s'"
proof (induction es arbitrary: s)
  case (Cons x es)
  obtain e p q where x: "x = (e, p, q)" by (cases x)
  obtain err1 s1 where c: "onCallback e s = (err1, s1)" by (cases "onCallback e s")
  show ?case using Cons callback [OF Cons.prems(1) c] by (cases "err1 = HPE_OK") (auto simp: x c parser)
qed (auto simp: parser)

lemma execute_keep: "P s \<Longrightarrow> llhttp_execute L d s = (err, pos, s') \<Longrightarrow> P s'"
  by (auto simp: llhttp_execute_def split: prod.splits dest: run_callbacks_keep)

lemma feed_keep:
  assumes "P s" "feed L (s, b) = (f, s', b')"
  shows "P s'"
proof -
  obtain err pos s1 where ex: "llhttp_execute L (peek b (readableBytes b)) s = (err, pos, s1)"
    by (cases "llhttp_execute L (peek b (readableBytes b)) s")
  note k = execute_keep [OF assms(1) ex]
  note f = assms(2) [unfolded feed_def, simplified, unfolded ex Let_def, simplified]
  show ?thesis using f assms(1) k reset [OF k] by (auto simp: parser busy split: if_splits option.splits)
qed

definition sessions :: "('p, 'j) Http \<Rightarrow> bool" where
  "sessions h \<longleftrightarrow> (\<forall>conn s b. um_find (hm_conns h) conn = Some (s, b) \<longrightarrow> P s)"

lemma sessionsD: "sessions h \<Longrightarrow> um_find (hm_conns h) conn = Some (s, b) \<Longrightarrow> P s"
  unfolding sessions_def by blast

lemma sessions_frames [simp]:
  "sessions (h\<lparr>hm_world := w\<rparr>) = sessions h" "sessions (h\<lparr>hm_stopping := x\<rparr>) = sessions h" "sessions (h\<lparr>hm_sent := xs\<rparr>) = sessions h"
  "sessions (h\<lparr>hm_again := ns\<rparr>) = sessions h" "sessions (h\<lparr>hm_wait := ws\<rparr>) = sessions h" "sessions (h\<lparr>hm_next := n\<rparr>) = sessions h"
  by (simp_all add: sessions_def)

lemma sessions_doneWrite [simp]: "sessions h \<Longrightarrow> sessions (doneWrite L conn st rs bd h)"
  unfolding sessions_def doneWrite_conns by (auto simp: busy split: if_splits intro!: reset; blast)

lemma sessions_answerOne: "answerOne L J tok r h = Inr h' \<Longrightarrow> sessions h \<Longrightarrow> sessions h'"
  by (auto simp: answerOne_def split: option.splits sum.splits)

lemma sessions_deliver_list: "sessions h \<Longrightarrow> deliver_list L J outs h = Inr h' \<Longrightarrow> sessions h'"
proof (induction outs arbitrary: h)
  case (Cons x outs)
  then show ?case by (cases x) (auto split: sum.splits dest: sessions_answerOne)
qed simp

lemma sessions_deliver: "deliver L J h = Inr h' \<Longrightarrow> sessions h \<Longrightarrow> sessions h'"
  unfolding deliver_def by (rule sessions_deliver_list)

lemma sessions_servePost: "servePost L J mt conn s h = Inr h' \<Longrightarrow> sessions h \<Longrightarrow> sessions h'"
  by (auto simp: servePost_def rpcErr_def authReject_def Let_def split: sum.splits rpc.splits option.splits if_splits prod.splits
      dest!: sessions_deliver)

lemma sessions_onRequest: "onRequest L J mt conn s h = Inr h' \<Longrightarrow> sessions h \<Longrightarrow> sessions h'"
  unfolding onRequest_def Let_def
  by (auto simp: rpcErr_def serveUpstreams_def Let_def split: if_splits dest: sessions_servePost)

lemma sessions_set: "sessions h \<Longrightarrow> P s \<Longrightarrow> sessions (h\<lparr>hm_conns := um_set conn (s, b) (hm_conns h)\<rparr>)"
  by (auto simp: sessions_def um_find_set)

lemma sessions_onMessage:
  assumes run: "onMessage L J mt conn h = Inr h'" and ok: "sessions h"
  shows "sessions h'"
proof (cases "um_find (hm_conns h) conn")
  case (Some sb)
  obtain s b where sb: "sb = (s, b)" by (cases sb)
  obtain f s' b' where fd: "feed L (s, b) = (f, s', b')" by (cases "feed L (s, b)")
  have "P s" using sessionsD [OF ok] Some sb by blast
  then have h1: "sessions (h\<lparr>hm_conns := um_set conn (s', b') (hm_conns h)\<rparr>)" by (intro sessions_set [OF ok] feed_keep [OF _ fd])
  then show ?thesis using run Some sb fd sessions_onRequest [OF _ h1] by (cases f) (auto simp: onMessage_def sendHttp_def)
qed (use assms in \<open>simp add: onMessage_def\<close>)

lemma sessions_reach: "http_reach L J h \<Longrightarrow> sessions h"
proof (induction rule: http_reach.induct)
  case (start w)
  show ?case by (simp add: sessions_def HttpMcp_make_def)
next
  case (connect h conn)
  then show ?case by (auto simp: sessions_def onConn_def um_find_set make)
next
  case (data h mt conn d h')
  then show ?case
    by (auto simp: onData_def split: option.splits dest!: sessions_onMessage intro: sessions_set sessionsD)
next
  case (again h mt h')
  then show ?case by (auto simp: onAgain_def split: list.splits dest!: sessions_onMessage)
next
  case (event h w h')
  then show ?case by (auto dest!: sessions_deliver)
next
  case (stop h h')
  then show ?case by (auto simp: http_requestStop_def split: sum.splits dest!: sessions_deliver)
qed

end

section \<open>Bodies\<close>

definition body_bounded :: "'p Session \<Rightarrow> bool" where
  "body_bounded s \<longleftrightarrow> length (se_body s) \<le> se_maxBody s"

interpretation body: session_invariant body_bounded L for L :: "'p llhttp_api"
  by unfold_locales
    (auto simp: body_bounded_def makeSession_def resetSession_def onCallback_def onBody_def onHdrValueComplete_def split: ll_event.splits if_splits)



section \<open>Header names\<close>

lemma tolower_c_idem: "tolower_c (tolower_c c) = tolower_c c"
  by (simp add: tolower_c_def Let_def of_char_of)

definition headers_lower :: "'p Session \<Rightarrow> bool" where
  "headers_lower s \<longleftrightarrow> (\<forall>k \<in> fst ` set (se_headers s). lower k = k)"

lemma headers_lower_complete: "headers_lower s \<Longrightarrow> headers_lower (onHdrValueComplete s)"
proof -
  assume a: "headers_lower s"
  let ?k = "lower (se_field s)"
  have "fst ` set (um_set ?k (se_value s) (se_headers s)) = insert ?k (fst ` set (se_headers s))" by (simp add: dom_update)
  then show ?thesis using a unfolding headers_lower_def onHdrValueComplete_def by (simp add: lower_def tolower_c_idem)
qed

lemma headers_lower_cong: "se_headers s' = se_headers s \<Longrightarrow> headers_lower s \<Longrightarrow> headers_lower s'"
  by (simp add: headers_lower_def)

interpretation hdrs: session_invariant headers_lower L for L :: "'p llhttp_api"
proof (unfold_locales, goal_cases)
  case (5 s e err s')
  then show ?case
    by (cases e) (auto simp: onCallback_def onBody_def split: if_splits intro: headers_lower_complete headers_lower_cong [of _ s])
qed (auto simp: headers_lower_def makeSession_def resetSession_def)

text \<open>Header names are compared without case: in every session the names are kept in lower case, and a header field \<open>f\<close> with value \<open>v\<close> is found under
  the lower-case form of \<open>f\<close>, whatever the case the client used.\<close>

theorem http_headers_caseless:
  assumes "http_reach L J h" "um_find (hm_conns h) conn = Some (s, b)"
  shows "(\<forall>k. um_find (se_headers s) k \<noteq> None \<longrightarrow> lower k = k) \<and>
    (lower f = lower g \<longrightarrow> header (se_headers (onHdrValueComplete (s\<lparr>se_field := f, se_value := v\<rparr>))) (lower g) = v)"
proof -
  have "headers_lower s" using hdrs.sessionsD [OF hdrs.sessions_reach [OF assms(1)] assms(2)] .
  then have "lower k = k" if "um_find (se_headers s) k \<noteq> None" for k using that by (force simp: headers_lower_def dest: map_of_SomeD)
  then show ?thesis by (simp add: onHdrValueComplete_def header_def um_find_set)
qed

theorem http_headers_caseless_witness:
  "\<exists>s b. um_find (hm_conns sample_leftover) 3 = Some (s, b) \<and>
     header (se_headers (onHdrValueComplete (s\<lparr>se_field := ''Mcp-Name'', se_value := ''t''\<rparr>))) ''mcp-name'' = ''t''"
proof -
  have l: "lower ''mcp-name'' = ''mcp-name''" "lower ''Mcp-Name'' = lower ''mcp-name''" by code_simp+
  obtain s b where s: "um_find (hm_conns sample_leftover) 3 = Some (s, b)" by (rule sample_leftover_conn)
  show ?thesis using http_headers_caseless [OF sample_leftover_reach s, of "''Mcp-Name''" "''mcp-name''" "''t''"] s l by auto
qed

end
