(* ===== verification/Config_Load.thy ===== *)
theory Config_Load
  imports Config
begin

text \<open>
  Loading of the configuration (\<^verbatim>\<open>src/policy/YamlConfig.cpp\<close>). The YAML library (yaml-cpp) is not
  part of the repository: its node operations are the parameter \<open>Y\<close>. Theorem: a configuration that
  \<^verbatim>\<open>YamlConfig::load\<close> returns is valid in the sense the other parts rely on.
\<close>

section \<open>The YAML library as a parameter\<close>

text \<open>\<open>y_load\<close>: \<^verbatim>\<open>YAML::LoadFile\<close>, with the message of the exception; \<open>y_get\<close>:
  \<^verbatim>\<open>node[key]\<close>, where \<open>None\<close> is an undefined node and a scalar throws; \<open>y_elems\<close> and
  \<open>y_items\<close>: the nodes and the pairs an iteration visits; \<open>y_str\<close>, \<open>y_int\<close>, \<open>y_u64\<close> and
  \<open>y_bool\<close>: the conversions \<^verbatim>\<open>as<...>()\<close>, which throw on a node of another form.\<close>

record 'y yaml_api =
  y_load :: "string \<Rightarrow> string + 'y"
  y_is_map :: "'y \<Rightarrow> bool"
  y_is_seq :: "'y \<Rightarrow> bool"
  y_get :: "'y \<Rightarrow> string \<Rightarrow> exn + 'y option"
  y_elems :: "'y \<Rightarrow> 'y list"
  y_items :: "'y \<Rightarrow> ('y \<times> 'y) list"
  y_str :: "'y \<Rightarrow> exn + string"
  y_int :: "'y \<Rightarrow> exn + int"
  y_u64 :: "'y \<Rightarrow> exn + u64"
  y_bool :: "'y \<Rightarrow> exn + bool"

section \<open>Sequencing of steps that may throw\<close>

definition res_bind :: "'e + 'a \<Rightarrow> ('a \<Rightarrow> 'e + 'b) \<Rightarrow> 'e + 'b" where
  "res_bind m f = (case m of Inl e \<Rightarrow> Inl e | Inr x \<Rightarrow> f x)"

fun res_map :: "('a \<Rightarrow> 'e + 'b) \<Rightarrow> 'a list \<Rightarrow> 'e + 'b list" where
  "res_map f [] = Inr []"
| "res_map f (x # xs) = res_bind (f x) (\<lambda>y. res_bind (res_map f xs) (\<lambda>ys. Inr (y # ys)))"

fun res_fold :: "('c \<Rightarrow> 'e + 'c) list \<Rightarrow> 'c \<Rightarrow> 'e + 'c" where
  "res_fold [] c = Inr c"
| "res_fold (f # fs) c = res_bind (f c) (res_fold fs)"

lemma res_bind_simps [simp]: "res_bind (Inl e) f = Inl e" "res_bind (Inr x) f = f x"
  by (simp_all add: res_bind_def)

lemma res_bind_Inr: "res_bind m f = Inr y \<longleftrightarrow> (\<exists>x. m = Inr x \<and> f x = Inr y)"
  by (cases m) simp_all

section \<open>Optional keys\<close>

text \<open>\<^verbatim>\<open>if (n[k]) { ... }\<close>, and the common case \<^verbatim>\<open>if (n[k]) c.field = n[k].as<T>();\<close>.\<close>

definition with_key :: "'y yaml_api \<Rightarrow> 'y \<Rightarrow> string \<Rightarrow> ('y \<Rightarrow> 'c \<Rightarrow> exn + 'c) \<Rightarrow> 'c \<Rightarrow> exn + 'c" where
  "with_key Y n k body c = res_bind (y_get Y n k) (\<lambda>v. case v of None \<Rightarrow> Inr c | Some v \<Rightarrow> body v c)"

definition opt_field :: "'y yaml_api \<Rightarrow> 'y \<Rightarrow> string \<Rightarrow> ('y \<Rightarrow> exn + 'v) \<Rightarrow> ('v \<Rightarrow> 'c \<Rightarrow> 'c) \<Rightarrow> 'c \<Rightarrow> exn + 'c" where
  "opt_field Y n k conv upd = with_key Y n k (\<lambda>v c. res_bind (conv v) (\<lambda>x. Inr (upd x c)))"

text \<open>\<^verbatim>\<open>n[k] ? n[k].as<bool>() : false\<close>\<close>

definition flag :: "'y yaml_api \<Rightarrow> 'y \<Rightarrow> string \<Rightarrow> exn + bool" where
  "flag Y n k = opt_field Y n k (y_bool Y) (\<lambda>b _. b) False"

definition zh_missing :: string where "zh_missing = utf8 [231, 188, 186, 229, 176, 145]"
definition zh_empty :: string where "zh_empty = utf8 [228, 184, 186, 231, 169, 186]"
definition zh_must_not_be_empty :: string where "zh_must_not_be_empty = utf8 [228, 184, 141, 232, 131, 189] @ zh_empty"
definition zh_not_in :: string where "zh_not_in = utf8 [228, 184, 141, 229, 156, 168]"
definition zh_inside :: string where "zh_inside = utf8 [228, 184, 173]"
definition zh_many_levels :: string where "zh_many_levels = utf8 [229, 164, 154, 230, 161, 163, 230, 151, 182]"
definition zh_must_write :: string where "zh_must_write = utf8 [229, 191, 133, 233, 161, 187, 229, 134, 153]"

section \<open>The sections of the file\<close>

definition mustKlass :: "string \<Rightarrow> string \<Rightarrow> exn + FailureClass" where
  "mustKlass nm ctx =
     (case failureClassFromName nm of
        None \<Rightarrow> Inl (RuntimeError (ctx @ '' '' @ utf8 [230, 156, 170, 231, 159, 165] @ '' FailureClass: '' @ nm))
      | Some k \<Rightarrow> Inr k)"

definition load_top :: "'y yaml_api \<Rightarrow> 'y \<Rightarrow> YamlConfig \<Rightarrow> exn + YamlConfig" where
  "load_top Y root = res_fold
    [opt_field Y root ''listen'' (y_str Y) (\<lambda>v c. c\<lparr>cf_listen := v\<rparr>),
     opt_field Y root ''workers'' (y_int Y) (\<lambda>v c. c\<lparr>cf_workers := v\<rparr>),
     opt_field Y root ''worker_queue_max'' (y_u64 Y) (\<lambda>v c. c\<lparr>cf_workerQueueMax := v\<rparr>),
     opt_field Y root ''drain_timeout_ms'' (y_u64 Y) (\<lambda>v c. c\<lparr>cf_drainTimeoutMs := v\<rparr>),
     opt_field Y root ''grants_path'' (y_str Y) (\<lambda>v c. c\<lparr>cf_grantsPath := v\<rparr>),
     opt_field Y root ''grant_refresh_ms'' (y_u64 Y) (\<lambda>v c. c\<lparr>cf_grantRefreshMs := v\<rparr>),
     opt_field Y root ''list_ttl_ms'' (y_u64 Y) (\<lambda>v c. c\<lparr>cf_listTtlMs := v\<rparr>)]"

definition load_origins :: "'y yaml_api \<Rightarrow> 'y \<Rightarrow> YamlConfig \<Rightarrow> exn + YamlConfig" where
  "load_origins Y n c = res_bind (res_map (y_str Y) (y_elems Y n)) (\<lambda>os.
     if os = [] then Inl (RuntimeError (''http.origin_allowlist '' @ zh_must_not_be_empty))
     else Inr (c\<lparr>cf_originAllowlist := os\<rparr>))"

definition load_http :: "'y yaml_api \<Rightarrow> 'y \<Rightarrow> YamlConfig \<Rightarrow> exn + YamlConfig" where
  "load_http Y h = res_fold
    [opt_field Y h ''max_body_bytes'' (y_u64 Y) (\<lambda>v c. c\<lparr>cf_httpMaxBodyBytes := v\<rparr>),
     with_key Y h ''origin_allowlist'' (load_origins Y)]"

definition load_max_level :: "'y yaml_api \<Rightarrow> 'y \<Rightarrow> YamlConfig \<Rightarrow> exn + YamlConfig" where
  "load_max_level Y n c = res_bind (y_str Y n) (\<lambda>nm.
     case Taxonomy_parse (cf_taxonomy c) nm of
       None \<Rightarrow> Inl (RuntimeError (''elevation.max_level '' @ zh_not_in @ '' levels '' @ zh_inside @ '': '' @ nm))
     | Some r \<Rightarrow> Inr (c\<lparr>cf_elevationMaxName := nm, cf_elevationMax := r\<rparr>))"

definition load_elevation :: "'y yaml_api \<Rightarrow> 'y \<Rightarrow> YamlConfig \<Rightarrow> exn + YamlConfig" where
  "load_elevation Y el c = res_fold
    [opt_field Y el ''ttl_ms'' (y_u64 Y) (\<lambda>v c. c\<lparr>cf_elevationTtlMs := v\<rparr>),
     with_key Y el ''max_level'' (load_max_level Y)] (c\<lparr>cf_elevationConfigured := True\<rparr>)"

definition load_access :: "'y yaml_api \<Rightarrow> 'y \<Rightarrow> YamlConfig \<Rightarrow> exn + YamlConfig" where
  "load_access Y root c =
    (let missing = Inl (RuntimeError (zh_missing @ '' access.levels'')) in
     res_bind (y_get Y root ''access'') (\<lambda>a. case a of None \<Rightarrow> missing | Some a \<Rightarrow>
     res_bind (y_get Y a ''levels'') (\<lambda>l. case l of None \<Rightarrow> missing | Some l \<Rightarrow>
     if \<not> y_is_seq Y l then missing
     else res_bind (res_map (y_str Y) (y_elems Y l)) (\<lambda>levels.
          res_bind (Taxonomy_make levels) (\<lambda>t.
          res_bind (Taxonomy_nameOf t (Taxonomy_maxRank t)) (\<lambda>nm.
          with_key Y a ''elevation'' (load_elevation Y)
            (c\<lparr>cf_taxonomy := t, cf_elevationMax := Taxonomy_maxRank t, cf_elevationMaxName := nm\<rparr>)))))))"

text \<open>The level of an agent or of a backend that names it (\<open>what\<close> is the prefix of the message).\<close>

definition named_level :: "'y yaml_api \<Rightarrow> Taxonomy \<Rightarrow> string \<Rightarrow> 'y \<Rightarrow> exn + (rank \<times> string)" where
  "named_level Y t what n = res_bind (y_str Y n) (\<lambda>nm.
     case Taxonomy_parse t nm of
       None \<Rightarrow> Inl (RuntimeError (what @ '' '' @ utf8 [231, 154, 132] @ '' level '' @ zh_not_in @ '' levels '' @ zh_inside @ '': '' @ nm))
     | Some r \<Rightarrow> Inr (r, nm))"

definition only_level :: "Taxonomy \<Rightarrow> string \<Rightarrow> exn + (rank \<times> string)" where
  "only_level t what =
     (if length (tx_levels t) = 1 then res_bind (Taxonomy_nameOf t 0) (\<lambda>nm. Inr (0, nm))
      else Inl (RuntimeError (zh_many_levels @ '' '' @ what @ '' '' @ zh_must_write @ '' level'')))"

definition load_agent :: "'y yaml_api \<Rightarrow> Taxonomy \<Rightarrow> string list \<Rightarrow> 'y \<times> 'y \<Rightarrow> exn + AgentCfg" where
  "load_agent Y t tokens kn =
    res_bind (y_str Y (fst kn)) (\<lambda>i.
    res_bind (y_get Y (snd kn) ''token'') (\<lambda>tk. case tk of
      None \<Rightarrow> Inl (RuntimeError (''agent '' @ i @ '' '' @ zh_missing @ '' token''))
    | Some tk \<Rightarrow>
    res_bind (y_str Y tk) (\<lambda>token.
    if token = [] then Inl (RuntimeError (''agent '' @ i @ '' token '' @ zh_empty))
    else if token \<in> set tokens then
      Inl (RuntimeError (utf8 [233, 135, 141, 229, 164, 141] @ '' token'' @ utf8 [239, 188, 136] @ ''agent='' @ i @ utf8 [239, 188, 137]))
    else res_bind (flag Y (snd kn) ''admin'') (\<lambda>admin.
    res_bind (y_get Y (snd kn) ''level'') (\<lambda>lv.
    let a = \<lparr>ag_id = i, ag_token = token, ag_level = 0, ag_hasLevel = False, ag_admin = admin, ag_levelName = []\<rparr> in
    if admin \<and> lv = None then Inr a
    else res_bind (case lv of None \<Rightarrow> only_level t (''agent '' @ i) | Some n \<Rightarrow> named_level Y t (''agent '' @ i) n) (\<lambda>(r, nm).
         Inr (a\<lparr>ag_level := r, ag_hasLevel := True, ag_levelName := nm\<rparr>)))))))"

fun load_agents :: "'y yaml_api \<Rightarrow> Taxonomy \<Rightarrow> ('y \<times> 'y) list \<Rightarrow> AgentCfg list \<Rightarrow> exn + AgentCfg list" where
  "load_agents Y t [] as = Inr as"
| "load_agents Y t (kn # kns) as =
     res_bind (load_agent Y t (map ag_token as) kn) (\<lambda>a. load_agents Y t kns (as @ [a]))"

definition load_agent_section :: "'y yaml_api \<Rightarrow> 'y \<Rightarrow> YamlConfig \<Rightarrow> exn + YamlConfig" where
  "load_agent_section Y root c =
    (let missing = Inl (RuntimeError (zh_missing @ '' agents'')) in
     res_bind (y_get Y root ''agents'') (\<lambda>n. case n of None \<Rightarrow> missing | Some n \<Rightarrow>
     if \<not> y_is_map Y n then missing
     else res_bind (load_agents Y (cf_taxonomy c) (y_items Y n) []) (\<lambda>as.
          if as = [] then Inl (RuntimeError (''agents '' @ zh_must_not_be_empty))
          else Inr (c\<lparr>cf_agents := as\<rparr>))))"

definition load_backend :: "'y yaml_api \<Rightarrow> Taxonomy \<Rightarrow> string list \<Rightarrow> 'y \<Rightarrow> exn + BackendCfg" where
  "load_backend Y t bnames node =
    res_bind (y_get Y node ''name'') (\<lambda>n. case n of
      None \<Rightarrow> Inl (RuntimeError (''backend '' @ zh_missing @ '' name''))
    | Some n \<Rightarrow>
    res_bind (y_str Y n) (\<lambda>nm.
    if nm = [] then Inl (RuntimeError (''backend name '' @ zh_empty))
    else if sv_find ''__'' nm \<noteq> None then
      Inl (RuntimeError (''backend '' @ utf8 [229, 144, 141, 231, 166, 129, 230, 173, 162, 229, 144, 171] @ '' __: '' @ nm))
    else if nm \<in> set bnames then
      Inl (RuntimeError (''backend '' @ utf8 [229, 144, 141, 233, 135, 141, 229, 164, 141] @ '': '' @ nm))
    else res_bind (y_get Y node ''url'') (\<lambda>u. case u of
      None \<Rightarrow> Inl (RuntimeError (''backend '' @ nm @ '' '' @ zh_missing @ '' url''))
    | Some u \<Rightarrow>
    res_bind (y_str Y u) (\<lambda>url.
    res_bind (y_get Y node ''level'') (\<lambda>lv.
    res_bind (case lv of None \<Rightarrow> only_level t (''backend '' @ nm) | Some l \<Rightarrow> named_level Y t (''backend '' @ nm) l) (\<lambda>(r, lname).
    res_bind (flag Y node ''secret'') (\<lambda>secret.
    res_bind (y_get Y node ''idempotent_tools'') (\<lambda>it.
    res_bind (case it of None \<Rightarrow> Inr [] | Some l \<Rightarrow> res_map (y_str Y) (y_elems Y l)) (\<lambda>tools.
    Inr \<lparr>bk_name = nm, bk_url = url, bk_meta = \<lparr>bm_level = r, bm_secret = secret, bm_idempotentTools = tools\<rparr>,
         bk_levelName = lname\<rparr>)))))))))"

fun load_backends :: "'y yaml_api \<Rightarrow> Taxonomy \<Rightarrow> 'y list \<Rightarrow> BackendCfg list \<Rightarrow> exn + BackendCfg list" where
  "load_backends Y t [] bs = Inr bs"
| "load_backends Y t (n # ns) bs =
     res_bind (load_backend Y t (map bk_name bs) n) (\<lambda>b. load_backends Y t ns (bs @ [b]))"

definition load_backend_section :: "'y yaml_api \<Rightarrow> 'y \<Rightarrow> YamlConfig \<Rightarrow> exn + YamlConfig" where
  "load_backend_section Y root c =
    (let missing = Inl (RuntimeError (zh_missing @ '' backends'')) in
     res_bind (y_get Y root ''backends'') (\<lambda>n. case n of None \<Rightarrow> missing | Some n \<Rightarrow>
     if \<not> y_is_seq Y n then missing
     else res_bind (load_backends Y (cf_taxonomy c) (y_elems Y n) []) (\<lambda>bs.
          if bs = [] then Inl (RuntimeError (''backends '' @ zh_must_not_be_empty))
          else Inr (c\<lparr>cf_backends := bs\<rparr>))))"

definition load_health :: "'y yaml_api \<Rightarrow> 'y \<Rightarrow> YamlConfig \<Rightarrow> exn + YamlConfig" where
  "load_health Y h = res_fold
    [opt_field Y h ''interval_ms'' (y_u64 Y) (\<lambda>v c. c\<lparr>cf_healthIntervalMs := v\<rparr>),
     opt_field Y h ''degraded_latency_ms'' (y_u64 Y) (\<lambda>v c. c\<lparr>cf_degradedLatencyMs := v\<rparr>),
     opt_field Y h ''down_after_failures'' (y_int Y) (\<lambda>v c. c\<lparr>cf_downAfterFailures := v\<rparr>)]"

definition load_circuit :: "'y yaml_api \<Rightarrow> 'y \<Rightarrow> YamlConfig \<Rightarrow> exn + YamlConfig" where
  "load_circuit Y x = res_fold
    [opt_field Y x ''open_after'' (y_int Y) (\<lambda>v c. c\<lparr>cf_circuitOpenAfter := v\<rparr>),
     opt_field Y x ''cooldown_ms'' (y_u64 Y) (\<lambda>v c. c\<lparr>cf_circuitCooldownMs := v\<rparr>),
     opt_field Y x ''half_open_probes'' (y_int Y) (\<lambda>v c. c\<lparr>cf_halfOpenProbes := v\<rparr>)]"

definition klasses :: "'y yaml_api \<Rightarrow> string \<Rightarrow> 'y \<Rightarrow> exn + FailureClass list" where
  "klasses Y ctx n = res_map (\<lambda>e. res_bind (y_str Y e) (\<lambda>nm. mustKlass nm ctx)) (y_elems Y n)"

definition load_retry :: "'y yaml_api \<Rightarrow> 'y \<Rightarrow> YamlConfig \<Rightarrow> exn + YamlConfig" where
  "load_retry Y r = res_fold
    [opt_field Y r ''max_attempts'' (y_int Y) (\<lambda>v c. c\<lparr>cf_retryMaxAttempts := v\<rparr>),
     opt_field Y r ''retryable'' (klasses Y ''retry.retryable'') (\<lambda>v c. c\<lparr>cf_retryable := v\<rparr>),
     opt_field Y r ''never'' (klasses Y ''retry.never'') (\<lambda>v c. c\<lparr>cf_neverRetry := v\<rparr>)]"

definition load_governor_default :: "'y yaml_api \<Rightarrow> 'y \<Rightarrow> YamlConfig \<Rightarrow> exn + YamlConfig" where
  "load_governor_default Y d = res_fold
    [opt_field Y d ''per_tool_concurrency'' (y_int Y) (\<lambda>v c. c\<lparr>cf_perToolConcurrency := v\<rparr>),
     opt_field Y d ''per_principal_concurrency'' (y_int Y) (\<lambda>v c. c\<lparr>cf_perPrincipalConcurrency := v\<rparr>),
     opt_field Y d ''queue_wait_ms'' (y_u64 Y) (\<lambda>v c. c\<lparr>cf_queueWaitMs := v\<rparr>),
     opt_field Y d ''rate_per_sec'' (y_int Y) (\<lambda>v c. c\<lparr>cf_ratePerSec := v\<rparr>)]"

text \<open>\<^verbatim>\<open>emplace\<close> keeps the entry of a key that is already there.\<close>

definition load_governor_tool :: "'y yaml_api \<Rightarrow> 'y \<times> 'y \<Rightarrow> YamlConfig \<Rightarrow> exn + YamlConfig" where
  "load_governor_tool Y kn c =
    res_bind (y_str Y (fst kn)) (\<lambda>key.
    if ToolKey_parse key = None then
      Inl (RuntimeError (''governor.tools '' @ utf8 [233, 148, 174, 228, 184, 141, 230, 152, 175] @ '' ToolKey: '' @ key))
    else res_bind (res_fold
      [opt_field Y (snd kn) ''max_concurrency'' (y_int Y) (\<lambda>v tc. tc\<lparr>gt_maxConcurrency := v\<rparr>),
       opt_field Y (snd kn) ''queue_wait_ms'' (y_u64 Y) (\<lambda>v tc. tc\<lparr>gt_queueWaitMs := v\<rparr>)] GovernorToolCfg_default) (\<lambda>tc.
    Inr (if um_find (cf_governorTools c) key = None then c\<lparr>cf_governorTools := um_set key tc (cf_governorTools c)\<rparr> else c)))"

definition load_governor :: "'y yaml_api \<Rightarrow> 'y \<Rightarrow> YamlConfig \<Rightarrow> exn + YamlConfig" where
  "load_governor Y g = res_fold
    [with_key Y g ''default'' (load_governor_default Y),
     with_key Y g ''tools'' (\<lambda>n. if y_is_map Y n then res_fold (map (load_governor_tool Y) (y_items Y n)) else Inr)]"

definition load_tasks :: "'y yaml_api \<Rightarrow> 'y \<Rightarrow> YamlConfig \<Rightarrow> exn + YamlConfig" where
  "load_tasks Y t = res_fold
    [opt_field Y t ''promote_after_ms'' (y_u64 Y) (\<lambda>v c. c\<lparr>cf_promoteAfterMs := v\<rparr>),
     opt_field Y t ''ttl_ms'' (y_u64 Y) (\<lambda>v c. c\<lparr>cf_taskTtlMs := v\<rparr>),
     opt_field Y t ''max'' (y_u64 Y) (\<lambda>v c. c\<lparr>cf_taskMax := v\<rparr>)]"

definition load_otel :: "'y yaml_api \<Rightarrow> 'y \<Rightarrow> YamlConfig \<Rightarrow> exn + YamlConfig" where
  "load_otel Y n = res_fold
    [opt_field Y n ''endpoint'' (y_str Y) (\<lambda>v c. c\<lparr>cf_otelEndpoint := v\<rparr>),
     opt_field Y n ''service_name'' (y_str Y) (\<lambda>v c. c\<lparr>cf_otelService := v\<rparr>),
     opt_field Y n ''queue_max'' (y_u64 Y) (\<lambda>v c. c\<lparr>cf_otelQueueMax := v\<rparr>)]"

definition YamlConfig_load :: "'y yaml_api \<Rightarrow> string \<Rightarrow> exn + YamlConfig" where
  "YamlConfig_load Y path =
    (case y_load Y path of
       Inl what \<Rightarrow> Inl (RuntimeError (utf8 [230, 151, 160, 230, 179, 149, 232, 175, 187, 229, 143, 150, 233, 133, 141, 231, 189, 174]
                       @ '' '' @ path @ '': '' @ what))
     | Inr root \<Rightarrow>
         if \<not> y_is_map Y root then
           Inl (RuntimeError (utf8 [233, 133, 141, 231, 189, 174, 230, 160, 185, 229, 191, 133, 233, 161, 187, 230, 152, 175]
                @ '' mapping: '' @ path))
         else res_fold
           [load_top Y root, with_key Y root ''http'' (load_http Y), load_access Y root,
            load_agent_section Y root, load_backend_section Y root,
            with_key Y root ''health'' (load_health Y), with_key Y root ''circuit'' (load_circuit Y),
            with_key Y root ''retry'' (load_retry Y), with_key Y root ''governor'' (load_governor Y),
            with_key Y root ''tasks'' (load_tasks Y), with_key Y root ''otel'' (load_otel Y),
            with_key Y root ''audit'' (\<lambda>n. opt_field Y n ''path'' (y_str Y) (\<lambda>v c. c\<lparr>cf_auditPath := v\<rparr>))]
           YamlConfig_default)"

section \<open>What the optional sections leave unchanged\<close>

definition core where
  "core c = (cf_taxonomy c, cf_elevationMax c, cf_elevationMaxName c, cf_agents c, cf_backends c,
     cf_originAllowlist c, cf_governorTools c)"

text \<open>\<open>pres P f\<close>: the step \<open>f\<close>, when it does not throw, keeps \<open>P\<close>.\<close>

definition pres :: "('c \<Rightarrow> bool) \<Rightarrow> ('c \<Rightarrow> exn + 'c) \<Rightarrow> bool" where
  "pres P f \<longleftrightarrow> (\<forall>a b. f a = Inr b \<longrightarrow> P a \<longrightarrow> P b)"

lemma presI: "(\<And>a b. f a = Inr b \<Longrightarrow> P a \<Longrightarrow> P b) \<Longrightarrow> pres P f"
  by (simp add: pres_def)

lemma presD: "pres P f \<Longrightarrow> f a = Inr b \<Longrightarrow> P a \<Longrightarrow> P b"
  by (simp add: pres_def)

lemma pres_Inr [simp]: "pres P Inr"
  by (simp add: pres_def)

lemma pres_fold: "list_all (pres P) fs \<Longrightarrow> pres P (res_fold fs)"
  by (induction fs) (auto simp: pres_def res_bind_Inr)

lemma pres_with_key: "(\<And>v. pres P (body v)) \<Longrightarrow> pres P (with_key Y n k body)"
  by (auto simp: pres_def with_key_def res_bind_Inr split: option.splits)

lemma pres_opt_field: "(\<And>v a. P a \<Longrightarrow> P (upd v a)) \<Longrightarrow> pres P (opt_field Y n k conv upd)"
  unfolding opt_field_def by (rule pres_with_key) (auto simp: pres_def res_bind_Inr)

lemmas pres_rules = pres_fold pres_with_key pres_opt_field

lemma core_fields [simp]:
  "core (c\<lparr>cf_listen := v1\<rparr>) = core c" "core (c\<lparr>cf_workers := v2\<rparr>) = core c"
  "core (c\<lparr>cf_workerQueueMax := v3\<rparr>) = core c" "core (c\<lparr>cf_drainTimeoutMs := v3\<rparr>) = core c"
  "core (c\<lparr>cf_grantsPath := v1\<rparr>) = core c" "core (c\<lparr>cf_grantRefreshMs := v3\<rparr>) = core c"
  "core (c\<lparr>cf_listTtlMs := v3\<rparr>) = core c" "core (c\<lparr>cf_httpMaxBodyBytes := v3\<rparr>) = core c"
  "core (c\<lparr>cf_elevationTtlMs := v3\<rparr>) = core c" "core (c\<lparr>cf_elevationConfigured := v4\<rparr>) = core c"
  "core (c\<lparr>cf_healthIntervalMs := v3\<rparr>) = core c" "core (c\<lparr>cf_degradedLatencyMs := v3\<rparr>) = core c"
  "core (c\<lparr>cf_downAfterFailures := v2\<rparr>) = core c" "core (c\<lparr>cf_circuitOpenAfter := v2\<rparr>) = core c"
  "core (c\<lparr>cf_circuitCooldownMs := v3\<rparr>) = core c" "core (c\<lparr>cf_halfOpenProbes := v2\<rparr>) = core c"
  "core (c\<lparr>cf_retryMaxAttempts := v2\<rparr>) = core c" "core (c\<lparr>cf_retryable := v5\<rparr>) = core c"
  "core (c\<lparr>cf_neverRetry := v5\<rparr>) = core c" "core (c\<lparr>cf_perToolConcurrency := v2\<rparr>) = core c"
  "core (c\<lparr>cf_perPrincipalConcurrency := v2\<rparr>) = core c" "core (c\<lparr>cf_queueWaitMs := v3\<rparr>) = core c"
  "core (c\<lparr>cf_ratePerSec := v2\<rparr>) = core c" "core (c\<lparr>cf_promoteAfterMs := v3\<rparr>) = core c"
  "core (c\<lparr>cf_taskTtlMs := v3\<rparr>) = core c" "core (c\<lparr>cf_taskMax := v3\<rparr>) = core c"
  "core (c\<lparr>cf_otelEndpoint := v1\<rparr>) = core c" "core (c\<lparr>cf_otelService := v1\<rparr>) = core c"
  "core (c\<lparr>cf_otelQueueMax := v3\<rparr>) = core c" "core (c\<lparr>cf_auditPath := v1\<rparr>) = core c"
  by (simp_all add: core_def)

section \<open>Validity\<close>

definition taxonomy_ok :: "Taxonomy \<Rightarrow> bool" where
  "taxonomy_ok t \<longleftrightarrow> tx_levels t \<noteq> [] \<and> distinct (tx_levels t) \<and> [] \<notin> set (tx_levels t) \<and> length (tx_levels t) < 65536 \<and>
     (\<forall>nm r. Taxonomy_parse t nm = Some r \<longleftrightarrow> Taxonomy_nameOf t r = Inr nm)"

definition agent_ok :: "Taxonomy \<Rightarrow> AgentCfg \<Rightarrow> bool" where
  "agent_ok t a \<longleftrightarrow> ag_token a \<noteq> [] \<and>
     (if ag_hasLevel a then Taxonomy_nameOf t (ag_level a) = Inr (ag_levelName a) else ag_admin a)"

definition backend_ok :: "Taxonomy \<Rightarrow> BackendCfg \<Rightarrow> bool" where
  "backend_ok t b \<longleftrightarrow> bk_name b \<noteq> [] \<and> sv_find ''__'' (bk_name b) = None \<and>
     Taxonomy_nameOf t (bm_level (bk_meta b)) = Inr (bk_levelName b)"

definition config_ok :: "YamlConfig \<Rightarrow> bool" where
  "config_ok c \<longleftrightarrow>
     taxonomy_ok (cf_taxonomy c) \<and>
     Taxonomy_nameOf (cf_taxonomy c) (cf_elevationMax c) = Inr (cf_elevationMaxName c) \<and>
     cf_agents c \<noteq> [] \<and> distinct (map ag_token (cf_agents c)) \<and> list_all (agent_ok (cf_taxonomy c)) (cf_agents c) \<and>
     cf_backends c \<noteq> [] \<and> distinct (map bk_name (cf_backends c)) \<and> list_all (backend_ok (cf_taxonomy c)) (cf_backends c) \<and>
     cf_originAllowlist c \<noteq> [] \<and>
     um_wf (cf_governorTools c) \<and> list_all (\<lambda>kv. ToolKey_parse (fst kv) \<noteq> None) (cf_governorTools c)"

lemma config_ok_core: "core c' = core c \<Longrightarrow> config_ok c' = config_ok c"
  by (auto simp: core_def config_ok_def)

lemmas config_ok_fields [simp] = core_fields [THEN config_ok_core]

lemma taxonomy_ok_make: "Taxonomy_make levels = Inr t \<Longrightarrow> taxonomy_ok t"
  using Taxonomy_make_Inr [of levels t]
  by (auto simp: taxonomy_ok_def Taxonomy_parse_nameOf taxo_inv_def)

lemma only_level_ok: "only_level t what = Inr (r, nm) \<Longrightarrow> Taxonomy_nameOf t r = Inr nm"
  by (auto simp: only_level_def res_bind_Inr split: if_splits)

lemma named_level_ok: "taxonomy_ok t \<Longrightarrow> named_level Y t what n = Inr (r, nm) \<Longrightarrow> Taxonomy_nameOf t r = Inr nm"
  by (auto simp: named_level_def res_bind_Inr taxonomy_ok_def split: option.splits)

lemma load_agent_ok:
  assumes "taxonomy_ok t" "load_agent Y t tokens kn = Inr a"
  shows "agent_ok t a \<and> ag_token a \<notin> set tokens"
  using assms
  by (auto simp: load_agent_def res_bind_Inr Let_def agent_ok_def only_level_ok named_level_ok split: option.splits if_splits)

lemma load_agents_ok:
  "load_agents Y t kns as = Inr as' \<Longrightarrow> taxonomy_ok t \<Longrightarrow> distinct (map ag_token as) \<Longrightarrow> list_all (agent_ok t) as \<Longrightarrow>
   distinct (map ag_token as') \<and> list_all (agent_ok t) as'"
proof (induction kns arbitrary: as)
  case (Cons kn kns)
  obtain a where a: "load_agent Y t (map ag_token as) kn = Inr a" "load_agents Y t kns (as @ [a]) = Inr as'"
    using Cons.prems(1) by (auto simp: res_bind_Inr)
  show ?case
    using Cons.IH [OF a(2)] Cons.prems load_agent_ok [OF Cons.prems(2) a(1)] by simp
qed simp

lemma load_backend_ok:
  assumes "taxonomy_ok t" "load_backend Y t bnames n = Inr b"
  shows "backend_ok t b \<and> bk_name b \<notin> set bnames"
  using assms
  by (auto simp: load_backend_def res_bind_Inr backend_ok_def only_level_ok named_level_ok split: option.splits if_splits)

lemma load_backends_ok:
  "load_backends Y t ns bs = Inr bs' \<Longrightarrow> taxonomy_ok t \<Longrightarrow> distinct (map bk_name bs) \<Longrightarrow> list_all (backend_ok t) bs \<Longrightarrow>
   distinct (map bk_name bs') \<and> list_all (backend_ok t) bs'"
proof (induction ns arbitrary: bs)
  case (Cons n ns)
  obtain b where b: "load_backend Y t (map bk_name bs) n = Inr b" "load_backends Y t ns (bs @ [b]) = Inr bs'"
    using Cons.prems(1) by (auto simp: res_bind_Inr)
  show ?case
    using Cons.IH [OF b(2)] Cons.prems load_backend_ok [OF Cons.prems(2) b(1)] by simp
qed simp

text \<open>What holds of the parts read so far: \<open>base\<close> before the access section, \<open>leveled\<close> after it.\<close>

definition base :: "YamlConfig \<Rightarrow> bool" where
  "base c \<longleftrightarrow> cf_originAllowlist c \<noteq> [] \<and> cf_governorTools c = []"

definition leveled :: "YamlConfig \<Rightarrow> bool" where
  "leveled c \<longleftrightarrow> base c \<and> taxonomy_ok (cf_taxonomy c) \<and>
     Taxonomy_nameOf (cf_taxonomy c) (cf_elevationMax c) = Inr (cf_elevationMaxName c)"

lemma base_core: "core c' = core c \<Longrightarrow> base c' = base c"
  by (auto simp: core_def base_def)

lemma leveled_core: "core c' = core c \<Longrightarrow> leveled c' = leveled c"
  by (auto simp: core_def leveled_def base_def)

lemmas base_fields [simp] = core_fields [THEN base_core]
lemmas leveled_fields [simp] = core_fields [THEN leveled_core]

lemma base_load_top: "pres base (load_top Y root)"
  unfolding load_top_def by (rule pres_fold) (simp add: pres_opt_field)

lemma base_load_http: "pres base (load_http Y h)"
proof -
  have "pres base (load_origins Y n)" for n
    by (rule presI) (auto simp: load_origins_def res_bind_Inr base_def split: if_splits)
  then show ?thesis unfolding load_http_def by (intro pres_fold) (simp add: pres_opt_field pres_with_key)
qed

lemma leveled_load_elevation:
  assumes "load_elevation Y el c = Inr c'" "leveled c"
  shows "leveled c'"
proof -
  have "pres leveled (load_max_level Y n)" for n
    by (rule presI) (auto simp: load_max_level_def res_bind_Inr leveled_def base_def taxonomy_ok_def split: option.splits)
  then have "pres leveled (res_fold
    [opt_field Y el ''ttl_ms'' (y_u64 Y) (\<lambda>v c. c\<lparr>cf_elevationTtlMs := v\<rparr>), with_key Y el ''max_level'' (load_max_level Y)])"
    by (intro pres_fold) (simp add: pres_opt_field pres_with_key)
  from presD [OF this assms(1) [unfolded load_elevation_def]] show ?thesis using assms(2) by simp
qed

lemma load_access_leveled:
  assumes "load_access Y root c = Inr c'" "base c"
  shows "leveled c'"
proof -
  obtain a t nm where t: "taxonomy_ok t" and nm: "Taxonomy_nameOf t (Taxonomy_maxRank t) = Inr nm"
    and el: "with_key Y a ''elevation'' (load_elevation Y)
      (c\<lparr>cf_taxonomy := t, cf_elevationMax := Taxonomy_maxRank t, cf_elevationMaxName := nm\<rparr>) = Inr c'"
    using assms(1) unfolding load_access_def Let_def res_bind_Inr
    by (auto simp: res_bind_Inr split: option.split_asm if_split_asm dest!: taxonomy_ok_make)
  have "leveled (c\<lparr>cf_taxonomy := t, cf_elevationMax := Taxonomy_maxRank t, cf_elevationMaxName := nm\<rparr>)"
    using t nm assms(2) by (simp add: leveled_def base_def)
  then show ?thesis
    using presD [OF pres_with_key el] leveled_load_elevation by (metis presI)
qed

lemma load_agent_section_ok:
  assumes "load_agent_section Y root c = Inr c'" "leveled c"
  shows "leveled c' \<and> cf_agents c' \<noteq> [] \<and> distinct (map ag_token (cf_agents c')) \<and> list_all (agent_ok (cf_taxonomy c')) (cf_agents c')"
proof -
  obtain n as where as: "load_agents Y (cf_taxonomy c) (y_items Y n) [] = Inr as" "as \<noteq> []" "c' = c\<lparr>cf_agents := as\<rparr>"
    using assms(1) by (auto simp: load_agent_section_def Let_def res_bind_Inr split: option.splits if_splits)
  show ?thesis
    using load_agents_ok [OF as(1)] as(2,3) assms(2) by (simp add: leveled_def base_def)
qed

lemma load_backend_section_ok:
  assumes "load_backend_section Y root c = Inr c'"
    and "leveled c" "cf_agents c \<noteq> []" "distinct (map ag_token (cf_agents c))" "list_all (agent_ok (cf_taxonomy c)) (cf_agents c)"
  shows "config_ok c'"
proof -
  obtain n bs where bs: "load_backends Y (cf_taxonomy c) (y_elems Y n) [] = Inr bs" "bs \<noteq> []" "c' = c\<lparr>cf_backends := bs\<rparr>"
    using assms(1) by (auto simp: load_backend_section_def Let_def res_bind_Inr split: option.splits if_splits)
  show ?thesis
    using load_backends_ok [OF bs(1)] bs(2,3) assms(2-) by (simp add: leveled_def base_def config_ok_def)
qed

lemma tool_keys_set:
  "list_all (\<lambda>kv. P (fst kv)) (um_set k v m) \<longleftrightarrow> P k \<and> list_all (\<lambda>kv. P (fst kv)) m"
proof -
  have "list_all (\<lambda>kv. P (fst kv)) m' \<longleftrightarrow> (\<forall>x \<in> fst ` set m'. P x)" for m' :: "('a \<times> 'b) list"
    by (simp add: list_all_iff)
  then show ?thesis by (simp only: dom_update) auto
qed

lemma load_governor_tool_ok: "load_governor_tool Y kn c = Inr c' \<Longrightarrow> config_ok c \<Longrightarrow> config_ok c'"
proof -
  assume ld: "load_governor_tool Y kn c = Inr c'" and ok: "config_ok c"
  obtain key where key: "y_str Y (fst kn) = Inr key"
    using ld by (cases "y_str Y (fst kn)") (simp_all add: load_governor_tool_def)
  have parse: "ToolKey_parse key \<noteq> None"
    using ld key by (cases "ToolKey_parse key = None") (simp_all add: load_governor_tool_def)
  then obtain tc where "c' = c \<or> c' = c\<lparr>cf_governorTools := um_set key tc (cf_governorTools c)\<rparr>"
    using ld key unfolding load_governor_tool_def by (auto simp: res_bind_Inr [of "res_bind _ _"] split: if_split_asm)
  then show "config_ok c'"
    using ok parse by (elim disjE) (simp_all add: config_ok_def tool_keys_set [where P = "\<lambda>k. \<exists>y. ToolKey_parse k = Some y"])
qed

lemma config_ok_governor: "pres config_ok (load_governor Y n)"
proof -
  have "pres config_ok (load_governor_default Y d)" for d
    unfolding load_governor_default_def by (rule pres_fold) (simp add: pres_opt_field)
  moreover have "pres config_ok (load_governor_tool Y kn)" for kn
    by (rule presI) (rule load_governor_tool_ok)
  then have "pres config_ok (res_fold (map (load_governor_tool Y) kns))" for kns
    by (intro pres_fold) (simp add: list_all_iff)
  ultimately show ?thesis
    unfolding load_governor_def by (intro pres_fold) (simp add: pres_with_key)
qed

lemma config_ok_sections:
  "pres config_ok (load_health Y n)" "pres config_ok (load_circuit Y n)" "pres config_ok (load_retry Y n)"
  "pres config_ok (load_tasks Y n)" "pres config_ok (load_otel Y n)"
  unfolding load_health_def load_circuit_def load_retry_def load_tasks_def load_otel_def
  by (rule pres_fold, simp add: pres_opt_field)+

lemma config_loaded_ok:
  assumes "YamlConfig_load Y path = Inr c"
  shows "config_ok c"
proof -
  obtain root where "res_fold
     [load_top Y root, with_key Y root ''http'' (load_http Y), load_access Y root,
      load_agent_section Y root, load_backend_section Y root,
      with_key Y root ''health'' (load_health Y), with_key Y root ''circuit'' (load_circuit Y),
      with_key Y root ''retry'' (load_retry Y), with_key Y root ''governor'' (load_governor Y),
      with_key Y root ''tasks'' (load_tasks Y), with_key Y root ''otel'' (load_otel Y),
      with_key Y root ''audit'' (\<lambda>n. opt_field Y n ''path'' (y_str Y) (\<lambda>v c. c\<lparr>cf_auditPath := v\<rparr>))]
     YamlConfig_default = Inr c"
    using assms by (auto simp: YamlConfig_load_def split: sum.splits if_splits)
  then obtain c1 c2 c3 c4 c5 where top: "load_top Y root YamlConfig_default = Inr c1"
    and http: "with_key Y root ''http'' (load_http Y) c1 = Inr c2" and access: "load_access Y root c2 = Inr c3"
    and agents: "load_agent_section Y root c3 = Inr c4" and backends: "load_backend_section Y root c4 = Inr c5"
    and rest: "res_fold
     [with_key Y root ''health'' (load_health Y), with_key Y root ''circuit'' (load_circuit Y),
      with_key Y root ''retry'' (load_retry Y), with_key Y root ''governor'' (load_governor Y),
      with_key Y root ''tasks'' (load_tasks Y), with_key Y root ''otel'' (load_otel Y),
      with_key Y root ''audit'' (\<lambda>n. opt_field Y n ''path'' (y_str Y) (\<lambda>v c. c\<lparr>cf_auditPath := v\<rparr>))] c5 = Inr c"
    by (simp only: res_fold.simps res_bind_Inr) blast
  have "base c1" using presD [OF base_load_top top] by (simp add: base_def YamlConfig_default_def)
  then have "base c2" by (rule presD [OF pres_with_key [OF base_load_http] http])
  then have "config_ok c5"
    using load_backend_section_ok [OF backends] load_agent_section_ok [OF agents load_access_leveled [OF access]] by blast
  then show ?thesis
    by (rule presD [OF pres_fold rest, rotated])
      (simp add: pres_with_key config_ok_sections config_ok_governor pres_opt_field)
qed

section \<open>A sample file\<close>

text \<open>YAML documents with the behaviour of yaml-cpp on strings, booleans, sequences and maps whose
  keys are strings.\<close>

datatype yv = YStr string | YFlag bool | YNum nat | YSeq "yv list" | YMap "(yv \<times> yv) list"

definition yv_api :: "yv \<Rightarrow> yv yaml_api" where
  "yv_api doc = \<lparr>
     y_load = (\<lambda>path. if path = ''perfacet.yaml'' then Inr doc else Inl ''bad file''),
     y_is_map = (\<lambda>n. case n of YMap _ \<Rightarrow> True | _ \<Rightarrow> False),
     y_is_seq = (\<lambda>n. case n of YSeq _ \<Rightarrow> True | _ \<Rightarrow> False),
     y_get = (\<lambda>n k. case n of YMap kvs \<Rightarrow> Inr (map_of kvs (YStr k)) | YSeq _ \<Rightarrow> Inr None
                      | _ \<Rightarrow> Inl (RuntimeError ''operator[] call on a scalar'')),
     y_elems = (\<lambda>n. case n of YSeq ns \<Rightarrow> ns | _ \<Rightarrow> []),
     y_items = (\<lambda>n. case n of YMap kvs \<Rightarrow> kvs | _ \<Rightarrow> []),
     y_str = (\<lambda>n. case n of YStr s \<Rightarrow> Inr s | _ \<Rightarrow> Inl (RuntimeError ''bad conversion'')),
     y_int = (\<lambda>n. case n of YNum i \<Rightarrow> Inr (int i) | _ \<Rightarrow> Inl (RuntimeError ''bad conversion'')),
     y_u64 = (\<lambda>n. case n of YNum i \<Rightarrow> Inr (of_nat i) | _ \<Rightarrow> Inl (RuntimeError ''bad conversion'')),
     y_bool = (\<lambda>n. case n of YFlag b \<Rightarrow> Inr b | _ \<Rightarrow> Inl (RuntimeError ''bad conversion''))\<rparr>"

definition sample_doc :: yv where
  "sample_doc = YMap
    [(YStr ''listen'', YStr ''127.0.0.1:9000''),
     (YStr ''access'', YMap [(YStr ''levels'', YSeq [YStr ''low'', YStr ''high''])]),
     (YStr ''agents'', YMap
        [(YStr ''bot'', YMap [(YStr ''token'', YStr ''t1''), (YStr ''level'', YStr ''low'')]),
         (YStr ''ops'', YMap [(YStr ''token'', YStr ''t2''), (YStr ''admin'', YFlag True)])]),
     (YStr ''backends'', YSeq
        [YMap [(YStr ''name'', YStr ''files''), (YStr ''url'', YStr ''http://127.0.0.1:9101/mcp''), (YStr ''level'', YStr ''high'')]]),
     (YStr ''governor'', YMap [(YStr ''tools'', YMap [(YStr ''files__read'', YMap [(YStr ''max_concurrency'', YNum 2)])])])]"

definition sample_loaded :: YamlConfig where
  "sample_loaded = YamlConfig_default\<lparr>
     cf_listen := ''127.0.0.1:9000'',
     cf_taxonomy := \<lparr>tx_levels = [''low'', ''high''], tx_byName = [(''low'', 0), (''high'', 1)]\<rparr>,
     cf_elevationMax := 1, cf_elevationMaxName := ''high'',
     cf_agents := [\<lparr>ag_id = ''bot'', ag_token = ''t1'', ag_level = 0, ag_hasLevel = True, ag_admin = False, ag_levelName = ''low''\<rparr>,
                   \<lparr>ag_id = ''ops'', ag_token = ''t2'', ag_level = 0, ag_hasLevel = False, ag_admin = True, ag_levelName = []\<rparr>],
     cf_backends := [\<lparr>bk_name = ''files'', bk_url = ''http://127.0.0.1:9101/mcp'',
                      bk_meta = \<lparr>bm_level = 1, bm_secret = False, bm_idempotentTools = []\<rparr>, bk_levelName = ''high''\<rparr>],
     cf_governorTools := [(''files__read'', \<lparr>gt_maxConcurrency = 2, gt_queueWaitMs = 0, gt_status = Unvalidated\<rparr>)]\<rparr>"

lemma sample_load: "YamlConfig_load (yv_api sample_doc) ''perfacet.yaml'' = Inr sample_loaded"
  by code_simp

text \<open>C16: A configuration that loads is valid: the levels are distinct, named and numbered without
  gaps; every agent has a token of its own that is not empty and, unless it is an administrator
  without a level, a level of the list; every backend has a name of its own that cannot be mistaken
  in a tool name, and a level of the list; the highest level of a grant is one of the list.\<close>

theorem load_valid:
  assumes "YamlConfig_load Y path = Inr c"
  shows "config_ok c"
  using assms by (rule config_loaded_ok)

theorem load_valid_witness: "config_ok sample_loaded"
  by (rule load_valid [OF sample_load])

end
