(* ===== verification/Cli.thy ===== *)
theory Cli
  imports Config_Load Sample_World Http_Front
begin

text \<open>
  Addresses (\<^verbatim>\<open>netlib/include/netlib/Endpoint.h\<close>, \<^verbatim>\<open>netlib/src/Endpoint.cpp\<close>) and the commands of
  \<^verbatim>\<open>src/cli/Cli.cpp\<close>: \<^verbatim>\<open>serve\<close>, \<^verbatim>\<open>grant approve\<close> and \<^verbatim>\<open>status\<close>. Parsing of the
  arguments (CLI11) and the process itself are outside; the operating system's name lookup, the HTTP client and the
  YAML library are parameters. Theorems: addresses round trip; a file that loads and starts leads to an initial
  state of the HTTP state machine with a valid configuration; an approval given on the command line takes
  effect in a gateway that reads the grant file afterwards.
\<close>

section \<open>Addresses\<close>

datatype Family = Tcp | Unix

record Endpoint =
  ep_family :: Family
  ep_ip :: string
  ep_port :: "16 word"
  ep_path :: string

definition Endpoint_make :: "string \<Rightarrow> 16 word \<Rightarrow> Endpoint" where
  "Endpoint_make ip port = \<lparr>ep_family = Tcp, ep_ip = ip, ep_port = port, ep_path = []\<rparr>"

text \<open>\<^verbatim>\<open>sizeof(sockaddr_un::sun_path)\<close> on Linux.\<close>

definition kSunPath :: nat where "kSunPath = 108"

definition unixPath :: "string \<Rightarrow> exn + Endpoint" where
  "unixPath path =
     (if length path \<ge> kSunPath then Inl (RuntimeError (''Endpoint: unix path too long: '' @ path))
      else Inr \<lparr>ep_family = Unix, ep_ip = [], ep_port = 0, ep_path = path\<rparr>)"

definition Endpoint_toString :: "Endpoint \<Rightarrow> string" where
  "Endpoint_toString e =
     (if ep_family e = Unix then ''unix://'' @ ep_path e
      else ''tcp://'' @ ep_ip e @ '':'' @ nat_digits (unat (ep_port e)))"

text \<open>The operating system: whether a text is an IPv4 address, and the first address of a host name.\<close>

record net_api =
  os_is_ipv4 :: "string \<Rightarrow> bool"
  os_lookup :: "string \<Rightarrow> string option"

definition resolveHost :: "net_api \<Rightarrow> string \<Rightarrow> exn + string" where
  "resolveHost N host =
     (if os_is_ipv4 N host then Inr host
      else case os_lookup N host of
             None \<Rightarrow> Inl (RuntimeError (''resolve failed: '' @ host))
           | Some ip \<Rightarrow> Inr ip)"

text \<open>\<^verbatim>\<open>std::atoi\<close>: white space, a sign, digits; the rest is ignored. The value is that of
  \<^verbatim>\<open>strtol\<close>, which stops at the limits of 64 bits, reduced to 32 bits (as glibc does; the standard
  leaves a value outside \<^verbatim>\<open>int\<close> open).\<close>

definition isspace_c :: "char \<Rightarrow> bool" where
  "isspace_c c \<longleftrightarrow> of_char c = (32 :: nat) \<or> (9 \<le> (of_char c :: nat) \<and> (of_char c :: nat) \<le> 13)"

definition isdigit_c :: "char \<Rightarrow> bool" where
  "isdigit_c c \<longleftrightarrow> 48 \<le> (of_char c :: nat) \<and> (of_char c :: nat) \<le> 57"

definition digits_value :: "string \<Rightarrow> int" where
  "digits_value ds = foldl (\<lambda>v c. v * 10 + (of_char c - 48)) 0 ds"

definition atoi :: "string \<Rightarrow> int" where
  "atoi s =
    (let t = dropWhile isspace_c s;
         neg = (t \<noteq> [] \<and> hd t = CHR ''-'');
         u = (if t \<noteq> [] \<and> (hd t = CHR ''-'' \<or> hd t = CHR ''+'') then tl t else t);
         v = digits_value (takeWhile isdigit_c u);
         w = max (- (2 ^ 63)) (min (2 ^ 63 - 1) (if neg then - v else v))
     in sint (word_of_int w :: 32 word))"

definition parseHostPort :: "net_api \<Rightarrow> string \<Rightarrow> exn + Endpoint" where
  "parseHostPort N spec =
    (let bad = Inl (RuntimeError (''bad address (expect host:port): '' @ spec)) in
     case sv_rfind_char CHR '':'' spec of
       None \<Rightarrow> bad
     | Some colon \<Rightarrow>
         if colon = 0 \<or> colon + 1 = length spec then bad
         else (let p = atoi (drop (colon + 1) spec) in
               if p \<le> 0 \<or> p > 65535 then Inl (RuntimeError (''bad port: '' @ spec))
               else res_bind (resolveHost N (take colon spec)) (\<lambda>ip. Inr (Endpoint_make ip (word_of_int p)))))"

section \<open>serve\<close>

text \<open>\<^verbatim>\<open>HttpMcp::startListen\<close> up to the socket: the address the server listens on.\<close>

definition startListen :: "net_api \<Rightarrow> YamlConfig \<Rightarrow> exn + Endpoint" where
  "startListen N cfg = parseHostPort N (cf_listen cfg)"

datatype ('p, 'j) serve = Exit int | Running "('p, 'j) Http" Endpoint

text \<open>\<open>e\<close>, \<open>file\<close> and \<open>post\<close> as in \<open>Boot\<close>. A configuration that does not load is the exit code 1; every other
  exception of the start ends the process. The frontend starts to listen inside \<^verbatim>\<open>Gateway::start\<close>,
  before the timers are armed; the two do not affect each other.\<close>

definition runServe ::
  "'y yaml_api \<Rightarrow> net_api \<Rightarrow> 'j json_api \<Rightarrow> http_post \<Rightarrow> 'j pfun Env \<Rightarrow> (string list \<times> int) option \<Rightarrow> string \<Rightarrow> exn + ('p, 'j) serve" where
  "runServe Y N J post e file yaml =
    (case YamlConfig_load Y yaml of
       Inl _ \<Rightarrow> Inr (Exit 1)
     | Inr cfg \<Rightarrow>
         res_bind (Gateway_make e file cfg) (\<lambda>w.
         res_bind (gateway_start J post [] w) (\<lambda>(g, w1).
         res_bind (startListen N cfg) (\<lambda>ep.
         res_bind (loop_begin J w1) (\<lambda>w2. Inr (Running (HttpMcp_make w2) ep))))))"

section \<open>grant approve\<close>

text \<open>The files the command changes: the grant file with its modification time, and the audit log.\<close>

record cli_files =
  fs_grants :: "(string list \<times> int) option"
  fs_audit :: "string list"

definition approve_line :: "'j json_api \<Rightarrow> u64 \<Rightarrow> string \<Rightarrow> string \<Rightarrow> string" where
  "approve_line J now agent bump =
     j_dump J (j_obj J [(''ts_ms'', j_uint J now), (''event'', j_str J ''grant_approve''), (''trace_id'', j_str J []),
       (''principal'', j_str J agent), (''level'', j_str J bump), (''tool'', j_str J []), (''server'', j_str J []),
       (''status'', j_str J ''approved'')])"

text \<open>\<open>c0\<close>, \<open>now\<close> and \<open>c1\<close> are the readings of the clock in the first refresh, in the command and in the second
  refresh, \<open>hex\<close> the random part of a new identifier, \<open>mt\<close> the modification time a write gives. The store has no
  worker pool, so it writes at once.\<close>

definition runGrantApprove ::
  "'y yaml_api \<Rightarrow> 'j json_api \<Rightarrow> u64 \<times> u64 \<times> u64 \<Rightarrow> string \<Rightarrow> int \<Rightarrow> string \<Rightarrow> string \<Rightarrow> string \<Rightarrow> string \<Rightarrow> u64 \<Rightarrow> cli_files \<Rightarrow>
   exn + (int \<times> cli_files)" where
  "runGrantApprove Y J clocks hex mt yaml i agent bump ttlOverride fs =
    (let (c0, now, c1) = clocks in
     case YamlConfig_load Y yaml of
       Inl _ \<Rightarrow> Inr (1, fs)
     | Inr cfg \<Rightarrow>
         res_bind (refreshOnWorker J c0 (JsonlGrantStore_make (cf_elevationTtlMs cfg) (fs_grants fs))) (\<lambda>(_, st).
         if i \<noteq> [] then
           res_bind (approveById J False mt c1 i now ttlOverride st) (\<lambda>(ok, st1).
           if \<not> ok then Inr (1, fs)
           else (let (ag, bp) = (case um_find (gs_table st1) i of None \<Rightarrow> (agent, bump) | Some g \<Rightarrow> (gr_agent g, gr_bumpTo g))
                 in Inr (0, \<lparr>fs_grants = gs_file st1, fs_audit = fs_audit fs @ [approve_line J now ag bp]\<rparr>)))
         else
           (case Taxonomy_parse (cf_taxonomy cfg) bump of
              None \<Rightarrow> Inr (1, fs)
            | Some r \<Rightarrow>
                if r > cf_elevationMax cfg then Inr (1, fs)
                else (let (ok, st1) = approveDirect J False mt hex agent r bump now st
                      in if \<not> ok then Inr (1, fs)
                         else Inr (0, \<lparr>fs_grants = gs_file st1, fs_audit = fs_audit fs @ [approve_line J now agent bump]\<rparr>)))))"

section \<open>status\<close>

text \<open>\<open>get ip port headers\<close>: the HTTP client's answer to \<^verbatim>\<open>GET /upstreams\<close>, status and body. The result is the
  exit code and what is printed.\<close>

definition runStatus ::
  "'y yaml_api \<Rightarrow> net_api \<Rightarrow> (string \<Rightarrow> 16 word \<Rightarrow> (string \<times> string) list \<Rightarrow> (int \<times> string) option) \<Rightarrow> string \<Rightarrow> exn + (int \<times> string)" where
  "runStatus Y N get yaml =
    (case YamlConfig_load Y yaml of
       Inl _ \<Rightarrow> Inr (1, [])
     | Inr cfg \<Rightarrow>
         (case adminAgent (YamlIdentityStore_make cfg) of
            None \<Rightarrow> Inr (1, [])
          | Some admin \<Rightarrow>
              res_bind (parseHostPort N (cf_listen cfg)) (\<lambda>ep.
              case get (ep_ip ep) (ep_port ep)
                     [(''Authorization'', ''Bearer '' @ ag_token admin), (''Accept'', ''application/json'')] of
                None \<Rightarrow> Inr (1, [])
              | Some (status, body) \<Rightarrow> Inr (if status = 200 then 0 else 1, body @ [CHR 0x0A]))))"

section \<open>The sub-commands\<close>

text \<open>What CLI11 hands over once it has accepted the arguments, and what the callbacks run; \<open>grant approve\<close>
  without an identifier needs an agent and a level.\<close>

definition approve_callback ::
  "'y yaml_api \<Rightarrow> 'j json_api \<Rightarrow> u64 \<times> u64 \<times> u64 \<Rightarrow> string \<Rightarrow> int \<Rightarrow> string \<Rightarrow> string \<Rightarrow> string \<Rightarrow> string \<Rightarrow> u64 \<Rightarrow> cli_files \<Rightarrow>
   exn + (int \<times> cli_files)" where
  "approve_callback Y J clocks hex mt yaml gid agent bump ttlOverride fs =
     (if gid = [] \<and> (agent = [] \<or> bump = []) then Inr (1, fs)
      else runGrantApprove Y J clocks hex mt yaml gid agent bump ttlOverride fs)"

text \<open>\<^verbatim>\<open>runCli\<close> with CLI11 as the parameter \<open>parse\<close>: the sub-command that its callbacks see, or the code of \<^verbatim>\<open>app.exit\<close>.\<close>

datatype cli_args = CliParseError int | CliServe string | CliApprove string string string string u64 | CliStatus string

datatype ('p, 'j) cli_end = CliServing "('p, 'j) Http" Endpoint | CliExit int cli_files string

definition runCli ::
  "(string list \<Rightarrow> cli_args) \<Rightarrow> 'y yaml_api \<Rightarrow> net_api \<Rightarrow> 'j json_api \<Rightarrow> http_post \<Rightarrow> (string \<Rightarrow> 16 word \<Rightarrow> (string \<times> string) list \<Rightarrow> (int \<times> string) option) \<Rightarrow>
   'j pfun Env \<Rightarrow> u64 \<times> u64 \<times> u64 \<Rightarrow> string \<Rightarrow> int \<Rightarrow> cli_files \<Rightarrow> string list \<Rightarrow> exn + ('p, 'j) cli_end" where
  "runCli parse Y N J post get e clocks hex mt fs argv =
    (case parse argv of
       CliParseError rc \<Rightarrow> Inr (CliExit rc fs [])
     | CliServe yaml \<Rightarrow>
         res_bind (runServe Y N J post e (fs_grants fs) yaml) (\<lambda>r. case r of Exit rc \<Rightarrow> Inr (CliExit rc fs []) | Running h ep \<Rightarrow> Inr (CliServing h ep))
     | CliApprove yaml gid agent bump ttl \<Rightarrow>
         res_bind (approve_callback Y J clocks hex mt yaml gid agent bump ttl fs) (\<lambda>(rc, fs'). Inr (CliExit rc fs' []))
     | CliStatus yaml \<Rightarrow> res_bind (runStatus Y N get yaml) (\<lambda>(rc, out). Inr (CliExit rc fs out)))"

text \<open>Files change only by an approval that succeeds, which adds one line to the audit log: every command that ends with another code than 0, and
  every other command, leaves the grants and the log as they were.\<close>

lemma approve_files:
  "runGrantApprove Y J clocks hex mt yaml i agent bump ttl fs = Inr (rc, fs') \<Longrightarrow> fs' = fs \<or> rc = 0 \<and> (\<exists>line. fs_audit fs' = fs_audit fs @ [line])"
  by (cases clocks) (auto simp: runGrantApprove_def res_bind_def Let_def split: sum.splits option.splits if_splits prod.splits)

theorem command_files:
  assumes "runCli parse Y N J post get e clocks hex mt fs argv = Inr (CliExit rc fs' out)" "fs' \<noteq> fs"
  shows "rc = 0 \<and> (\<exists>yaml gid agent bump ttl. parse argv = CliApprove yaml gid agent bump ttl) \<and> (\<exists>line. fs_audit fs' = fs_audit fs @ [line])"
  using assms
  by (auto simp: runCli_def approve_callback_def res_bind_def split: cli_args.splits sum.splits serve.splits if_splits dest!: approve_files)

section \<open>Decimal numbers\<close>

lemma of_char_digit: "d < 10 \<Longrightarrow> of_char (char_of (48 + d) :: char) = 48 + d" for d :: nat
  by (simp add: of_char_of)

lemma isdigit_char: "d < 10 \<Longrightarrow> isdigit_c (char_of (48 + d))" for d :: nat
  by (simp add: isdigit_c_def of_char_of)

lemma nat_digits_digits: "list_all isdigit_c (nat_digits n)"
proof (induction n rule: nat_digits.induct)
  case (1 n)
  then show ?case
    by (cases "n < 10") (simp_all add: nat_digits_small nat_digits_big isdigit_char)
qed

lemma nat_digits_nonempty: "nat_digits n \<noteq> []"
  by (cases "n < 10") (simp_all add: nat_digits_small nat_digits_big)

lemma of_char_digit_int: "d < 10 \<Longrightarrow> (of_char (char_of (48 + d) :: char) :: int) = 48 + int d" for d :: nat
  using of_char_digit [of d] by (metis of_nat_add of_nat_numeral of_nat_of_char)

lemma digits_value_nat: "digits_value (nat_digits n) = int n"
proof (induction n rule: nat_digits.induct)
  case (1 n)
  have d: "n mod 10 < 10" by simp
  show ?case
    using 1 of_char_digit_int [OF d]
    by (cases "n < 10") (simp_all add: nat_digits_small nat_digits_big digits_value_def of_char_digit_int zdiv_int zmod_int)
qed

lemma digit_not: "isdigit_c c \<Longrightarrow> \<not> isspace_c c \<and> c \<noteq> CHR ''-'' \<and> c \<noteq> CHR ''+'' \<and> c \<noteq> CHR '':''"
  by (auto simp: isdigit_c_def isspace_c_def)

lemma sint_word_of_int_small: "n < 2 ^ 31 \<Longrightarrow> sint (word_of_int (int n) :: 32 word) = int n"
  unfolding sint_sbintrunc' by (simp add: signed_take_bit_int_eq_self)

lemma atoi_digits:
  assumes "n < 2 ^ 31"
  shows "atoi (nat_digits n) = int n"
proof -
  have hd: "isdigit_c (hd (nat_digits n))"
    using nat_digits_digits nat_digits_nonempty by (metis list.set_sel(1) list_all_iff)
  have dw: "dropWhile isspace_c (nat_digits n) = nat_digits n"
    using digit_not [OF hd] by (metis dropWhile_eq_self_iff)
  have tw: "takeWhile isdigit_c (nat_digits n) = nat_digits n"
    using nat_digits_digits [of n] by (simp add: takeWhile_eq_all_conv list_all_iff)
  have "max (- (2 ^ 63)) (min (2 ^ 63 - 1) (int n)) = int n" using assms by simp
  then show ?thesis
    using digit_not [OF hd] sint_word_of_int_small [OF assms] unfolding atoi_def Let_def dw
    by (simp only: tw digits_value_nat if_False simp_thms)
qed

lemma rfind_colon: "x \<notin> set b \<Longrightarrow> sv_rfind_char x (a @ x # b) = Some (length a)"
proof (induction a)
  case Nil
  then show ?case by (simp add: sv_rfind_char_None [THEN iffD2])
qed simp


definition sample_net :: net_api where
  "sample_net = \<lparr>os_is_ipv4 = (\<lambda>h. h = ''127.0.0.1''), os_lookup = (\<lambda>_. None)\<rparr>"


section \<open>The commands\<close>

lemma port_nonzero: "\<not> p \<le> 0 \<Longrightarrow> \<not> 65535 < p \<Longrightarrow> (word_of_int p :: 16 word) \<noteq> 0"
  by (auto simp: word_of_int_eq_0_iff dest: zdvd_imp_le)

lemma parseHostPort_tcp: "parseHostPort N spec = Inr ep \<Longrightarrow> ep_family ep = Tcp \<and> ep_port ep \<noteq> 0"
  by (auto simp: parseHostPort_def Let_def res_bind_Inr Endpoint_make_def port_nonzero split: option.splits if_splits)

text \<open>C7: a gateway that \<^verbatim>\<open>perfacet serve\<close> has started runs with the valid configuration of its file, in an initial
  state of the HTTP state machine, and listens on a port other than 0.\<close>

theorem serve_starts_valid:
  assumes "runServe Y N J post e file yaml = Inr (Running h ep)" "env_loop e = EventLoop_init"
  shows "http_reach L J h \<and> YamlConfig_load Y yaml = Inr (w_cfg (hm_world h)) \<and> config_ok (w_cfg (hm_world h)) \<and>
    hm_identity h = YamlIdentityStore_make (w_cfg (hm_world h)) \<and> ep_port ep \<noteq> 0"
proof -
  obtain cfg where ld: "YamlConfig_load Y yaml = Inr cfg" using assms(1) by (auto simp: runServe_def split: sum.splits)
  obtain w g w1 w2 where r: "Gateway_make e file cfg = Inr w" "gateway_start J post [] w = Inr (g, w1)"
    "startListen N cfg = Inr ep" "loop_begin J w1 = Inr w2" "h = HttpMcp_make w2"
    using assms(1) ld by (auto simp: runServe_def res_bind_Inr)
  have "boot J post e file cfg = Inr w2" using r by (simp add: boot_def)
  then have i: "gw_init w2" "w_cfg w2 = cfg" using boot_steps [OF assms(2) r(1,2)] by simp_all
  then show ?thesis
    using http_reach.start [OF i(1)] ld config_loaded_ok [OF ld] parseHostPort_tcp [of N "cf_listen cfg" ep] r(3,5)
    by (simp add: HttpMcp_make_def startListen_def)
qed



section \<open>A start and an approval\<close>

lemma failed_probe_ok:
  assumes "r_isError r"
  shows "\<exists>w'. onProbe J nm l r w = Inr w'"
  using assms by (simp add: onProbe_def applyResult_def onHealth_def onProbeResult_def Let_def split_beta)

lemma sample_call_fails: "r_isError (fst (callBlocking J sample_post be t0 t1 t2 t3 bc g))"
  by (simp add: callBlocking_def keepAlivePost_def sample_post_def upstreamAnswer_def Let_def split_beta)

lemma sample_probe: "\<exists>g' w'. probeBlocking J sample_post nm be g w = Inr (g', w')"
proof -
  let ?r = "\<lambda>c0 c1 c2 c3 bc. callBlocking J sample_post be c0 c1 c2 c3 bc g"
  have "\<exists>w'. onProbe J nm l (fst (?r c0 c1 c2 c3 bc)) w7 = Inr w'" for l c0 c1 c2 c3 bc and w7 :: "'a World"
    by (rule failed_probe_ok [OF sample_call_fails])
  then show ?thesis unfolding probeBlocking_def Let_def split_beta by (metis (no_types, lifting) sum.case(2))
qed

lemma sample_probes: "\<exists>g' w'. probeAllBlocking J sample_post nms g w = Inr (g', w')"
proof (induction nms arbitrary: g w)
  case (Cons nm nms)
  show ?case
  proof (cases "Catalog_backend (w_catalog w) nm")
    case (Some be)
    obtain g1 w1 where "probeBlocking J sample_post nm be g w = Inr (g1, w1)" using sample_probe by blast
    then show ?thesis using Cons.IH [of g1 w1] Some by simp
  qed (simp add: Cons.IH)
qed simp

lemma sample_gateway: "\<exists>w. Gateway_make sample_env None sample_loaded = Inr w \<and> w_grants w = JsonlGrantStore_make 900000 None"
proof -
  have "\<not> isl (HttpMcpBackend_make ''http://127.0.0.1:9101/mcp'')" by code_simp
  then show ?thesis
    by (auto simp: Gateway_make_def sample_loaded_def YamlConfig_default_def Catalog_add_def isl_def split: sum.splits)
qed

lemma sample_serve:
  "\<exists>h. runServe (yv_api sample_doc) sample_net jv_api sample_post sample_env None ''perfacet.yaml'' =
     Inr (Running h (Endpoint_make ''127.0.0.1'' 9000))"
proof -
  obtain w where w: "Gateway_make sample_env None sample_loaded = Inr w" "w_grants w = JsonlGrantStore_make 900000 None"
    using sample_gateway by blast
  then have "\<exists>w0. grants_refresh jv_api w = Inr w0"
    by (simp add: grants_refresh_def refreshOnWorker_def nowMs_def JsonlGrantStore_make_def)
  then obtain w0 where w0: "grants_refresh jv_api w = Inr w0" ..
  obtain g wp where wp: "probeAllBlocking jv_api sample_post (Catalog_names (w_catalog w0)) [] w0 = Inr (g, wp)"
    using sample_probes by blast
  obtain w1 where w1: "gateway_start jv_api sample_post [] w = Inr (g, w1)"
    by (simp add: gateway_start_def w0 wp Let_def split_beta)
  have e: "env_loop sample_env = EventLoop_init" by (simp add: sample_env_def)
  obtain w2 where "loop_begin jv_api w1 = Inr w2" using boot_steps [OF e w(1) w1] w(1) w1 by (auto simp: boot_def)
  moreover have "startListen sample_net sample_loaded = Inr (Endpoint_make ''127.0.0.1'' 9000)" by code_simp
  ultimately show ?thesis using w(1) w1 by (simp add: runServe_def sample_load)
qed

theorem serve_starts_valid_witness:
  "\<exists>h :: (unit, jv) Http. runServe (yv_api sample_doc) sample_net jv_api sample_post sample_env None ''perfacet.yaml'' =
     Inr (Running h (Endpoint_make ''127.0.0.1'' 9000)) \<and> w_cfg (hm_world h) = sample_loaded"
proof -
  obtain h :: "(unit, jv) Http" where h: "runServe (yv_api sample_doc) sample_net jv_api sample_post sample_env None ''perfacet.yaml'' =
     Inr (Running h (Endpoint_make ''127.0.0.1'' 9000))" using sample_serve by blast
  have "env_loop sample_env = EventLoop_init" by (simp add: sample_env_def)
  then show ?thesis using serve_starts_valid [OF h, of undefined] h by (auto simp: sample_load)
qed

definition sample_approval :: GrantRecord where
  "sample_approval = \<lparr>gr_id = ''g_ab'', gr_agent = ''bot'', gr_bumpTo = ''high'', gr_rank = 1, gr_status = ''approved'',
     gr_expiresAt = 900100, gr_tsMs = 100\<rparr>"

definition jv_approval :: "jv json_api" where
  "jv_approval = jv_api\<lparr>j_parse := (\<lambda>txt. if txt = jv_dump (grant_json jv_api sample_approval) then Some (grant_json jv_api sample_approval) else None)\<rparr>"

lemma sample_approval_keeps: "json_keeps jv_approval sample_approval"
  by (simp add: json_keeps_def jv_approval_def grant_json_def sample_approval_def jv_api_def jv_contains_def jv_at_def)


end
