(* ===== verification/Server.thy ===== *)
theory Server
  imports Connection Event_Loop
begin

text \<open>
  The loop around the connections: channels and their event masks (\<^verbatim>\<open>netlib/src/Channel.cpp\<close>), the
  interest list of the poller (\<^verbatim>\<open>netlib/src/Epoll.cpp\<close>), the time-outs of the loop and its flush callbacks
  (\<^verbatim>\<open>netlib/src/EventLoop.cpp\<close>), the acceptor (\<^verbatim>\<open>netlib/src/Acceptor.cpp\<close>) and the table of connections
  (\<^verbatim>\<open>netlib/src/TcpServer.cpp\<close>) as the gateway uses it, with all connections on the main loop. The kernel's
  answers are inputs. Lemmas: the interest list mirrors the channels; no connection that is not closed
  is missing from the table, although descriptors are used again; what stopping the server loses.
\<close>

section \<open>Channels (Channel.h, Channel.cpp)\<close>

unbundle bit_operations_syntax

type_synonym u32 = "32 word"

definition kEPOLLIN :: u32 where "kEPOLLIN = 0x1"
definition kEPOLLOUT :: u32 where "kEPOLLOUT = 0x4"
definition kEPOLLERR :: u32 where "kEPOLLERR = 0x8"
definition kEPOLLHUP :: u32 where "kEPOLLHUP = 0x10"
definition kEPOLLRDHUP :: u32 where "kEPOLLRDHUP = 0x2000"
definition kEPOLLET :: u32 where "kEPOLLET = 0x80000000"

lemmas epoll_bits = kEPOLLIN_def kEPOLLOUT_def kEPOLLERR_def kEPOLLHUP_def kEPOLLRDHUP_def kEPOLLET_def

text \<open>A callback is either set or null; \<open>ch_alive\<close> is whether \<^verbatim>\<open>tie_.lock()\<close> gives the owner.\<close>

record Channel =
  ch_fd :: nat
  ch_events :: u32
  ch_revents :: u32
  ch_inEpoll :: bool
  ch_readCb :: bool
  ch_writeCb :: bool
  ch_errorCb :: bool
  ch_tied :: bool
  ch_alive :: bool

definition Channel_make :: "nat \<Rightarrow> Channel" where
  "Channel_make fd = \<lparr>ch_fd = fd, ch_events = 0, ch_revents = 0, ch_inEpoll = False, ch_readCb = False, ch_writeCb = False,
     ch_errorCb = False, ch_tied = False, ch_alive = True\<rparr>"

text \<open>\<open>chan\<close> reads the channel in the state the callbacks work on: a callback may have removed the others.\<close>

definition handleEvent :: "('s \<Rightarrow> Channel) \<Rightarrow> ('s \<Rightarrow> 's) \<Rightarrow> ('s \<Rightarrow> 's) \<Rightarrow> ('s \<Rightarrow> 's) \<Rightarrow> 's \<Rightarrow> 's" where
  "handleEvent chan errorCb readCb writeCb s =
     (if ch_tied (chan s) \<and> \<not> ch_alive (chan s) then s
      else if ch_revents (chan s) AND (kEPOLLERR OR kEPOLLHUP) \<noteq> 0 then
        (if ch_errorCb (chan s) then errorCb s else s)
      else
        (let s1 = (if ch_revents (chan s) AND (kEPOLLRDHUP OR kEPOLLIN) \<noteq> 0 \<and> ch_readCb (chan s) then readCb s else s)
         in if ch_revents (chan s1) AND kEPOLLOUT \<noteq> 0 \<and> ch_writeCb (chan s1) then writeCb s1 else s1))"

section \<open>The poller (Epoll.cpp)\<close>

text \<open>The interest list of the kernel: the events registered for a descriptor. \<open>ok\<close>: the kernel
  has the memory for a new entry; a second registration and a change of a missing one fail.\<close>

type_synonym interest = "(nat, u32) umap"

definition ctl_add :: "bool \<Rightarrow> nat \<Rightarrow> u32 \<Rightarrow> interest \<Rightarrow> interest option" where
  "ctl_add ok fd ev k = (if ok \<and> um_find k fd = None then Some (um_set fd ev k) else None)"

definition ctl_mod :: "nat \<Rightarrow> u32 \<Rightarrow> interest \<Rightarrow> interest option" where
  "ctl_mod fd ev k = (if um_find k fd \<noteq> None then Some (um_set fd ev k) else None)"

definition ctl_del :: "nat \<Rightarrow> interest \<Rightarrow> interest option" where
  "ctl_del fd k = (if um_find k fd \<noteq> None then Some (um_erase fd k) else None)"

definition updateChannel :: "bool \<Rightarrow> Channel \<Rightarrow> interest \<Rightarrow> Channel \<times> interest" where
  "updateChannel ok ch k =
     (if \<not> ch_inEpoll ch then
        (case ctl_add ok (ch_fd ch) (ch_events ch) k of
           None \<Rightarrow> (ch, k)
         | Some k' \<Rightarrow> (ch\<lparr>ch_inEpoll := True\<rparr>, k'))
      else (ch, case ctl_mod (ch_fd ch) (ch_events ch) k of None \<Rightarrow> k | Some k' \<Rightarrow> k'))"

definition removeChannel :: "Channel \<Rightarrow> interest \<Rightarrow> Channel \<times> interest" where
  "removeChannel ch k =
     (if ch_inEpoll ch then
        (ch\<lparr>ch_inEpoll := False\<rparr>, case ctl_del (ch_fd ch) k of None \<Rightarrow> k | Some k' \<Rightarrow> k')
      else (ch, k))"

definition enableReadingET :: "bool \<Rightarrow> Channel \<Rightarrow> interest \<Rightarrow> Channel \<times> interest" where
  "enableReadingET ok ch = updateChannel ok (ch\<lparr>ch_events := ch_events ch OR (kEPOLLIN OR kEPOLLET OR kEPOLLRDHUP)\<rparr>)"

definition enableReadingLT :: "bool \<Rightarrow> Channel \<Rightarrow> interest \<Rightarrow> Channel \<times> interest" where
  "enableReadingLT ok ch = updateChannel ok (ch\<lparr>ch_events := ch_events ch OR (kEPOLLIN OR kEPOLLRDHUP)\<rparr>)"

definition enableWriting :: "bool \<Rightarrow> Channel \<Rightarrow> interest \<Rightarrow> Channel \<times> interest" where
  "enableWriting ok ch = updateChannel ok (ch\<lparr>ch_events := ch_events ch OR kEPOLLOUT\<rparr>)"

definition disableWriting :: "bool \<Rightarrow> Channel \<Rightarrow> interest \<Rightarrow> Channel \<times> interest" where
  "disableWriting ok ch = updateChannel ok (ch\<lparr>ch_events := ch_events ch AND NOT kEPOLLOUT\<rparr>)"

definition disableAll :: "bool \<Rightarrow> Channel \<Rightarrow> interest \<Rightarrow> Channel \<times> interest" where
  "disableAll ok ch = updateChannel ok (ch\<lparr>ch_events := 0\<rparr>)"

text \<open>\<^verbatim>\<open>Epoll::poll\<close>: the size of the event array, and the ready descriptors with their events.
  A negative result other than \<^verbatim>\<open>EINTR\<close> gives no event; a full array is doubled for the next call.\<close>

definition epoll_grow :: "nat \<Rightarrow> (nat \<times> u32) list \<Rightarrow> nat" where
  "epoll_grow cap ready = (if length ready = cap then cap * 2 else cap)"

fun epoll_poll :: "(int + (nat \<times> u32) list) list \<Rightarrow> nat \<Rightarrow> ((nat \<times> u32) list \<times> nat) option" where
  "epoll_poll [] cap = None"
| "epoll_poll (Inl e # rs) cap = (if e = kEINTR then epoll_poll rs cap else Some ([], cap))"
| "epoll_poll (Inr ready # rs) cap = Some (ready, epoll_grow cap ready)"

section \<open>Time-outs and flushing (EventLoop.cpp)\<close>

text \<open>Times are nanoseconds of the steady clock; the quotient is truncated towards zero and the result is
  a 32-bit \<^verbatim>\<open>int\<close>.\<close>

definition nextTimeoutMs :: "int \<Rightarrow> ('cb, 'p) EventLoop \<Rightarrow> int" where
  "nextTimeoutMs now el =
     (if el_timers el = [] then -1
      else (let ns = Min (tm_when ` set (el_timers el)) - now;
                ms = (if ns < 0 then - ((- ns) div 1000000) else ns div 1000000);
                ms' = (if ms < 0 then 0 else ms)
            in sint (word_of_int ms' :: 32 word)))"

text \<open>The nanoseconds \<^verbatim>\<open>resetTimerfd\<close> arms the timer descriptor with; 0 disarms it.\<close>

definition resetTimerfd :: "int \<Rightarrow> ('cb, 'p) EventLoop \<Rightarrow> int" where
  "resetTimerfd now el =
     (if el_timers el = [] then 0 else max 1 (Min (tm_when ` set (el_timers el)) - now))"

text \<open>The flush callbacks; \<open>fn\<close> gives what it registers. An entry is the identifier of its owner.\<close>

definition registerFlush :: "nat \<Rightarrow> nat list \<Rightarrow> nat list" where
  "registerFlush owner fl = fl @ [owner]"

fun flush_entries :: "('s \<Rightarrow> nat \<Rightarrow> bool) \<Rightarrow> (nat \<Rightarrow> 's \<Rightarrow> nat list \<times> 's) \<Rightarrow> nat list \<Rightarrow> nat list \<times> 's \<Rightarrow> nat list \<times> 's" where
  "flush_entries alive fn [] st = st"
| "flush_entries alive fn (e # es) (fl, s) =
     (if alive s e
      then (let (reg, s1) = fn e s in flush_entries alive fn es (fold registerFlush reg fl @ [e], s1))
      else flush_entries alive fn es (fl, s))"

definition flushAll :: "('s \<Rightarrow> nat \<Rightarrow> bool) \<Rightarrow> (nat \<Rightarrow> 's \<Rightarrow> nat list \<times> 's) \<Rightarrow> nat list \<times> 's \<Rightarrow> nat list \<times> 's" where
  "flushAll alive fn st = flush_entries alive fn (fst st) ([], snd st)"

section \<open>The table of connections (TcpServer.cpp, Acceptor.cpp)\<close>

text \<open>A connection object is named by a number that is never used again and has the descriptor of its
  socket. \<open>sv_removes\<close>: the queued functions of \<^verbatim>\<open>removeConnection\<close>; each of them, like the table, keeps its
  object alive. \<open>sv_idleFd\<close>: whether the acceptor has its spare descriptor.\<close>

record Server =
  sv_started :: bool
  sv_accepting :: bool
  sv_idleFd :: bool
  sv_table :: "(nat, nat) umap"
  sv_objs :: "(nat, nat \<times> Conn) umap"
  sv_removes :: "nat list"
  sv_next :: nat

definition TcpServer_make :: "bool \<Rightarrow> Server" where
  "TcpServer_make spare = \<lparr>sv_started = False, sv_accepting = True, sv_idleFd = spare, sv_table = [], sv_objs = [],
     sv_removes = [], sv_next = 0\<rparr>"

definition server_start :: "Server \<Rightarrow> Server" where
  "server_start s = s\<lparr>sv_started := True\<rparr>"

definition pauseAccept :: "Server \<Rightarrow> Server" where
  "pauseAccept s = (if sv_started s then s\<lparr>sv_accepting := False\<rparr> else s)"

text \<open>\<^verbatim>\<open>emplace\<close> does not replace an entry; the object of a connection that is not in the table dies with the
  function that made it.\<close>

definition newConnection :: "nat \<Rightarrow> Server \<Rightarrow> Server" where
  "newConnection fd s =
     (if \<not> sv_started s then s
      else if um_find (sv_table s) fd \<noteq> None then s\<lparr>sv_next := Suc (sv_next s)\<rparr>
      else s\<lparr>sv_table := um_set fd (sv_next s) (sv_table s),
             sv_objs := um_set (sv_next s) (fd, attachToLoop TcpConnection_make) (sv_objs s),
             sv_next := Suc (sv_next s)\<rparr>)"

definition kEMFILE :: int where "kEMFILE = 24"
definition kENFILE :: int where "kENFILE = 23"
definition kECONNABORTED :: int where "kECONNABORTED = 103"

text \<open>\<^verbatim>\<open>Socket::accept\<close>: \<^verbatim>\<open>accept4\<close> in its \<^verbatim>\<open>EINTR\<close> loop; a result is an error or a descriptor.\<close>

fun sys_accept :: "(int + nat) list \<Rightarrow> ((int + nat) \<times> (int + nat) list) option" where
  "sys_accept [] = None"
| "sys_accept (r # rs) = (if r = Inl kEINTR then sys_accept rs else Some (r, rs))"

lemma sys_accept_shorter: "sys_accept rs = Some (r, rs') \<Longrightarrow> length rs' < length rs"
  by (induction rs) (auto split: if_splits)

text \<open>\<open>opens\<close>: whether the spare descriptor can be opened again.\<close>

function acceptConnection :: "(int + nat) list \<Rightarrow> bool list \<Rightarrow> Server \<Rightarrow> Server option" where
  "acceptConnection rs opens s =
     (case sys_accept rs of
        None \<Rightarrow> None
      | Some (Inr fd, rs1) \<Rightarrow> acceptConnection rs1 opens (newConnection fd s)
      | Some (Inl e, rs1) \<Rightarrow>
          if e = kEAGAIN then Some s
          else if (e = kEMFILE \<or> e = kENFILE) \<and> sv_idleFd s then
            (case (sys_accept rs1, opens) of
               (Some (_, rs2), opened # os) \<Rightarrow> acceptConnection rs2 os (s\<lparr>sv_idleFd := opened\<rparr>)
             | _ \<Rightarrow> None)
          else Some s)"
  by pat_completeness auto
termination
  by (relation "measure (\<lambda>(rs, opens, s). length rs)") (auto dest!: sys_accept_shorter sys_accept_shorter [OF sym])

declare acceptConnection.simps [simp del]

text \<open>A step of a connection; when it calls its close callback, \<^verbatim>\<open>removeConnection\<close> is queued.\<close>

definition removeConnection :: "nat \<Rightarrow> Server \<Rightarrow> Server" where
  "removeConnection i s = s\<lparr>sv_removes := sv_removes s @ [i]\<rparr>"

definition closes :: "Conn \<Rightarrow> nat" where
  "closes c = length (filter (\<lambda>e. e = EClose) (co_events c))"

definition put_conn :: "nat \<Rightarrow> Conn \<Rightarrow> Server \<Rightarrow> Server" where
  "put_conn i c' s =
     (case um_find (sv_objs s) i of
        None \<Rightarrow> s
      | Some (fd, c) \<Rightarrow>
          (removeConnection i ^^ (closes c' - closes c)) (s\<lparr>sv_objs := um_set i (fd, c') (sv_objs s)\<rparr>))"

definition run_remove :: "Server \<Rightarrow> Server" where
  "run_remove s =
     (case sv_removes s of
        [] \<Rightarrow> s
      | i # is \<Rightarrow>
          (case um_find (sv_objs s) i of
             None \<Rightarrow> s\<lparr>sv_removes := is\<rparr>
           | Some (fd, c) \<Rightarrow>
               s\<lparr>sv_removes := is, sv_table := (if um_find (sv_table s) fd = Some i then um_erase fd (sv_table s) else sv_table s)\<rparr>))"

text \<open>\<^verbatim>\<open>stop\<close>: the table is emptied, every connection in it is closed by \<^verbatim>\<open>forceClose\<close>, and then its object dies
  unless a queued function, a posted close or somebody else (\<open>held\<close>) still has it. \<open>inLoop\<close>: the loop is running.\<close>

definition close_conns :: "bool \<Rightarrow> nat list \<Rightarrow> Server \<Rightarrow> Server" where
  "close_conns inLoop is s =
     fold (\<lambda>i s. case um_find (sv_objs s) i of None \<Rightarrow> s | Some (fd, c) \<Rightarrow> put_conn i (forceClose inLoop c) s) is s"

definition unowned :: "nat list \<Rightarrow> Server \<Rightarrow> nat \<Rightarrow> bool" where
  "unowned held s i \<longleftrightarrow> i \<notin> set (sv_removes s) \<and> i \<notin> set held \<and>
     (case um_find (sv_objs s) i of None \<Rightarrow> True | Some (fd, c) \<Rightarrow> co_posted c = [])"

definition server_stop :: "bool \<Rightarrow> nat list \<Rightarrow> Server \<Rightarrow> Server" where
  "server_stop inLoop held s =
     (if \<not> sv_started s then s
      else (let ids = map snd (sv_table s);
                s1 = close_conns inLoop ids (s\<lparr>sv_started := False, sv_table := []\<rparr>)
            in s1\<lparr>sv_objs := fold um_erase (filter (unowned held s1) ids) (sv_objs s1)\<rparr>))"

section \<open>The interest list mirrors the channels\<close>

definition mirrored :: "Channel \<Rightarrow> interest \<Rightarrow> bool" where
  "mirrored ch k \<longleftrightarrow> um_find k (ch_fd ch) = (if ch_inEpoll ch then Some (ch_events ch) else None)"

lemma updateChannel_mirrored:
  assumes "mirrored (ch\<lparr>ch_events := old\<rparr>) k" "updateChannel ok ch k = (ch', k')" "ok \<or> ch_inEpoll ch"
  shows "mirrored ch' k' \<and> ch_inEpoll ch' \<and> ch_events ch' = ch_events ch \<and> ch_fd ch' = ch_fd ch \<and>
    (\<forall>fd. fd \<noteq> ch_fd ch \<longrightarrow> um_find k' fd = um_find k fd)"
  using assms by (auto simp: mirrored_def updateChannel_def ctl_add_def ctl_mod_def um_find_set split: if_splits)

lemma removeChannel_mirrored:
  assumes "mirrored ch k" "removeChannel ch k = (ch', k')"
  shows "mirrored ch' k' \<and> um_find k' (ch_fd ch) = None \<and> (\<forall>fd. fd \<noteq> ch_fd ch \<longrightarrow> um_find k' fd = um_find k fd)"
  using assms by (auto simp: mirrored_def removeChannel_def ctl_del_def um_find_erase split: if_splits)

section \<open>Runs of the server\<close>

inductive conn_step :: "Conn \<Rightarrow> Conn \<Rightarrow> bool" where
  send: "conn_send inLoop rs data c = Some (c', rs') \<Longrightarrow> conn_step c c'"
| send_buffer: "conn_sendBuffer inLoop rs buf c = Some (c', rs') \<Longrightarrow> conn_step c c'"
| posted: "run_posted rs c = Some (c', rs') \<Longrightarrow> conn_step c c'"
| reads: "conn_step c (c\<lparr>co_input := b\<rparr>)"
| writable: "handleWrite rs c = Some c' \<Longrightarrow> conn_step c c'"
| hangup: "conn_step c (handleClose c)"
| failed: "conn_step c (handleError c)"
| shutdown: "conn_step c (conn_shutdown inLoop c)"
| force: "conn_step c (forceClose inLoop c)"
| frame: "conn_step c (queueFrame f c)"
| flush: "flushQueued rs c = Some c' \<Longrightarrow> conn_step c c'"

text \<open>The kernel gives an accepted connection a descriptor that no socket still open has.\<close>

definition free_fd :: "nat \<Rightarrow> Server \<Rightarrow> bool" where
  "free_fd fd s \<longleftrightarrow> fd \<notin> (fst \<circ> snd) ` set (sv_objs s)"

inductive server_reach :: "Server \<Rightarrow> bool" where
  start: "server_reach (server_start (TcpServer_make spare))"
| accept: "server_reach s \<Longrightarrow> free_fd fd s \<Longrightarrow> server_reach (newConnection fd s)"
| step: "server_reach s \<Longrightarrow> um_find (sv_objs s) i = Some (fd, c) \<Longrightarrow> conn_step c c' \<Longrightarrow> server_reach (put_conn i c' s)"
| remove: "server_reach s \<Longrightarrow> server_reach (run_remove s)"
| release: "server_reach s \<Longrightarrow> i \<notin> snd ` set (sv_table s) \<Longrightarrow> i \<notin> set (sv_removes s) \<Longrightarrow>
    server_reach (s\<lparr>sv_objs := um_erase i (sv_objs s)\<rparr>)"
| pause: "server_reach s \<Longrightarrow> server_reach (pauseAccept s)"

subsection \<open>The close callback\<close>

lemma closes_event: "closes (conn_event e c) = closes c + (if e = EClose then 1 else 0)"
  by (simp add: closes_def conn_event_def)

lemma closes_fields [simp]:
  "closes (c\<lparr>co_state := v1\<rparr>) = closes c" "closes (c\<lparr>co_input := v2\<rparr>) = closes c" "closes (c\<lparr>co_output := v2\<rparr>) = closes c"
  "closes (c\<lparr>co_writing := v3\<rparr>) = closes c" "closes (c\<lparr>co_outQueue := v4\<rparr>) = closes c" "closes (c\<lparr>co_outQueueBytes := v5\<rparr>) = closes c"
  "closes (c\<lparr>co_chRead := v3\<rparr>) = closes c" "closes (c\<lparr>co_chWrite := v3\<rparr>) = closes c" "closes (c\<lparr>co_wire := v6\<rparr>) = closes c"
  "closes (c\<lparr>co_posted := v7\<rparr>) = closes c"
  by (simp_all add: closes_def)

lemma closes_handleClose: "closes c \<le> closes (handleClose c)"
  by (simp add: handleClose_def closes_event)

lemma closes_closeInLoop: "closes c \<le> closes (closeInLoop c)"
  using closes_handleClose [of c] by (simp add: closeInLoop_def)

lemma closes_runClose: "closes c \<le> closes (runClose b c)"
  using closes_closeInLoop [of c] by (simp add: runClose_def)

lemma closes_startWriting [simp]: "closes (startWriting c) = closes c"
  by (simp add: startWriting_def)

lemma closes_send_rest [simp]: "closes (send_rest buf n c) = closes c"
  by (simp add: send_rest_def closes_event)

lemma closes_sendBuffer: "sendBufferInLoop rs buf c = Some (c', rs') \<Longrightarrow> closes c' = closes c"
  by (auto simp: sendBufferInLoop_def split: if_splits option.splits sum.splits)

lemma closes_send: "conn_send b rs data c = Some (c', rs') \<Longrightarrow> closes c' = closes c"
  by (auto simp: conn_send_def sendInLoop_def closes_sendBuffer split: if_splits)

lemma closes_sendBuf: "conn_sendBuffer b rs buf c = Some (c', rs') \<Longrightarrow> closes c' = closes c"
  by (auto simp: conn_sendBuffer_def closes_sendBuffer split: if_splits)

lemma closes_posted: "run_posted rs c = Some (c', rs') \<Longrightarrow> closes c \<le> closes c'"
proof -
  assume r: "run_posted rs c = Some (c', rs')"
  have "closes c \<le> closes (closeInLoop (c\<lparr>co_posted := ps\<rparr>))" for ps
    using closes_closeInLoop [of "c\<lparr>co_posted := ps\<rparr>"] by simp
  then show ?thesis
    using r by (auto simp: run_posted_def sendInLoop_def dest!: closes_sendBuffer split: list.splits conn_post.splits)
qed

lemma closes_write_loop: "write_loop rs c = Some (b, c') \<Longrightarrow> closes c' = closes c"
  by (induction rs c rule: write_loop.induct) (auto split: if_splits)

lemma closes_handleWrite: "handleWrite rs c = Some c' \<Longrightarrow> closes c \<le> closes c'"
proof -
  assume r: "handleWrite rs c = Some c'"
  have "closes c \<le> closes (closeInLoop (d\<lparr>co_writing := False, co_chWrite := False\<rparr>))" if "closes d = closes c" for d
    using closes_closeInLoop [of "d\<lparr>co_writing := False, co_chWrite := False\<rparr>"] that by simp
  then show ?thesis
    using r by (auto simp: handleWrite_def Let_def closes_event split: if_splits option.splits prod.splits bool.splits
        dest!: closes_write_loop)
qed

lemma closes_flush: "flushQueued rs c = Some c' \<Longrightarrow> closes c \<le> closes c'"
  by (auto simp: flushQueued_def Let_def closes_handleClose split: if_splits option.splits sum.splits prod.splits)

lemma conn_step_closes: "conn_step c c' \<Longrightarrow> closes c \<le> closes c'"
proof (induction rule: conn_step.induct)
  case (shutdown c b)
  show ?case using closes_runClose [of "c\<lparr>co_state := kDisconnecting\<rparr>" b] by (simp add: conn_shutdown_def)
next
  case (force c b)
  show ?case using closes_runClose [of "c\<lparr>co_state := kDisconnecting\<rparr>" b] by (simp add: forceClose_def)
qed (auto simp: closes_handleClose handleError_def queueFrame_def dest: closes_send closes_sendBuf closes_posted closes_handleWrite closes_flush)

subsection \<open>The table\<close>

text \<open>The invariant over the functions behind the maps: \<open>T\<close> the table, \<open>D\<close> the descriptor of every object that
  exists, \<open>Op\<close> the connections that have not been closed, \<open>R\<close> the queued removals, \<open>n\<close> the next number.\<close>

definition table_ok :: "(nat \<Rightarrow> nat option) \<Rightarrow> (nat \<Rightarrow> nat option) \<Rightarrow> nat set \<Rightarrow> nat set \<Rightarrow> nat \<Rightarrow> bool" where
  "table_ok T D Op R n \<longleftrightarrow>
     (\<forall>fd i. T fd = Some i \<longrightarrow> D i = Some fd) \<and> (\<forall>i fd. D i = Some fd \<longrightarrow> i < n \<and> (i \<in> Op \<longrightarrow> T fd = Some i)) \<and>
     (\<forall>i j fd. D i = Some fd \<longrightarrow> D j = Some fd \<longrightarrow> i = j) \<and> (\<forall>i \<in> R. \<exists>fd. D i = Some fd) \<and> (\<forall>i \<in> Op. \<exists>fd. D i = Some fd) \<and>
     (\<forall>i \<in> R. i \<notin> Op)"

definition fd_of :: "Server \<Rightarrow> nat \<Rightarrow> nat option" where
  "fd_of s i = map_option fst (um_find (sv_objs s) i)"

definition not_closed :: "Server \<Rightarrow> nat set" where
  "not_closed s = {i. \<exists>fd c. um_find (sv_objs s) i = Some (fd, c) \<and> closes c = 0}"

definition server_inv :: "Server \<Rightarrow> bool" where
  "server_inv s \<longleftrightarrow> sv_started s \<and> table_ok (um_find (sv_table s)) (fd_of s) (not_closed s) (set (sv_removes s)) (sv_next s)"

lemma table_okI:
  assumes "\<And>fd i. T fd = Some i \<Longrightarrow> D i = Some fd" "\<And>i fd. D i = Some fd \<Longrightarrow> i < n"
    "\<And>i fd. D i = Some fd \<Longrightarrow> i \<in> Op \<Longrightarrow> T fd = Some i" "\<And>i j fd. D i = Some fd \<Longrightarrow> D j = Some fd \<Longrightarrow> i = j"
    "\<And>i. i \<in> R \<Longrightarrow> \<exists>fd. D i = Some fd" "\<And>i. i \<in> Op \<Longrightarrow> \<exists>fd. D i = Some fd"
    "\<And>i. i \<in> R \<Longrightarrow> i \<notin> Op"
  shows "table_ok T D Op R n"
  unfolding table_ok_def by (intro conjI allI impI ballI) (rule assms; assumption)+

lemma table_okD:
  assumes "table_ok T D Op R n"
  shows "T fd = Some i \<Longrightarrow> D i = Some fd" "D i = Some fd \<Longrightarrow> i < n" "D i = Some fd \<Longrightarrow> i \<in> Op \<Longrightarrow> T fd = Some i"
    "D i = Some fd \<Longrightarrow> D j = Some fd \<Longrightarrow> i = j" "i \<in> R \<Longrightarrow> \<exists>fd. D i = Some fd" "i \<in> Op \<Longrightarrow> \<exists>fd. D i = Some fd"
    "i \<in> R \<Longrightarrow> i \<notin> Op"
  using assms unfolding table_ok_def by (blast, blast, blast, blast, blast, blast, blast)

lemma table_ok_new:
  assumes ok: "table_ok T D Op R n" and free: "\<And>i. D i \<noteq> Some fd"
  shows "T fd = None" "table_ok (T(fd \<mapsto> n)) (D(n \<mapsto> fd)) (insert n Op) R (Suc n)"
proof -
  note d = table_okD [OF ok]
  show t: "T fd = None" using d(1) free by (metis not_None_eq)
  have n: "D n = None" using d(2) by (metis less_irrefl not_None_eq)
  show "table_ok (T(fd \<mapsto> n)) (D(n \<mapsto> fd)) (insert n Op) R (Suc n)"
  proof (rule table_okI)
    fix fd' i assume "(T(fd \<mapsto> n)) fd' = Some i"
    then show "(D(n \<mapsto> fd)) i = Some fd'" using d(1) n by (cases "fd' = fd") (simp, metis fun_upd_apply option.distinct(1))
  next
    fix fd' i assume "(D(n \<mapsto> fd)) i = Some fd'"
    then show "i < Suc n" using d(2) by (metis fun_upd_apply less_Suc_eq)
  next
    fix fd' i assume "(D(n \<mapsto> fd)) i = Some fd'" "i \<in> insert n Op"
    then show "(T(fd \<mapsto> n)) fd' = Some i" using d(3) free by (cases "i = n") (simp, metis fun_upd_apply insertE)
  next
    fix fd' i j assume "(D(n \<mapsto> fd)) i = Some fd'" "(D(n \<mapsto> fd)) j = Some fd'"
    then show "i = j" using d(4) free by (metis fun_upd_apply option.inject)
  next
    fix i assume "i \<in> R" then show "\<exists>fd'. (D(n \<mapsto> fd)) i = Some fd'" using d(5) by (metis fun_upd_apply)
  next
    fix i assume "i \<in> insert n Op" then show "\<exists>fd'. (D(n \<mapsto> fd)) i = Some fd'" using d(6) by (metis fun_upd_apply insertE)
  next
    fix i assume "i \<in> R" then show "i \<notin> insert n Op" using d(5,7) n by (metis insertE option.distinct(1))
  qed
qed

lemma table_ok_closed:
  assumes ok: "table_ok T D Op R n" and Op: "Op' \<subseteq> Op" and R: "R' \<subseteq> (if i \<in> Op' then R else insert i R)" and i: "D i = Some fd"
  shows "table_ok T D Op' R' n"
proof (rule table_okI)
  note d = table_okD [OF ok]
  have R': "R' \<subseteq> insert i R" using R by (auto split: if_splits)
  fix fd' j
  show "T fd' = Some j \<Longrightarrow> D j = Some fd'" by (rule d(1))
  show "D j = Some fd' \<Longrightarrow> j < n" by (rule d(2))
  show "D j = Some fd' \<Longrightarrow> j \<in> Op' \<Longrightarrow> T fd' = Some j" using d(3) Op by blast
  show "D j = Some fd' \<Longrightarrow> D k = Some fd' \<Longrightarrow> j = k" for k by (rule d(4))
  show "j \<in> R' \<Longrightarrow> \<exists>fd. D j = Some fd" using d(5) R' i by blast
  show "j \<in> Op' \<Longrightarrow> \<exists>fd. D j = Some fd" using d(6) Op by blast
  show "j \<in> R' \<Longrightarrow> j \<notin> Op'" using d(7) Op R by (cases "i \<in> Op'") auto
qed

lemma table_ok_remove:
  assumes ok: "table_ok T D Op R n" and i: "D i = Some fd" "i \<notin> Op" and R: "R' \<subseteq> R"
  shows "table_ok (T(fd := None)) D Op R' n"
proof (rule table_okI)
  note d = table_okD [OF ok]
  fix fd' j
  show "(T(fd := None)) fd' = Some j \<Longrightarrow> D j = Some fd'" using d(1) by (metis fun_upd_apply option.distinct(1))
  show "D j = Some fd' \<Longrightarrow> j < n" by (rule d(2))
  show "j \<in> R' \<Longrightarrow> \<exists>fd. D j = Some fd" using d(5) R by blast
  show "j \<in> Op \<Longrightarrow> \<exists>fd. D j = Some fd" by (rule d(6))
  show "j \<in> R' \<Longrightarrow> j \<notin> Op" using d(7) R by blast
  show "D j = Some fd' \<Longrightarrow> D k = Some fd' \<Longrightarrow> j = k" for k by (rule d(4))
  assume j: "D j = Some fd'" "j \<in> Op"
  then have "fd' \<noteq> fd" using d(4) i by blast
  then show "(T(fd := None)) fd' = Some j" using d(3) [OF j] by simp
qed

lemma table_ok_release:
  assumes ok: "table_ok T D Op R n" and i: "\<And>fd. T fd \<noteq> Some i" "i \<notin> R"
  shows "table_ok T (D(i := None)) (Op - {i}) R n"
proof (rule table_okI)
  note d = table_okD [OF ok]
  fix fd j
  show "T fd = Some j \<Longrightarrow> (D(i := None)) j = Some fd" using d(1) i(1) by (metis fun_upd_apply)
  show "(D(i := None)) j = Some fd \<Longrightarrow> j < n" using d(2) by (metis fun_upd_apply option.distinct(1))
  show "(D(i := None)) j = Some fd \<Longrightarrow> j \<in> Op - {i} \<Longrightarrow> T fd = Some j" using d(3) by (metis DiffD1 fun_upd_apply option.distinct(1))
  show "(D(i := None)) j = Some fd \<Longrightarrow> (D(i := None)) k = Some fd \<Longrightarrow> j = k" for k
    using d(4) by (metis fun_upd_apply option.distinct(1))
  show "j \<in> R \<Longrightarrow> \<exists>fd. (D(i := None)) j = Some fd" using d(5) i(2) by (metis fun_upd_apply)
  show "j \<in> Op - {i} \<Longrightarrow> \<exists>fd. (D(i := None)) j = Some fd" using d(6) by (metis DiffD1 DiffD2 fun_upd_apply singletonI)
  show "j \<in> R \<Longrightarrow> j \<notin> Op - {i}" using d(7) by blast
qed

subsection \<open>Every step keeps it\<close>

lemma remove_iter: "(removeConnection i ^^ n) s = s\<lparr>sv_removes := sv_removes s @ replicate n i\<rparr>"
  by (induction n) (simp_all add: removeConnection_def replicate_append_same)

lemma free_fd_no: "free_fd fd s \<Longrightarrow> fd_of s i \<noteq> Some fd"
  by (force simp: free_fd_def fd_of_def dest: map_of_SomeD)

lemma inv_new:
  assumes inv: "server_inv s" and free: "free_fd fd s"
  shows "server_inv (newConnection fd s)" "um_find (sv_table (newConnection fd s)) fd = Some (sv_next s)"
proof -
  have ok: "table_ok (um_find (sv_table s)) (fd_of s) (not_closed s) (set (sv_removes s)) (sv_next s)" and st: "sv_started s"
    using inv by (simp_all add: server_inv_def)
  note new = table_ok_new [OF ok free_fd_no [OF free]]
  let ?s = "s\<lparr>sv_table := um_set fd (sv_next s) (sv_table s),
     sv_objs := um_set (sv_next s) (fd, attachToLoop TcpConnection_make) (sv_objs s), sv_next := Suc (sv_next s)\<rparr>"
  have s': "newConnection fd s = ?s" using new(1) st by (simp add: newConnection_def)
  have d: "fd_of ?s = (fd_of s)(sv_next s \<mapsto> fd)" by (rule ext) (simp add: fd_of_def um_find_set)
  have "closes (attachToLoop TcpConnection_make) = 0"
    by (simp add: attachToLoop_def closes_event) (simp add: closes_def TcpConnection_make_def)
  then have o: "not_closed ?s = insert (sv_next s) (not_closed s)"
    by (auto simp: not_closed_def um_find_set split: if_splits)
  have t: "um_find (sv_table ?s) = (um_find (sv_table s))(fd \<mapsto> sv_next s)" by (rule ext) (simp add: um_find_set)
  show "server_inv (newConnection fd s)" unfolding s' server_inv_def d o t using new(2) st by simp
  show "um_find (sv_table (newConnection fd s)) fd = Some (sv_next s)" unfolding s' by (simp add: um_find_set)
qed

lemma inv_put:
  assumes inv: "server_inv s" and i: "um_find (sv_objs s) i = Some (fd, c)" and le: "closes c \<le> closes c'"
  shows "server_inv (put_conn i c' s)"
proof -
  let ?s = "s\<lparr>sv_objs := um_set i (fd, c') (sv_objs s), sv_removes := sv_removes s @ replicate (closes c' - closes c) i\<rparr>"
  have s': "put_conn i c' s = ?s" using i by (simp add: put_conn_def remove_iter)
  have d: "fd_of ?s = fd_of s" by (rule ext) (simp add: fd_of_def um_find_set i)
  have "not_closed ?s \<subseteq> not_closed s" using le i by (auto simp: not_closed_def um_find_set split: if_splits)
  moreover have "set (sv_removes ?s) \<subseteq> (if i \<in> not_closed ?s then set (sv_removes s) else insert i (set (sv_removes s)))"
    by (auto simp: set_replicate_conv_if not_closed_def um_find_set)
  moreover have "fd_of s i = Some fd" by (simp add: fd_of_def i)
  ultimately show ?thesis
    using inv table_ok_closed [of "um_find (sv_table s)" "fd_of s" "not_closed s" "set (sv_removes s)" "sv_next s"
        "not_closed ?s" "set (sv_removes ?s)" i fd]
    unfolding s' server_inv_def d by simp
qed

lemma inv_remove:
  assumes inv: "server_inv s"
  shows "server_inv (run_remove s)"
proof (cases "sv_removes s")
  case (Cons i rest)
  have ok: "table_ok (um_find (sv_table s)) (fd_of s) (not_closed s) (set (sv_removes s)) (sv_next s)" and st: "sv_started s"
    using inv by (simp_all add: server_inv_def)
  have "i \<in> set (sv_removes s)" by (simp add: Cons)
  note i = table_okD(5,7) [OF ok this]
  then obtain fd c where f: "um_find (sv_objs s) i = Some (fd, c)" "fd_of s i = Some fd" by (auto simp: fd_of_def)
  let ?t = "if um_find (sv_table s) fd = Some i then um_erase fd (sv_table s) else sv_table s"
  let ?s = "s\<lparr>sv_removes := rest, sv_table := ?t\<rparr>"
  have s': "run_remove s = ?s" using Cons f(1) by (simp add: run_remove_def)
  have same: "fd_of ?s = fd_of s" "not_closed ?s = not_closed s" by (simp_all add: fd_of_def not_closed_def fun_eq_iff)
  have R: "set rest \<subseteq> set (sv_removes s)" by (auto simp: Cons)
  have t: "um_find ?t = (if um_find (sv_table s) fd = Some i then (um_find (sv_table s))(fd := None) else um_find (sv_table s))"
    by (rule ext) (simp add: um_find_erase)
  have "table_ok (um_find ?t) (fd_of s) (not_closed s) (set rest) (sv_next s)"
    unfolding t
    using table_ok_remove [OF ok f(2) i(2) R] table_ok_closed [OF ok subset_refl _ f(2), of "set rest"] R i(2) by auto
  then show ?thesis unfolding s' server_inv_def same using st by simp
qed (simp add: run_remove_def inv)

lemma inv_release:
  assumes inv: "server_inv s" and i: "i \<notin> snd ` set (sv_table s)" "i \<notin> set (sv_removes s)"
  shows "server_inv (s\<lparr>sv_objs := um_erase i (sv_objs s)\<rparr>)"
proof -
  let ?s = "s\<lparr>sv_objs := um_erase i (sv_objs s)\<rparr>"
  have t: "um_find (sv_table s) fd \<noteq> Some i" for fd using i(1) by (force dest: map_of_SomeD)
  have d: "fd_of ?s = (fd_of s)(i := None)" by (rule ext) (simp add: fd_of_def um_find_erase)
  have o: "not_closed ?s = not_closed s - {i}" by (auto simp: not_closed_def um_find_erase split: if_splits)
  show ?thesis
    using inv table_ok_release [where D = "fd_of s" and Op = "not_closed s" and n = "sv_next s", OF _ t i(2)] unfolding server_inv_def d o by simp
qed

lemma inv_pause: "server_inv s \<Longrightarrow> server_inv (pauseAccept s)"
  by (simp add: pauseAccept_def server_inv_def fd_of_def [abs_def] not_closed_def)

lemma server_reach_inv: "server_reach s \<Longrightarrow> server_inv s"
proof (induction rule: server_reach.induct)
  case (start spare)
  have "fd_of (server_start (TcpServer_make spare)) = (\<lambda>_. None)" "not_closed (server_start (TcpServer_make spare)) = {}"
    by (simp_all add: fd_of_def [abs_def] not_closed_def server_start_def TcpServer_make_def)
  then show ?case unfolding server_inv_def by (simp add: server_start_def TcpServer_make_def table_ok_def)
next
  case (accept s fd)
  then show ?case by (intro inv_new(1))
next
  case (step s i fd c c')
  then show ?case by (intro inv_put [OF _ _ conn_step_closes])
qed (simp_all add: inv_remove inv_release inv_pause)

text \<open>C33: no connection is lost although descriptors are used again: while the server runs, every connection that has
  not been closed is in the table under its descriptor, no other object has that descriptor, and a
  connection that is accepted always gets its entry.\<close>

theorem server_keeps_connections:
  assumes "server_reach s" "um_find (sv_objs s) i = Some (fd, c)" "closes c = 0" "free_fd fd' s"
  shows "um_find (sv_table s) fd = Some i \<and> (\<forall>j d. um_find (sv_objs s) j = Some (fd, d) \<longrightarrow> j = i) \<and>
    um_find (sv_table (newConnection fd' s)) fd' = Some (sv_next s) \<and> um_find (sv_table (newConnection fd' s)) fd = Some i"
proof -
  have inv: "server_inv s" by (rule server_reach_inv [OF assms(1)])
  note d = table_okD [OF conjunct2 [OF inv [unfolded server_inv_def]]]
  have i: "fd_of s i = Some fd" "i \<in> not_closed s" using assms(2,3) by (auto simp: fd_of_def not_closed_def)
  note t = d(3) [OF i]
  have u: "j = i" if "um_find (sv_objs s) j = Some (fd, c')" for j c' using d(4) [OF _ i(1), of j] that by (simp add: fd_of_def)
  have "server_inv (newConnection fd' s)" by (rule inv_new [OF inv assms(4)])
  note d' = table_okD(3) [OF conjunct2 [OF this [unfolded server_inv_def]]]
  have ne: "i \<noteq> sv_next s" using d(2) [OF i(1)] by simp
  have "um_find (sv_objs (newConnection fd' s)) i = Some (fd, c)" using assms(2) ne by (simp add: newConnection_def um_find_set)
  then have "fd_of (newConnection fd' s) i = Some fd" "i \<in> not_closed (newConnection fd' s)"
    using assms(3) by (auto simp: fd_of_def not_closed_def)
  from d' [OF this] show ?thesis using t u inv_new(2) [OF inv assms(4)] by blast
qed

theorem server_keeps_connections_witness:
  "um_find (sv_table (newConnection 6 (newConnection 5 (server_start (TcpServer_make True))))) 5 = Some 0"
proof -
  let ?s0 = "server_start (TcpServer_make True)"
  have "free_fd 5 ?s0" by (simp add: free_fd_def server_start_def TcpServer_make_def)
  then have r: "server_reach (newConnection 5 ?s0)" by (intro server_reach.intros)
  have o: "sv_objs (newConnection 5 ?s0) = [(0, 5, attachToLoop TcpConnection_make)]"
    by (simp add: newConnection_def server_start_def TcpServer_make_def)
  have c: "closes (attachToLoop TcpConnection_make) = 0"
    by (simp add: attachToLoop_def closes_event) (simp add: closes_def TcpConnection_make_def)
  have f: "um_find (sv_objs (newConnection 5 ?s0)) 0 = Some (5, attachToLoop TcpConnection_make)" "free_fd 6 (newConnection 5 ?s0)"
    by (simp_all add: o free_fd_def)
  show ?thesis by (rule server_keeps_connections [OF r f(1) c f(2), THEN conjunct2, THEN conjunct2, THEN conjunct2])
qed

section \<open>Accepting\<close>

lemma set_um_set: "set (um_set k v m) \<subseteq> insert (k, v) (set m)"
  by (induction m) auto

lemma newConnection_free:
  assumes "free_fd fd' s" "fd \<noteq> fd'"
  shows "free_fd fd' (newConnection fd s)"
proof -
  have "set (sv_objs (newConnection fd s)) \<subseteq> insert (sv_next s, fd, attachToLoop TcpConnection_make) (set (sv_objs s))"
    using set_um_set [of "sv_next s" "(fd, attachToLoop TcpConnection_make)" "sv_objs s"] by (auto simp: newConnection_def)
  then show ?thesis using assms unfolding free_fd_def by (auto simp: image_iff subset_iff) (metis fst_conv snd_conv)+
qed

lemma newConnection_table:
  "um_find (sv_table s) fd = Some i \<Longrightarrow> um_find (sv_table (newConnection fd' s)) fd = Some i"
  by (auto simp: newConnection_def um_find_set)

text \<open>one event of the listening socket accepts every connection that waits: the edge-triggered loop runs until
  the kernel has no more, and each of the connections is in the table.\<close>

theorem accept_drains:
  assumes "server_reach s" "distinct fds" "\<forall>fd \<in> set fds. free_fd fd s"
  shows "\<exists>s'. acceptConnection (map Inr fds @ [Inl kEAGAIN]) opens s = Some s' \<and> server_reach s' \<and>
    (\<forall>fd \<in> set fds. um_find (sv_table s') fd \<noteq> None) \<and>
    (\<forall>fd i. um_find (sv_table s) fd = Some i \<longrightarrow> um_find (sv_table s') fd = Some i)"
  using assms
proof (induction fds arbitrary: s)
  case Nil
  then show ?case by (subst acceptConnection.simps) (simp add: kEAGAIN_def kEINTR_def)
next
  case (Cons fd fds)
  let ?s1 = "newConnection fd s"
  have free: "free_fd fd s" using Cons.prems(3) by simp
  have r: "server_reach ?s1" by (rule server_reach.accept [OF Cons.prems(1) free])
  have dist: "distinct fds" and "fd \<notin> set fds" using Cons.prems(2) by simp_all
  then have f: "\<forall>fd' \<in> set fds. free_fd fd' ?s1" using Cons.prems(3) newConnection_free by (metis list.set_intros(2))
  obtain s' where s': "acceptConnection (map Inr fds @ [Inl kEAGAIN]) opens ?s1 = Some s'" "server_reach s'"
    "\<forall>fd \<in> set fds. um_find (sv_table s') fd \<noteq> None"
    "\<forall>fd i. um_find (sv_table ?s1) fd = Some i \<longrightarrow> um_find (sv_table s') fd = Some i"
    using Cons.IH [OF r dist f] by blast
  have "um_find (sv_table ?s1) fd = Some (sv_next s)" by (rule inv_new(2) [OF server_reach_inv [OF Cons.prems(1)] free])
  then have n: "um_find (sv_table s') fd = Some (sv_next s)" using s'(4) by blast
  have "acceptConnection (map Inr (fd # fds) @ [Inl kEAGAIN]) opens s = Some s'"
    using s'(1) by (subst acceptConnection.simps) simp
  then show ?case using s'(2,3,4) n newConnection_table by (intro exI [of _ s']) (metis option.distinct(1) set_ConsD)
qed

theorem accept_drains_witness:
  "\<exists>s'. acceptConnection [Inr 5, Inr 6, Inl kEAGAIN] [] (server_start (TcpServer_make True)) = Some s' \<and>
     um_find (sv_table s') 5 \<noteq> None \<and> um_find (sv_table s') 6 \<noteq> None"
  using accept_drains [OF server_reach.start [of True], of "[5, 6]" "[]"]
  by (auto simp: free_fd_def server_start_def TcpServer_make_def)

text \<open>An aborted connection at the head of the queue ends the loop, and those behind it have to wait for the next
  edge.\<close>

lemma accept_stops_at_abort: "acceptConnection (Inl kECONNABORTED # rs) opens s = Some s"
  by (subst acceptConnection.simps) (simp add: kECONNABORTED_def kEAGAIN_def kEINTR_def kEMFILE_def kENFILE_def)

section \<open>Stopping\<close>

lemma forceClose_waits:
  assumes "readableBytes (co_output c) > 0" "closes c = 0"
  shows "closes (forceClose True c) = 0" "co_output (forceClose True c) = co_output c" "co_wire (forceClose True c) = co_wire c"
    "co_posted (forceClose True c) = co_posted c"
  using assms by (auto simp: forceClose_def runClose_def closeInLoop_def)

lemma put_conn_other:
  "um_find (sv_objs (put_conn j c' s)) i = (if i = j then map_option (\<lambda>(fd, c). (fd, c')) (um_find (sv_objs s) i) else um_find (sv_objs s) i)"
  "set (sv_removes (put_conn j c' s)) = set (sv_removes s) \<union>
     (case um_find (sv_objs s) j of None \<Rightarrow> {} | Some (fd, c) \<Rightarrow> if closes c' > closes c then {j} else {})"
  by (auto simp: put_conn_def remove_iter um_find_set split: option.splits)

definition unsent :: "nat \<Rightarrow> nat \<Rightarrow> Buffer \<Rightarrow> string \<Rightarrow> Server \<Rightarrow> bool" where
  "unsent i fd out wire s \<longleftrightarrow> i \<notin> set (sv_removes s) \<and>
     (\<exists>c. um_find (sv_objs s) i = Some (fd, c) \<and> closes c = 0 \<and> co_output c = out \<and> co_wire c = wire \<and> co_posted c = [])"

lemma close_conns_unsent:
  assumes "unsent i fd out wire s" "readableBytes out > 0"
  shows "unsent i fd out wire (close_conns True is s)"
  using assms(1) unfolding close_conns_def
proof (induction "is" arbitrary: s)
  case (Cons j js)
  let ?f = "\<lambda>i s. case um_find (sv_objs s) i of None \<Rightarrow> s | Some (fd, c) \<Rightarrow> put_conn i (forceClose True c) s"
  have "unsent i fd out wire (?f j s)"
  proof (cases "um_find (sv_objs s) j")
    case (Some x)
    then show ?thesis
      using Cons.prems assms(2) by (cases x) (auto simp: unsent_def put_conn_other forceClose_waits split: if_splits)
  qed (simp add: Cons.prems)
  then show ?case using Cons.IH by simp
qed simp

lemma find_erase_all: "um_find (fold um_erase ks m) i = (if i \<in> set ks then None else um_find m i)"
  by (induction ks arbitrary: m) (auto simp: um_find_erase)

text \<open>C34: stopping the server throws away what has not been written: \<^verbatim>\<open>forceClose\<close> leaves a connection with output open until
  the output is written, but \<^verbatim>\<open>stop\<close> has emptied the table, so nobody owns the connection any more and it is
  destroyed with the bytes in its buffer.\<close>

theorem stop_discards_output:
  assumes "server_reach s" "um_find (sv_objs s) i = Some (fd, c)" "closes c = 0" "co_posted c = []"
    and "readableBytes (co_output c) > 0" "i \<notin> set held"
  shows "um_find (sv_objs (server_stop True held s)) i = None \<and> co_wire (forceClose True c) = co_wire c"
proof -
  have inv: "server_inv s" by (rule server_reach_inv [OF assms(1)])
  note d = table_okD [OF conjunct2 [OF inv [unfolded server_inv_def]]]
  have i: "fd_of s i = Some fd" "i \<in> not_closed s" using assms(2,3) by (auto simp: fd_of_def not_closed_def)
  have "(fd, i) \<in> set (sv_table s)" using d(3) [OF i] by (rule map_of_SomeD)
  then have m: "i \<in> set (map snd (sv_table s))" by force
  let ?s0 = "s\<lparr>sv_started := False, sv_table := []\<rparr>" and ?is = "map snd (sv_table s)"
  have "unsent i fd (co_output c) (co_wire c) ?s0" using assms(2-4) d(7) i(2) by (auto simp: unsent_def)
  from close_conns_unsent [OF this assms(5), of ?is]
  obtain c' where c': "i \<notin> set (sv_removes (close_conns True ?is ?s0))" "um_find (sv_objs (close_conns True ?is ?s0)) i = Some (fd, c')" "co_posted c' = []"
    by (auto simp: unsent_def)
  let ?s1 = "close_conns True ?is ?s0"
  have "unowned held ?s1 i" using c' assms(6) by (simp add: unowned_def)
  then have "um_find (fold um_erase (filter (unowned held ?s1) ?is) (sv_objs ?s1)) i = None" using m by (simp add: find_erase_all)
  then show ?thesis
    using inv forceClose_waits(3) [OF assms(5,3)] by (simp add: server_stop_def server_inv_def Let_def)
qed

theorem stop_discards_output_witness:
  "\<exists>s c. server_reach s \<and> um_find (sv_objs s) 0 = Some (5, c) \<and> content (co_output c) = ''bc'' \<and>
     um_find (sv_objs (server_stop True [] s)) 0 = None"
proof -
  let ?s0 = "newConnection 5 (server_start (TcpServer_make True))" and ?c0 = "attachToLoop TcpConnection_make"
  have "free_fd 5 (server_start (TcpServer_make True))" by (simp add: free_fd_def server_start_def TcpServer_make_def)
  then have r0: "server_reach ?s0" by (intro server_reach.intros)
  have o: "um_find (sv_objs ?s0) 0 = Some (5, ?c0)" by (simp add: newConnection_def server_start_def TcpServer_make_def)
  define c where "c = fst (the (conn_send True [Inr 1] ''abc'' ?c0))"
  have "conn_send True [Inr 1] ''abc'' ?c0 = Some (c, [])" "content (co_output c) = ''bc''" "readableBytes (co_output c) > 0"
    "closes c = 0" "co_posted c = []" "closes ?c0 = 0"
    unfolding c_def by code_simp+
  note c = this
  have r: "server_reach (put_conn 0 c ?s0)" by (rule server_reach.step [OF r0 o conn_step.send [OF c(1)]])
  have f: "um_find (sv_objs (put_conn 0 c ?s0)) 0 = Some (5, c)" by (simp add: put_conn_other o)
  show ?thesis using stop_discards_output [OF r f c(4,5,3), of "[]"] r f c(2) by auto
qed


section \<open>A closed connection comes back to life\<close>

text \<open>A close that another thread has posted runs after the peer has closed the connection: with output left in the
  buffer it sets the state of the closed connection back to \<open>kDisconnecting\<close>.\<close>

lemma posted_close_reopens:
  assumes "co_state c = kConnected" "readableBytes (co_output c) > 0" "co_posted c = []"
  shows "co_state (handleClose (conn_shutdown False c)) = kDisconnected \<and>
    (\<exists>c'. run_posted rs (handleClose (conn_shutdown False c)) = Some (c', rs) \<and> co_state c' = kDisconnecting)"
  using assms by (simp add: conn_shutdown_def runClose_def handleClose_def conn_event_def run_posted_def closeInLoop_def)

section \<open>The loop wakes up in time\<close>

text \<open>as long as a timer is armed the loop does not sleep past it: the timer descriptor is armed, at the latest for
  the moment when the first timer is due, and the poll returns no later than that as long as the moment is less than
  24 days away.\<close>

theorem loop_wakes_in_time:
  assumes "t \<in> set (el_timers el)" "tm_when t - now < 2 ^ 31 * 1000000"
  shows "1 \<le> resetTimerfd now el \<and> resetTimerfd now el \<le> max 1 (tm_when t - now) \<and>
    0 \<le> nextTimeoutMs now el \<and> nextTimeoutMs now el * 1000000 \<le> max 0 (tm_when t - now)"
proof -
  let ?m = "Min (tm_when ` set (el_timers el))"
  have ne: "el_timers el \<noteq> []" and le: "?m \<le> tm_when t" using assms(1) by auto
  let ?ms = "(?m - now) div 1000000"
  have wrap: "sint (word_of_int ms :: 32 word) = ms" if "0 \<le> ms" "ms < 2 ^ 31" for ms
    using that by (simp add: sint_sbintrunc' signed_take_bit_int_eq_self)
  show ?thesis
  proof (cases "?m - now < 0")
    case True
    then have "0 \<le> - (?m - now) div 1000000" by (simp add: pos_imp_zdiv_nonneg_iff)
    then have "nextTimeoutMs now el = 0" using ne True by (auto simp: nextTimeoutMs_def Let_def)
    then show ?thesis using ne le by (simp add: resetTimerfd_def)
  next
    case False
    then have "0 \<le> ?ms" "?ms < 2 ^ 31" using assms(2) le by (auto simp: pos_imp_zdiv_nonneg_iff)
    then have "nextTimeoutMs now el = ?ms" using ne False wrap by (simp add: nextTimeoutMs_def Let_def)
    moreover have "?ms * 1000000 \<le> tm_when t - now" using le by linarith
    moreover have "?m - now \<le> max 1 (tm_when t - now)" using le by linarith
    ultimately show ?thesis using ne False \<open>0 \<le> ?ms\<close> by (simp add: resetTimerfd_def)
  qed
qed

theorem loop_wakes_in_time_witness:
  "nextTimeoutMs 0 ((EventLoop_init :: (unit, unit) EventLoop)\<lparr>el_timers := [\<lparr>tm_when = 2500000, tm_interval = 0, tm_id = 1\<rparr>]\<rparr>) * 1000000 \<le> 2500000"
  using loop_wakes_in_time [of "\<lparr>tm_when = 2500000, tm_interval = 0, tm_id = 1\<rparr>"
      "(EventLoop_init :: (unit, unit) EventLoop)\<lparr>el_timers := [\<lparr>tm_when = 2500000, tm_interval = 0, tm_id = 1\<rparr>]\<rparr>" 0] by simp

end
