(* ===== verification/Dispatch.thy ===== *)
theory Dispatch
  imports Server
begin

text \<open>
  A connection together with its channel and the interest list of the kernel (\<^verbatim>\<open>netlib/src/TcpConnection.cpp\<close>, \<^verbatim>\<open>netlib/src/Channel.cpp\<close>,
  \<^verbatim>\<open>netlib/src/Epoll.cpp\<close>): the flags \<open>co_chRead\<close> and \<open>co_chWrite\<close> of theory \<open>Connection\<close> become the event mask that is registered, and the
  events that the kernel reports become calls of the handlers. Lemmas: as long as bytes wait in the output buffer of an
  open connection the kernel is asked for the writable event, a closed one is not registered, and no handler runs after the
  one that closed the connection.
\<close>

unbundle bit_operations_syntax

section \<open>The channel of a connection\<close>

text \<open>The channel that the constructor makes, and what \<^verbatim>\<open>attachToLoop\<close> does with it.\<close>

definition conn_channel :: "nat \<Rightarrow> Channel" where
  "conn_channel fd = (Channel_make fd)\<lparr>ch_readCb := True, ch_writeCb := True, ch_errorCb := True\<rparr>"

definition chan_attach :: "bool \<Rightarrow> Channel \<Rightarrow> interest \<Rightarrow> Channel \<times> interest" where
  "chan_attach ok ch k = enableReadingET ok (ch\<lparr>ch_tied := True\<rparr>) k"

text \<open>The calls of \<^verbatim>\<open>handleClose\<close>: \<^verbatim>\<open>disableAll\<close>, \<^verbatim>\<open>remove\<close>, and all callbacks null.\<close>

definition chan_close :: "bool \<Rightarrow> Channel \<Rightarrow> interest \<Rightarrow> Channel \<times> interest" where
  "chan_close ok ch k =
    (let (ch1, k1) = disableAll ok ch k; (ch2, k2) = removeChannel ch1 k1
     in (ch2\<lparr>ch_readCb := False, ch_writeCb := False, ch_errorCb := False\<rparr>, k2))"

text \<open>The calls of an operation that takes the connection from \<open>c\<close> to \<open>c'\<close>: the flags of the connection change exactly where the code
  calls its channel. When \<^verbatim>\<open>handleWrite\<close> first calls \<^verbatim>\<open>disableWriting\<close> and then closes, \<^verbatim>\<open>disableAll\<close> replaces the mask anyway.\<close>

definition chan_calls :: "bool \<Rightarrow> Conn \<Rightarrow> Conn \<Rightarrow> Channel \<Rightarrow> interest \<Rightarrow> Channel \<times> interest" where
  "chan_calls ok c c' ch k =
     (if co_chRead c \<and> \<not> co_chRead c' then chan_close ok ch k
      else if co_chWrite c \<and> \<not> co_chWrite c' then disableWriting ok ch k
      else if \<not> co_chWrite c \<and> co_chWrite c' then enableWriting ok ch k
      else (ch, k))"

section \<open>Events\<close>

text \<open>What the loop does with the connection: sending and closing by its owner, functions posted by other threads, and
  the handlers of events, which run only while the callbacks of the channel are set.\<close>

inductive owner_step :: "Conn \<Rightarrow> Conn \<Rightarrow> bool" where
  send: "conn_send inLoop rs data c = Some (c', rs') \<Longrightarrow> owner_step c c'"
| send_buffer: "buffer_wf buf \<Longrightarrow> conn_sendBuffer inLoop rs buf c = Some (c', rs') \<Longrightarrow> owner_step c c'"
| posted: "run_posted rs c = Some (c', rs') \<Longrightarrow> owner_step c c'"
| shutdown: "owner_step c (conn_shutdown inLoop c)"
| force: "owner_step c (forceClose inLoop c)"

inductive handler_step :: "Conn \<Rightarrow> Conn \<Rightarrow> bool" where
  reads: "handler_step c (c\<lparr>co_input := b\<rparr>)"
| writable: "handleWrite rs c = Some c' \<Longrightarrow> handler_step c c'"
| eof: "handler_step c (handleClose c)"
| failed: "handler_step c (handleError c)"

inductive chan_reach :: "nat \<Rightarrow> Conn \<Rightarrow> Channel \<Rightarrow> interest \<Rightarrow> bool" for fd where
  attach: "um_find k fd = None \<Longrightarrow> chan_attach True (conn_channel fd) k = (ch, k') \<Longrightarrow> chan_reach fd (attachToLoop TcpConnection_make) ch k'"
| owner: "chan_reach fd c ch k \<Longrightarrow> owner_step c c' \<Longrightarrow> chan_calls ok c c' ch k = (ch', k') \<Longrightarrow> chan_reach fd c' ch' k'"
| handler: "chan_reach fd c ch k \<Longrightarrow> ch_readCb ch \<Longrightarrow> handler_step c c' \<Longrightarrow> chan_calls ok c c' ch k = (ch', k') \<Longrightarrow> chan_reach fd c' ch' k'"
| others: "chan_reach fd c ch k \<Longrightarrow> um_find k' fd = um_find k fd \<Longrightarrow> chan_reach fd c ch k'"

section \<open>The flags of the connection\<close>

definition flags_ok :: "Conn \<Rightarrow> bool" where
  "flags_ok c \<longleftrightarrow> buffer_wf (co_output c) \<and> posted_wf c \<and> co_outQueue c = [] \<and> (0 < readableBytes (co_output c) \<longrightarrow> co_writing c) \<and>
     (if co_chRead c then co_chWrite c = co_writing c \<and> co_state c \<noteq> kDisconnected
      else \<not> co_chWrite c \<and> (co_state c = kDisconnected \<or> 0 < readableBytes (co_output c)))"

named_theorems flags

lemma flags_handleClose [flags]: "flags_ok c \<Longrightarrow> flags_ok (handleClose c)"
  by (auto simp: flags_ok_def handleClose_def conn_event_def posted_wf_def)

lemma flags_closeInLoop [flags]: "flags_ok c \<Longrightarrow> flags_ok (closeInLoop c)"
  by (auto simp: flags_ok_def closeInLoop_def handleClose_def conn_event_def posted_wf_def)

lemma flags_disconnecting [flags]: "flags_ok c \<Longrightarrow> co_state c \<noteq> kDisconnected \<Longrightarrow> flags_ok (c\<lparr>co_state := kDisconnecting\<rparr>)"
  by (auto simp: flags_ok_def posted_wf_def)

lemma flags_posted: "flags_ok c \<Longrightarrow> list_all post_ok ps \<Longrightarrow> flags_ok (c\<lparr>co_posted := ps\<rparr>)"
  by (simp add: flags_ok_def posted_wf_def)

lemma flags_post: "flags_ok c \<Longrightarrow> post_ok p \<Longrightarrow> flags_ok (c\<lparr>co_posted := co_posted c @ [p]\<rparr>)"
  by (intro flags_posted) (simp_all add: flags_ok_def posted_wf_def)

lemma flags_runClose [flags]: "flags_ok c \<Longrightarrow> flags_ok (runClose b c)"
  by (simp add: runClose_def flags_closeInLoop flags_post)

lemma flags_event [simp]: "flags_ok (conn_event e c) = flags_ok c" "flags_ok (c\<lparr>co_wire := w\<rparr>) = flags_ok c" "flags_ok (c\<lparr>co_input := b\<rparr>) = flags_ok c"
  by (simp_all add: flags_ok_def conn_event_def posted_wf_def)

lemma readable_append: "buffer_wf b \<Longrightarrow> readableBytes (bu_append d b) = readableBytes b + length d"
  by (metis content_append length_append length_content)

lemma flags_send_rest [flags]:
  assumes "flags_ok c" "co_state c \<noteq> kDisconnected" "buffer_wf buf" "n \<le> readableBytes buf"
  shows "flags_ok (send_rest buf n c)"
proof (cases "n = 0")
  case False
  let ?d = "drop (readableBytes buf - n) (content buf)"
  have "length ?d = n" using assms(3,4) by simp
  then have "0 < readableBytes (bu_append ?d (co_output c))" using False assms(1) by (simp add: flags_ok_def readable_append)
  then show ?thesis
    using assms(1,2) False by (auto simp: send_rest_def startWriting_def flags_ok_def posted_wf_def content_append split: if_splits)
qed (use assms in \<open>simp add: send_rest_def\<close>)

lemma flags_sendBuffer [flags]:
  assumes "flags_ok c" "buffer_wf buf" "sendBufferInLoop rs buf c = Some (c', rs')"
  shows "flags_ok c'"
  using assms by (auto simp: sendBufferInLoop_def flags_send_rest split: if_splits option.splits sum.splits)

lemma flags_run_posted:
  assumes "flags_ok c" "run_posted rs c = Some (c', rs')"
  shows "flags_ok c'"
proof (cases "co_posted c")
  case (Cons p ps)
  then have ok: "flags_ok (c\<lparr>co_posted := ps\<rparr>)" "post_ok p" using assms(1) by (auto intro: flags_posted simp: flags_ok_def posted_wf_def)
  then show ?thesis
    using assms(2) Cons flags_sendBuffer [OF ok(1), of "bu_append d (Buffer_make kBufferInit)" for d] flags_sendBuffer [OF ok(1)]
    by (cases p) (auto simp: run_posted_def sendInLoop_def flags_closeInLoop)
qed (use assms in \<open>simp add: run_posted_def\<close>)

lemma flags_owner: "owner_step c c' \<Longrightarrow> flags_ok c \<Longrightarrow> flags_ok c'"
proof (induction rule: owner_step.induct)
  case (send inLoop rs data c c' rs')
  then show ?case using flags_sendBuffer [of c "bu_append data (Buffer_make kBufferInit)"]
    by (auto simp: conn_send_def sendInLoop_def flags_post split: if_splits)
next
  case (send_buffer buf inLoop rs c c' rs')
  then show ?case using flags_sendBuffer [of c buf] by (auto simp: conn_sendBuffer_def flags_post split: if_splits)
next
  case (posted rs c c' rs')
  then show ?case by (rule flags_run_posted [rotated])
next
  case (shutdown c inLoop)
  then show ?case by (simp add: conn_shutdown_def flags_runClose flags_disconnecting)
next
  case (force c inLoop)
  then show ?case by (simp add: forceClose_def flags_runClose flags_disconnecting)
qed

lemma flags_write_loop:
  "write_loop rs c = Some (b, c') \<Longrightarrow> flags_ok c \<Longrightarrow> co_writing c \<Longrightarrow> co_chRead c \<Longrightarrow>
   flags_ok c' \<and> co_writing c' \<and> (b \<longrightarrow> readableBytes (co_output c') = 0) \<and> co_chRead c'"
proof (induction rs c rule: write_loop.induct)
  case (2 n rs c)
  let ?c = "c\<lparr>co_wire := co_wire c @ take n (content (co_output c)), co_output := retrieve n (co_output c)\<rparr>"
  have "flags_ok ?c" using "2.prems" by (simp add: flags_ok_def posted_wf_def content_retrieve)
  then show ?case using "2.IH" "2.prems" by (auto split: if_splits)
next
  case (3 e rs c)
  then show ?case by (auto split: if_splits)
qed (auto split: if_splits)

lemma flags_handler:
  assumes "handler_step c c'" "flags_ok c" "co_chRead c"
  shows "flags_ok c'"
  using assms
proof (induction rule: handler_step.induct)
  case (writable rs c c')
  show ?case
  proof (cases "co_writing c")
    case True
    then obtain b c1 where w: "write_loop rs c = Some (b, c1)" using writable(1) by (auto simp: handleWrite_def split: option.splits)
    note l = flags_write_loop [OF w writable(2) True writable(3)]
    have "flags_ok (c1\<lparr>co_writing := False, co_chWrite := False\<rparr>)" if b using l that by (simp add: flags_ok_def posted_wf_def)
    then show ?thesis using writable(1) True w l by (cases b) (auto simp: handleWrite_def Let_def intro: flags split: if_splits)
  qed (use writable in \<open>simp add: handleWrite_def\<close>)
qed (auto simp: handleError_def intro: flags)

section \<open>The channel follows the flags\<close>

definition conn_mask :: "bool \<Rightarrow> bool \<Rightarrow> u32" where
  "conn_mask r w = (if r then kEPOLLIN OR kEPOLLET OR kEPOLLRDHUP else 0) OR (if w then kEPOLLOUT else 0)"

lemma mask_bits:
  "kEPOLLIN OR kEPOLLET OR kEPOLLRDHUP = conn_mask True False" "conn_mask True w OR kEPOLLOUT = conn_mask True True"
  "conn_mask True w AND NOT kEPOLLOUT = conn_mask True False" "conn_mask r w AND kEPOLLOUT \<noteq> 0 \<longleftrightarrow> w" "conn_mask r w AND kEPOLLIN \<noteq> 0 \<longleftrightarrow> r"
  by (cases r; cases w; simp add: conn_mask_def epoll_bits)+

definition chan_ok :: "nat \<Rightarrow> Conn \<Rightarrow> Channel \<Rightarrow> interest \<Rightarrow> bool" where
  "chan_ok fd c ch k \<longleftrightarrow> ch_fd ch = fd \<and> ch_tied ch \<and>
     (if co_chRead c
      then ch_inEpoll ch \<and> ch_events ch = conn_mask True (co_chWrite c) \<and> um_find k fd = Some (ch_events ch) \<and> ch_readCb ch \<and> ch_writeCb ch \<and> ch_errorCb ch
      else \<not> ch_inEpoll ch \<and> um_find k fd = None \<and> \<not> ch_readCb ch \<and> \<not> ch_writeCb ch \<and> \<not> ch_errorCb ch)"

lemma chan_close_ok:
  assumes "chan_close ok ch k = (ch', k')" "ch_inEpoll ch" "um_find k (ch_fd ch) = Some ev"
  shows "\<not> ch_inEpoll ch' \<and> um_find k' (ch_fd ch) = None \<and> ch_fd ch' = ch_fd ch \<and> ch_tied ch' = ch_tied ch \<and>
    \<not> ch_readCb ch' \<and> \<not> ch_writeCb ch' \<and> \<not> ch_errorCb ch'"
  using assms
  by (auto simp: chan_close_def disableAll_def updateChannel_def removeChannel_def ctl_mod_def ctl_del_def um_find_set um_find_erase)

lemma chan_calls_ok:
  assumes ch: "chan_ok fd c ch k" and run: "chan_calls ok c c' ch k = (ch', k')" and fl: "flags_ok c" "flags_ok c'"
    and rd: "co_chRead c' \<Longrightarrow> co_chRead c"
  shows "chan_ok fd c' ch' k'"
proof (cases "co_chRead c \<and> \<not> co_chRead c'")
  case True
  then show ?thesis using ch run chan_close_ok [of ok ch k ch' k'] by (simp add: chan_calls_def chan_ok_def)
next
  case False
  show ?thesis
  proof (cases "co_chRead c'")
    case True
    then show ?thesis using ch run rd
      by (auto simp: chan_calls_def chan_ok_def disableWriting_def enableWriting_def updateChannel_def ctl_mod_def um_find_set mask_bits
          split: if_splits)
  next
    case no: False
    then have "\<not> co_chRead c" "\<not> co_chWrite c" "\<not> co_chWrite c'" using False fl by (auto simp: flags_ok_def)
    then show ?thesis using ch run no by (simp add: chan_calls_def chan_ok_def)
  qed
qed

lemma read_flag_simps [simp]:
  "co_chRead (conn_event e c) = co_chRead c" "co_chRead (send_rest buf n c) = co_chRead c"
  by (simp_all add: conn_event_def send_rest_def startWriting_def)

lemma read_flag_close: "co_chRead (handleClose c) \<Longrightarrow> co_chRead c" "co_chRead (closeInLoop c) \<Longrightarrow> co_chRead c" "co_chRead (runClose b c) \<Longrightarrow> co_chRead c"
  by (auto simp: handleClose_def closeInLoop_def runClose_def split: if_splits)

lemma read_flag_send: "sendBufferInLoop rs buf c = Some (c', rs') \<Longrightarrow> co_chRead c' = co_chRead c"
  by (auto simp: sendBufferInLoop_def split: if_splits option.splits sum.splits)

lemma read_flag_owner: "owner_step c c' \<Longrightarrow> co_chRead c' \<Longrightarrow> co_chRead c"
  by (induction rule: owner_step.induct)
    (auto simp: conn_send_def conn_sendBuffer_def sendInLoop_def run_posted_def conn_shutdown_def forceClose_def
      split: if_splits list.splits conn_post.splits dest!: read_flag_send read_flag_close)

definition closed_ok :: "Conn \<Rightarrow> bool" where
  "closed_ok c \<longleftrightarrow> (co_chRead c \<longleftrightarrow> closes c = 0)"

lemma closed_simps [simp]:
  "closed_ok (c\<lparr>co_state := st\<rparr>) = closed_ok c" "closed_ok (c\<lparr>co_posted := ps\<rparr>) = closed_ok c" "closed_ok (c\<lparr>co_input := b\<rparr>) = closed_ok c"
  "closed_ok (conn_event EWriteComplete c) = closed_ok c" "closed_ok (c\<lparr>co_writing := v, co_chWrite := w\<rparr>) = closed_ok c"
  by (simp_all add: closed_ok_def closes_event)

lemma closed_close [simp]: "closed_ok c \<Longrightarrow> closed_ok (handleClose c)" "closed_ok c \<Longrightarrow> closed_ok (closeInLoop c)" "closed_ok c \<Longrightarrow> closed_ok (runClose b c)"
proof -
  show h: "closed_ok (handleClose c)" if "closed_ok c" for c using that by (simp add: handleClose_def closed_ok_def closes_event)
  show l: "closed_ok (closeInLoop c)" if "closed_ok c" for c using that h by (simp add: closeInLoop_def)
  show "closed_ok (runClose b c)" if "closed_ok c" using that l by (simp add: runClose_def)
qed

lemma closed_send: "sendBufferInLoop rs buf c = Some (c', rs') \<Longrightarrow> closed_ok c' = closed_ok c"
  using read_flag_send [of rs buf c c' rs'] closes_sendBuffer [of rs buf c c' rs'] by (simp add: closed_ok_def)

lemma closed_owner: "owner_step c c' \<Longrightarrow> closed_ok c \<Longrightarrow> closed_ok c'"
  by (induction rule: owner_step.induct)
    (auto simp: conn_send_def conn_sendBuffer_def sendInLoop_def run_posted_def conn_shutdown_def forceClose_def
      split: if_splits list.splits conn_post.splits dest!: closed_send)

lemma closed_write_loop: "write_loop rs c = Some (b, c') \<Longrightarrow> closed_ok c' = closed_ok c"
  by (induction rs c rule: write_loop.induct) (auto simp: closed_ok_def split: if_splits)

lemma closed_handler: "handler_step c c' \<Longrightarrow> closed_ok c \<Longrightarrow> closed_ok c'"
proof (induction rule: handler_step.induct)
  case (writable rs c c')
  then show ?case by (auto simp: handleWrite_def Let_def split: if_splits option.splits prod.splits bool.splits dest!: closed_write_loop)
qed (auto simp: handleError_def)

lemma chan_reach_inv: "chan_reach fd c ch k \<Longrightarrow> flags_ok c \<and> chan_ok fd c ch k \<and> closed_ok c"
proof (induction rule: chan_reach.induct)
  case (attach k ch k')
  have "flags_ok (attachToLoop TcpConnection_make)"
    by (simp add: attachToLoop_def) (simp add: TcpConnection_make_def flags_ok_def posted_wf_def, simp add: readableBytes_def Buffer_make_def)
  then show ?case using attach
    by (auto simp: chan_ok_def chan_attach_def conn_channel_def Channel_make_def enableReadingET_def updateChannel_def ctl_add_def um_find_set
        mask_bits attachToLoop_def TcpConnection_make_def closed_ok_def closes_def conn_event_def)
next
  case (owner c ch k c' ok ch' k')
  then show ?case using flags_owner chan_calls_ok read_flag_owner closed_owner by blast
next
  case (handler c ch k c' ok ch' k')
  then have "co_chRead c" by (auto simp: chan_ok_def split: if_splits)
  then show ?case using handler flags_handler chan_calls_ok closed_handler by blast
next
  case (others c ch k k')
  then show ?case by (simp add: chan_ok_def)
qed

text \<open>C20: The kernel is asked for what the connection needs: while bytes wait in the output buffer of an open connection, the writable
  event is registered for its descriptor; an open connection is registered for input; a closed one is not
  registered at all and its callbacks are null.\<close>

theorem interest_follows_connection:
  assumes "chan_reach fd c ch k"
  shows "if closes c = 0
    then \<exists>ev. um_find k fd = Some ev \<and> ev AND kEPOLLIN \<noteq> 0 \<and> (content (co_output c) \<noteq> [] \<longrightarrow> ev AND kEPOLLOUT \<noteq> 0)
    else um_find k fd = None \<and> \<not> ch_readCb ch \<and> \<not> ch_writeCb ch \<and> \<not> ch_errorCb ch"
proof -
  have inv: "flags_ok c" "chan_ok fd c ch k" "closed_ok c" using chan_reach_inv [OF assms] by auto
  have "co_writing c" if "content (co_output c) \<noteq> []"
    using that inv(1) readable_content [of "co_output c"] by (auto simp: flags_ok_def)
  then show ?thesis using inv by (auto simp: chan_ok_def closed_ok_def flags_ok_def mask_bits)
qed

lemma chan_sample:
  obtains c ch k where "chan_reach 9 c ch k" "content (co_output c) = ''bc''" "closes c = 0"
proof -
  let ?c = "attachToLoop TcpConnection_make" and ?b = "bu_append ''abc'' (Buffer_make kBufferInit)"
  let ?d = "send_rest ?b 2 (?c\<lparr>co_wire := ''a''\<rparr>)"
  obtain ch k where a: "chan_attach True (conn_channel 9) [] = (ch, k)" by fastforce
  have b: "content ?b = ''abc''" "readableBytes ?b = 3" using length_content [of ?b] by (simp_all add: content_append)
  have st: "co_state ?c = kConnected" "co_wire ?c = []" "co_chRead ?c" "closes ?c = 0" "co_output ?c = Buffer_make kBufferInit"
    by (simp_all add: attachToLoop_def conn_event_def TcpConnection_make_def closes_def)
  have "conn_send True [Inr 1] ''abc'' ?c = Some (?d, [])"
    using idle_sample st b by (simp add: conn_send_def sendInLoop_def sendBufferInLoop_def idle_def)
  then have o: "owner_step ?c ?d" by (rule owner_step.send)
  obtain ch' k' where "chan_calls True ?c ?d ch k = (ch', k')" by fastforce
  then have r: "chan_reach 9 ?d ch' k'" using chan_reach.owner [OF chan_reach.attach [OF _ a] o] by simp
  have "content (co_output ?d) = ''bc''" "closes ?d = 0" using st b by (simp_all add: send_rest_def startWriting_def content_append)
  then show ?thesis using r that by blast
qed

theorem interest_follows_connection_witness:
  "\<exists>c ch k ev. chan_reach 9 c ch k \<and> content (co_output c) = ''bc'' \<and> um_find k 9 = Some ev \<and> ev AND kEPOLLOUT \<noteq> 0"
proof -
  obtain c ch k where c: "chan_reach 9 c ch k" "content (co_output c) = ''bc''" "closes c = 0" by (rule chan_sample)
  then show ?thesis using interest_follows_connection [OF c(1)] by auto
qed

section \<open>The order of the handlers\<close>

text \<open>\<^verbatim>\<open>Channel::handleEvent\<close> with the callbacks of a connection; \<open>evs\<close> are the events the kernel reports, \<open>rd\<close> and \<open>wr\<close> the results of the
  system calls of the handlers, \<open>msg\<close> the message callback.\<close>

definition event_channel :: "u32 \<Rightarrow> (Conn \<times> 's) option \<Rightarrow> Channel" where
  "event_channel evs st =
     (case st of
        None \<Rightarrow> Channel_make 0
      | Some (c, s) \<Rightarrow> (Channel_make 0)\<lparr>ch_revents := evs, ch_readCb := co_chRead c, ch_writeCb := co_chRead c, ch_errorCb := co_chRead c, ch_tied := True\<rparr>)"

definition conn_handleEvent ::
  "(Conn \<times> 's \<Rightarrow> Conn \<times> 's) \<Rightarrow> (int + string) list \<Rightarrow> wres list \<Rightarrow> u32 \<Rightarrow> Conn \<times> 's \<Rightarrow> (Conn \<times> 's) option" where
  "conn_handleEvent msg rd wr evs cs =
     handleEvent (event_channel evs)
       (map_option (\<lambda>(c, s). (handleError c, s)))
       (\<lambda>st. case st of None \<Rightarrow> None | Some cs \<Rightarrow> handleRead msg rd cs)
       (\<lambda>st. case st of None \<Rightarrow> None | Some (c, s) \<Rightarrow> map_option (\<lambda>c'. (c', s)) (handleWrite wr c))
       (Some cs)"

text \<open>Nothing runs after the close: an error or hang-up closes the connection without reading or writing; when the read handler
  closes it, the write handler does not run although the same report says that the socket is writable; events of a
  connection that is already closed are ignored.\<close>

theorem no_handler_after_close:
  assumes "evs AND (kEPOLLERR OR kEPOLLHUP) \<noteq> 0 \<and> co_chRead c \<and> r = (handleError c, s) \<or>
    evs AND (kEPOLLERR OR kEPOLLHUP) = 0 \<and> evs AND (kEPOLLRDHUP OR kEPOLLIN) \<noteq> 0 \<and> co_chRead c \<and>
      handleRead msg rd (c, s) = Some r \<and> \<not> co_chRead (fst r) \<or>
    \<not> co_chRead c \<and> r = (c, s)"
  shows "conn_handleEvent msg rd wr evs (c, s) = Some r"
  using assms by (cases r) (auto simp: conn_handleEvent_def handleEvent_def event_channel_def Channel_make_def Let_def)

theorem no_handler_after_close_witness:
  "\<exists>c c'. co_chRead c \<and> conn_handleEvent (\<lambda>cs. cs) [Inr []] [Inr 3] (kEPOLLIN OR kEPOLLOUT) (c, ()) = Some (c', ()) \<and> co_state c' = kDisconnected"
proof -
  let ?c = "attachToLoop TcpConnection_make"
  obtain n b where f: "readFd (Inr []) (co_input ?c) = (Inr n, b)" "n = 0" by (simp add: readFd_def Let_def)
  have c: "co_chRead ?c" "co_state ?c = kConnected" by (simp_all add: attachToLoop_def conn_event_def)
  let ?d = "handleClose (?c\<lparr>co_input := b\<rparr>)"
  have "handleRead (\<lambda>cs. cs) [Inr []] (?c, ()) = Some (?d, ())" using f by simp
  moreover have "\<not> co_chRead ?d" "co_state ?d = kDisconnected" using c by (simp_all add: handleClose_def conn_event_def)
  moreover have "(kEPOLLIN OR kEPOLLOUT) AND (kEPOLLERR OR kEPOLLHUP) = 0" "(kEPOLLIN OR kEPOLLOUT) AND (kEPOLLRDHUP OR kEPOLLIN) \<noteq> 0"
    by (simp_all add: epoll_bits)
  ultimately show ?thesis
    using no_handler_after_close [of "kEPOLLIN OR kEPOLLOUT" ?c "(?d, ())" "()" "\<lambda>cs. cs" "[Inr []]" "[Inr 3]"] c(1) by auto
qed

end
