(* ===== verification/Sockets.thy ===== *)
theory Sockets
  imports Cli Dispatch
begin

text \<open>
  Sockets (\<^verbatim>\<open>netlib/src/Socket.cpp\<close>) and the acceptor that owns the listening one (\<^verbatim>\<open>netlib/src/Acceptor.cpp\<close>). System calls are recorded in
  order with their arguments, and their results are inputs. Descriptors belong to \<^verbatim>\<open>Socket\<close> objects that can be moved;
  the kernel's table of open descriptors is part of the state. Lemmas: the address given to the kernel is the one asked for, every descriptor
  is closed once, by the object that owns it, and the listening socket is registered until accepting is paused.
\<close>

unbundle bit_operations_syntax

section \<open>Addresses\<close>

datatype sockaddr = SaIn string "16 word" | SaUn string

text \<open>\<^verbatim>\<open>inet_pton\<close> decides whether the text is an address.\<close>

definition toSockaddrIn :: "net_api \<Rightarrow> Endpoint \<Rightarrow> exn + sockaddr" where
  "toSockaddrIn N e =
     (if os_is_ipv4 N (ep_ip e) then Inr (SaIn (ep_ip e) (ep_port e))
      else Inl (RuntimeError (''Socket: invalid ipv4 address: '' @ ep_ip e)))"

text \<open>\<^verbatim>\<open>strncpy\<close> into a zeroed array: up to the first zero byte, and not the last place of the array.\<close>

definition toSockaddrUn :: "Endpoint \<Rightarrow> sockaddr" where
  "toSockaddrUn e = SaUn (take (kSunPath - 1) (takeWhile (\<lambda>c. c \<noteq> CHR 0x00) (ep_path e)))"

text \<open>The address of the peer that \<^verbatim>\<open>accept\<close> fills in; the path is what \<^verbatim>\<open>sun_path\<close> holds up to its first zero byte.\<close>

definition peer_endpoint :: "sockaddr \<Rightarrow> exn + Endpoint" where
  "peer_endpoint sa = (case sa of SaIn ip port \<Rightarrow> Inr (Endpoint_make ip port) | SaUn path \<Rightarrow> unixPath path)"

section \<open>Calls\<close>

datatype sys_call =
    CSocket Family | CNoDelay int | CReuseAddr int | CReusePort int | CKeepAlive int | CUnlink string | CBind int sockaddr | CListen int int
  | CConnect int sockaddr | CShutdownWrite int | COpenNull | CClose int

record Socket =
  so_fd :: int
  so_family :: Family

text \<open>\<open>r\<close> is the result of \<^verbatim>\<open>socket\<close>.\<close>

definition Socket_make :: "Family \<Rightarrow> int \<Rightarrow> exn + Socket" where
  "Socket_make fam r = (if r < 0 then Inl (RuntimeError ''Socket: socket() failed'') else Inr \<lparr>so_fd = r, so_family = fam\<rparr>)"

definition Socket_adopt :: "int \<Rightarrow> Family \<Rightarrow> Socket" where
  "Socket_adopt fd fam = \<lparr>so_fd = fd, so_family = fam\<rparr>"

definition setNoDelay :: "Socket \<Rightarrow> sys_call list" where
  "setNoDelay so = (if so_family so \<noteq> Tcp then [] else [CNoDelay (so_fd so)])"

definition setReuseAddr :: "Socket \<Rightarrow> sys_call list" where
  "setReuseAddr so = [CReuseAddr (so_fd so)]"

definition setReusePort :: "Socket \<Rightarrow> sys_call list" where
  "setReusePort so = [CReusePort (so_fd so)]"

definition setKeepAlive :: "Socket \<Rightarrow> sys_call list" where
  "setKeepAlive so = [CKeepAlive (so_fd so)]"

definition shutdownWrite :: "Socket \<Rightarrow> sys_call list" where
  "shutdownWrite so = [CShutdownWrite (so_fd so)]"

definition socket_bind :: "net_api \<Rightarrow> int \<Rightarrow> Endpoint \<Rightarrow> Socket \<Rightarrow> (exn + unit) \<times> sys_call list" where
  "socket_bind N r e so =
     (if ep_family e = Unix then
        (if r < 0 then Inl (RuntimeError ''Socket: bind() unix failed'') else Inr (),
         [CUnlink (ep_path e), CBind (so_fd so) (toSockaddrUn e)])
      else
        (case toSockaddrIn N e of
           Inl ex \<Rightarrow> (Inl ex, [])
         | Inr sa \<Rightarrow> (if r < 0 then Inl (RuntimeError ''Socket: bind() failed'') else Inr (), [CBind (so_fd so) sa])))"

definition socket_listen :: "int \<Rightarrow> int \<Rightarrow> Socket \<Rightarrow> (exn + unit) \<times> sys_call list" where
  "socket_listen r backlog so =
     (if r < 0 then Inl (RuntimeError ''Socket: listen() failed'') else Inr (), [CListen (so_fd so) backlog])"

definition socket_connect :: "net_api \<Rightarrow> int \<Rightarrow> Endpoint \<Rightarrow> Socket \<Rightarrow> (exn + int) \<times> sys_call list" where
  "socket_connect N r e so =
     (if ep_family e = Unix then (Inr r, [CConnect (so_fd so) (toSockaddrUn e)])
      else (case toSockaddrIn N e of Inl ex \<Rightarrow> (Inl ex, []) | Inr sa \<Rightarrow> (Inr r, [CConnect (so_fd so) sa])))"

text \<open>\<^verbatim>\<open>Socket::accept\<close>: the descriptor with the peer, or no connection with the error; \<^verbatim>\<open>unixPath\<close> may throw.\<close>

definition socket_accept :: "int + (int \<times> sockaddr) \<Rightarrow> exn + (int + (Socket \<times> Endpoint))" where
  "socket_accept r =
     (case r of
        Inl e \<Rightarrow> Inr (Inl e)
      | Inr (fd, sa) \<Rightarrow>
          (case peer_endpoint sa of
             Inl ex \<Rightarrow> Inl ex
           | Inr peer \<Rightarrow> Inr (Inr (Socket_adopt fd (case sa of SaIn _ _ \<Rightarrow> Tcp | SaUn _ \<Rightarrow> Unix), peer))))"

section \<open>The acceptor\<close>

definition kBacklog :: int where "kBacklog = 1024"

record Acceptor =
  ac_addr :: Endpoint
  ac_sock :: Socket
  ac_idleFd :: int
  ac_ch :: Channel

text \<open>\<open>rSock\<close>, \<open>rBind\<close>, \<open>rListen\<close>, \<open>rOpen\<close>: results of the calls; \<open>ok\<close>: the poller can register the descriptor. When the constructor
  throws, the socket that exists already is closed.\<close>

definition Acceptor_make ::
  "net_api \<Rightarrow> int \<Rightarrow> int \<Rightarrow> int \<Rightarrow> int \<Rightarrow> bool \<Rightarrow> Endpoint \<Rightarrow> interest \<Rightarrow> (exn + Acceptor \<times> interest) \<times> sys_call list" where
  "Acceptor_make N rSock rBind rListen rOpen ok addr k =
     (case Socket_make (ep_family addr) rSock of
        Inl ex \<Rightarrow> (Inl ex, [CSocket (ep_family addr)])
      | Inr so \<Rightarrow>
          (let pre = CSocket (ep_family addr) # setReuseAddr so @ setReusePort so in
           case socket_bind N rBind addr so of
             (Inl ex, cs) \<Rightarrow> (Inl ex, pre @ cs @ [CClose (so_fd so)])
           | (Inr _, cs) \<Rightarrow>
               (case socket_listen rListen kBacklog so of
                  (Inl ex, cs2) \<Rightarrow> (Inl ex, pre @ cs @ cs2 @ [CClose (so_fd so)])
                | (Inr _, cs2) \<Rightarrow>
                    (case enableReadingET ok ((Channel_make (nat (so_fd so)))\<lparr>ch_readCb := True\<rparr>) k of
                       (ch, k1) \<Rightarrow>
                         (Inr (\<lparr>ac_addr = addr, ac_sock = so, ac_idleFd = rOpen, ac_ch = ch\<rparr>, k1), pre @ cs @ cs2 @ [COpenNull])))))"

definition acceptor_pause :: "bool \<Rightarrow> Acceptor \<Rightarrow> interest \<Rightarrow> Acceptor \<times> interest" where
  "acceptor_pause ok a k = (case disableAll ok (ac_ch a) k of (ch, k1) \<Rightarrow> (a\<lparr>ac_ch := ch\<rparr>, k1))"

text \<open>\<open>name\<close>: what \<^verbatim>\<open>getsockname\<close> returns.\<close>

definition listenPort :: "sockaddr option \<Rightarrow> Acceptor \<Rightarrow> 16 word" where
  "listenPort name a =
     (if ep_family (ac_addr a) \<noteq> Tcp then 0
      else (case name of Some (SaIn ip port) \<Rightarrow> port | _ \<Rightarrow> 0))"

definition Acceptor_destroy :: "Acceptor \<Rightarrow> sys_call list" where
  "Acceptor_destroy a = (if ac_idleFd a \<ge> 0 then [CClose (ac_idleFd a)] else [])"

section \<open>Who owns a descriptor\<close>

text \<open>The open descriptors of sockets, the \<^verbatim>\<open>Socket\<close> objects (a moved-from one has the descriptor -1), the descriptors given away
  by \<^verbatim>\<open>releaseFd\<close>, and whether a descriptor was ever closed that was not open.\<close>

record Fds =
  fs_open :: "int list"
  fs_objs :: "(nat, Socket) umap"
  fs_released :: "int list"
  fs_bad :: bool

definition Fds_make :: Fds where
  "Fds_make = \<lparr>fs_open = [], fs_objs = [], fs_released = [], fs_bad = False\<rparr>"

definition sys_close :: "int \<Rightarrow> Fds \<Rightarrow> Fds" where
  "sys_close fd s = s\<lparr>fs_open := removeAll fd (fs_open s), fs_bad := fs_bad s \<or> fd \<notin> set (fs_open s)\<rparr>"

text \<open>A new object for a descriptor that \<^verbatim>\<open>socket\<close> or \<^verbatim>\<open>accept4\<close> returned.\<close>

definition socket_new :: "nat \<Rightarrow> int \<Rightarrow> Family \<Rightarrow> Fds \<Rightarrow> Fds" where
  "socket_new i fd fam s = s\<lparr>fs_open := fd # fs_open s, fs_objs := um_set i (Socket_adopt fd fam) (fs_objs s)\<rparr>"

definition socket_moveConstruct :: "nat \<Rightarrow> nat \<Rightarrow> Fds \<Rightarrow> Fds" where
  "socket_moveConstruct i other s =
     (case um_find (fs_objs s) other of
        None \<Rightarrow> s
      | Some so \<Rightarrow> s\<lparr>fs_objs := um_set other (so\<lparr>so_fd := -1\<rparr>) (um_set i so (fs_objs s))\<rparr>)"

definition socket_moveAssign :: "nat \<Rightarrow> nat \<Rightarrow> Fds \<Rightarrow> Fds" where
  "socket_moveAssign i other s =
     (case (um_find (fs_objs s) i, um_find (fs_objs s) other) of
        (Some me, Some so) \<Rightarrow>
          if i \<noteq> other then
            (let s1 = (if so_fd me \<ge> 0 then sys_close (so_fd me) s else s)
             in s1\<lparr>fs_objs := um_set other (so\<lparr>so_fd := -1\<rparr>) (um_set i so (fs_objs s1))\<rparr>)
          else s
      | _ \<Rightarrow> s)"

definition socket_destroy :: "nat \<Rightarrow> Fds \<Rightarrow> Fds" where
  "socket_destroy i s =
     (case um_find (fs_objs s) i of
        None \<Rightarrow> s
      | Some so \<Rightarrow>
          (let s1 = (if so_fd so \<ge> 0 then sys_close (so_fd so) s else s) in s1\<lparr>fs_objs := um_erase i (fs_objs s1)\<rparr>))"

definition releaseFd :: "nat \<Rightarrow> Fds \<Rightarrow> int \<times> Fds" where
  "releaseFd i s =
     (case um_find (fs_objs s) i of
        None \<Rightarrow> (-1, s)
      | Some so \<Rightarrow>
          (so_fd so, s\<lparr>fs_objs := um_set i (so\<lparr>so_fd := -1\<rparr>) (fs_objs s),
                       fs_released := (if so_fd so \<ge> 0 then so_fd so # fs_released s else fs_released s)\<rparr>))"

text \<open>The kernel gives out descriptors that are not open; a new object is not one that exists.\<close>

inductive fd_reach :: "Fds \<Rightarrow> bool" where
  init: "fd_reach Fds_make"
| new: "fd_reach s \<Longrightarrow> 0 \<le> fd \<Longrightarrow> fd \<notin> set (fs_open s) \<Longrightarrow> um_find (fs_objs s) i = None \<Longrightarrow> fd_reach (socket_new i fd fam s)"
| construct: "fd_reach s \<Longrightarrow> um_find (fs_objs s) i = None \<Longrightarrow> fd_reach (socket_moveConstruct i j s)"
| assign: "fd_reach s \<Longrightarrow> fd_reach (socket_moveAssign i j s)"
| destroy: "fd_reach s \<Longrightarrow> fd_reach (socket_destroy i s)"
| release: "fd_reach s \<Longrightarrow> fd_reach (snd (releaseFd i s))"

definition owns :: "Fds \<Rightarrow> nat \<Rightarrow> int \<Rightarrow> bool" where
  "owns s i fd \<longleftrightarrow> (\<exists>so. um_find (fs_objs s) i = Some so \<and> so_fd so = fd) \<and> 0 \<le> fd"

definition owner_ok :: "int set \<Rightarrow> (nat \<Rightarrow> int \<Rightarrow> bool) \<Rightarrow> int set \<Rightarrow> bool" where
  "owner_ok Op Ow R \<longleftrightarrow> (\<forall>i fd. Ow i fd \<longrightarrow> fd \<in> Op) \<and> (\<forall>i j fd. Ow i fd \<longrightarrow> Ow j fd \<longrightarrow> i = j) \<and>
     (\<forall>i fd fd'. Ow i fd \<longrightarrow> Ow i fd' \<longrightarrow> fd = fd') \<and> (\<forall>fd \<in> Op. (\<exists>i. Ow i fd) \<or> fd \<in> R)"

definition fd_inv :: "Fds \<Rightarrow> bool" where
  "fd_inv s \<longleftrightarrow> owner_ok (set (fs_open s)) (owns s) (set (fs_released s)) \<and> \<not> fs_bad s"

lemma owns_new: "um_find (fs_objs s) i = None \<Longrightarrow> 0 \<le> fd \<Longrightarrow> owns (socket_new i fd fam s) j f \<longleftrightarrow> (if j = i then f = fd else owns s j f)"
  by (auto simp: owns_def socket_new_def Socket_adopt_def um_find_set)

lemma owns_close [simp]: "owns (sys_close fd s) = owns s" "fs_objs (sys_close fd s) = fs_objs s"
  by (auto simp: owns_def sys_close_def fun_eq_iff)

text \<open>The descriptor of \<open>other\<close> goes to \<open>i\<close>, and \<open>other\<close> keeps none.\<close>

lemma owns_move:
  assumes "um_find (fs_objs s) other = Some so" "i \<noteq> other"
  shows "owns (s\<lparr>fs_objs := um_set other (so\<lparr>so_fd := -1\<rparr>) (um_set i so (fs_objs s))\<rparr>) j f \<longleftrightarrow>
    (if j = other then False else if j = i then owns s other f else owns s j f)"
  using assms by (auto simp: owns_def um_find_set)

lemma owner_okI:
  assumes "\<And>i fd. Ow i fd \<Longrightarrow> fd \<in> Op" "\<And>i j fd. Ow i fd \<Longrightarrow> Ow j fd \<Longrightarrow> i = j" "\<And>i fd fd'. Ow i fd \<Longrightarrow> Ow i fd' \<Longrightarrow> fd = fd'"
    "\<And>fd. fd \<in> Op \<Longrightarrow> (\<exists>i. Ow i fd) \<or> fd \<in> R"
  shows "owner_ok Op Ow R"
  unfolding owner_ok_def using assms by blast

lemma owner_okD:
  assumes "owner_ok Op Ow R"
  shows "Ow i fd \<Longrightarrow> fd \<in> Op" "Ow i fd \<Longrightarrow> Ow j fd \<Longrightarrow> i = j" "Ow i fd \<Longrightarrow> Ow i fd' \<Longrightarrow> fd = fd'"
    "fd \<in> Op \<Longrightarrow> (\<exists>i. Ow i fd) \<or> fd \<in> R"
  using assms unfolding owner_ok_def by (blast, blast, blast, blast)

lemma owner_ok_close:
  assumes ok: "owner_ok Op Ow R" and own: "Ow i fd"
  shows "owner_ok (Op - {fd}) (\<lambda>j f. j \<noteq> i \<and> Ow j f) R"
proof (rule owner_okI)
  note d = owner_okD [OF ok]
  fix j f
  show "j \<noteq> i \<and> Ow j f \<Longrightarrow> f \<in> Op - {fd}" using d(1,2) own by blast
  show "j \<noteq> i \<and> Ow j f \<Longrightarrow> k \<noteq> i \<and> Ow k f \<Longrightarrow> j = k" for k using d(2) by blast
  show "j \<noteq> i \<and> Ow j f \<Longrightarrow> j \<noteq> i \<and> Ow j f' \<Longrightarrow> f = f'" for f' using d(3) by blast
  show "f \<in> Op - {fd} \<Longrightarrow> (\<exists>j. j \<noteq> i \<and> Ow j f) \<or> f \<in> R" using d(3,4) own by (metis DiffD1 DiffD2 singletonI)
qed

lemma owner_ok_move:
  assumes ok: "owner_ok Op Ow R" and i: "\<And>f. \<not> Ow i f" "i \<noteq> j"
  shows "owner_ok Op (\<lambda>k f. if k = j then False else if k = i then Ow j f else Ow k f) R"
proof (rule owner_okI)
  note d = owner_okD [OF ok]
  let ?O = "\<lambda>k f. if k = j then False else if k = i then Ow j f else Ow k f"
  fix k f
  show "?O k f \<Longrightarrow> f \<in> Op" using d(1) by (auto split: if_splits)
  show "?O k f \<Longrightarrow> ?O l f \<Longrightarrow> k = l" for l using d(2) i by (auto split: if_splits)
  show "?O k f \<Longrightarrow> ?O k f' \<Longrightarrow> f = f'" for f' using d(3) by (auto split: if_splits)
  assume "f \<in> Op"
  then consider k where "Ow k f" | "f \<in> R" using d(4) by blast
  then show "(\<exists>k. ?O k f) \<or> f \<in> R"
  proof cases
    case (1 k)
    then have "?O (if k = j then i else k) f" using i by auto
    then show ?thesis by blast
  qed simp
qed

lemma owner_ok_new:
  assumes ok: "owner_ok Op Ow R" and i: "\<And>f. \<not> Ow i f" and new: "fd \<notin> Op"
  shows "owner_ok (insert fd Op) (\<lambda>k f. if k = i then f = fd else Ow k f) R"
proof (rule owner_okI)
  note d = owner_okD [OF ok]
  let ?O = "\<lambda>k f. if k = i then f = fd else Ow k f"
  fix k f
  show "?O k f \<Longrightarrow> f \<in> insert fd Op" using d(1) by (auto split: if_splits)
  show "?O k f \<Longrightarrow> ?O l f \<Longrightarrow> k = l" for l using d(1,2) new by (auto split: if_splits)
  show "?O k f \<Longrightarrow> ?O k f' \<Longrightarrow> f = f'" for f' using d(3) by (auto split: if_splits)
  show "f \<in> insert fd Op \<Longrightarrow> (\<exists>k. ?O k f) \<or> f \<in> R" using d(4) i by (metis insertE)
qed

lemma owner_ok_release:
  assumes ok: "owner_ok Op Ow R" and own: "\<And>f. Ow i f \<Longrightarrow> f \<in> R'" and R: "R \<subseteq> R'"
  shows "owner_ok Op (\<lambda>j f. j \<noteq> i \<and> Ow j f) R'"
proof (rule owner_okI)
  note d = owner_okD [OF ok]
  fix j f
  show "j \<noteq> i \<and> Ow j f \<Longrightarrow> f \<in> Op" using d(1) by blast
  show "j \<noteq> i \<and> Ow j f \<Longrightarrow> k \<noteq> i \<and> Ow k f \<Longrightarrow> j = k" for k using d(2) by blast
  show "j \<noteq> i \<and> Ow j f \<Longrightarrow> j \<noteq> i \<and> Ow j f' \<Longrightarrow> f = f'" for f' using d(3) by blast
  show "f \<in> Op \<Longrightarrow> (\<exists>j. j \<noteq> i \<and> Ow j f) \<or> f \<in> R'" using d(4) own R by (metis subsetD)
qed

text \<open>Closing the descriptor of an object that has one.\<close>

definition drop_fd :: "Socket \<Rightarrow> Fds \<Rightarrow> Fds" where
  "drop_fd so s = (if so_fd so \<ge> 0 then sys_close (so_fd so) s else s)"

lemma drop_fd_inv:
  assumes "fd_inv s" "um_find (fs_objs s) i = Some so"
  shows "owner_ok (set (fs_open (drop_fd so s))) (\<lambda>j f. j \<noteq> i \<and> owns s j f) (set (fs_released (drop_fd so s)))" "\<not> fs_bad (drop_fd so s)"
    "fs_objs (drop_fd so s) = fs_objs s" "owns (drop_fd so s) = owns s"
proof -
  have ok: "owner_ok (set (fs_open s)) (owns s) (set (fs_released s))" "\<not> fs_bad s" using assms(1) by (simp_all add: fd_inv_def)
  show "fs_objs (drop_fd so s) = fs_objs s" "owns (drop_fd so s) = owns s" by (simp_all add: drop_fd_def)
  show "owner_ok (set (fs_open (drop_fd so s))) (\<lambda>j f. j \<noteq> i \<and> owns s j f) (set (fs_released (drop_fd so s)))"
  proof (cases "so_fd so \<ge> 0")
    case True
    then have "owns s i (so_fd so)" using assms(2) by (simp add: owns_def)
    then show ?thesis using owner_ok_close [OF ok(1)] True by (simp add: drop_fd_def sys_close_def)
  next
    case False
    then have "\<not> owns s i f" for f using assms(2) by (simp add: owns_def)
    then show ?thesis using owner_ok_release [OF ok(1), of i "set (fs_released s)"] False by (simp add: drop_fd_def)
  qed
  show "\<not> fs_bad (drop_fd so s)"
    using ok assms(2) owner_okD(1) [OF ok(1), of i "so_fd so"] by (auto simp: drop_fd_def sys_close_def owns_def)
qed

lemma fd_inv_cong: "owns s' = Ow \<Longrightarrow> fs_open s' = Op \<Longrightarrow> fs_released s' = R \<Longrightarrow> owner_ok (set Op) Ow (set R) \<Longrightarrow> \<not> fs_bad s' \<Longrightarrow> fd_inv s'"
  by (simp add: fd_inv_def)

lemma fd_inv_assign: "fd_inv s \<Longrightarrow> fd_inv (socket_moveAssign i j s)"
proof -
  assume inv: "fd_inv s"
  show ?thesis
  proof (cases "um_find (fs_objs s) i = None \<or> um_find (fs_objs s) j = None \<or> i = j")
    case False
    then obtain me so where f: "um_find (fs_objs s) i = Some me" "um_find (fs_objs s) j = Some so" "i \<noteq> j" by auto
    let ?d = "drop_fd me s"
    note d = drop_fd_inv [OF inv f(1)]
    have s': "socket_moveAssign i j s = ?d\<lparr>fs_objs := um_set j (so\<lparr>so_fd := -1\<rparr>) (um_set i so (fs_objs ?d))\<rparr>"
      using f by (simp add: socket_moveAssign_def drop_fd_def Let_def)
    have o: "owns (socket_moveAssign i j s) = (\<lambda>k f. if k = j then False else if k = i then j \<noteq> i \<and> owns s j f else k \<noteq> i \<and> owns s k f)"
      unfolding s' using owns_move [of ?d j so i] f(2,3) d(3,4) by (auto simp: fun_eq_iff)
    show ?thesis
    proof (rule fd_inv_cong [OF o refl refl])
      show "owner_ok (set (fs_open (socket_moveAssign i j s))) (\<lambda>k f. if k = j then False else if k = i then j \<noteq> i \<and> owns s j f else k \<noteq> i \<and> owns s k f)
          (set (fs_released (socket_moveAssign i j s)))"
        unfolding s' using owner_ok_move [OF d(1) _ f(3)] by simp
      show "\<not> fs_bad (socket_moveAssign i j s)" using d(2) by (simp add: s')
    qed
  qed (auto simp: socket_moveAssign_def inv split: option.splits)
qed

lemma fd_reach_inv: "fd_reach s \<Longrightarrow> fd_inv s"
proof (induction rule: fd_reach.induct)
  case init
  show ?case by (simp add: fd_inv_def Fds_make_def owner_ok_def owns_def)
next
  case (new s fd i fam)
  have "\<not> owns s i f" for f using new(4) by (simp add: owns_def)
  then have "owner_ok (insert fd (set (fs_open s))) (\<lambda>k f. if k = i then f = fd else owns s k f) (set (fs_released s))"
    using owner_ok_new [of "set (fs_open s)" "owns s" "set (fs_released s)" i fd] new by (simp add: fd_inv_def)
  moreover have "owns (socket_new i fd fam s) = (\<lambda>k f. if k = i then f = fd else owns s k f)" using owns_new new(2,4) by (auto simp: fun_eq_iff)
  ultimately show ?case using new by (simp add: fd_inv_def socket_new_def)
next
  case (construct s i j)
  show ?case
  proof (cases "um_find (fs_objs s) j")
    case (Some so)
    have ij: "i \<noteq> j" using construct Some by auto
    have "\<not> owns s i f" for f using construct(2) by (simp add: owns_def)
    then have "owner_ok (set (fs_open s)) (\<lambda>k f. if k = j then False else if k = i then owns s j f else owns s k f) (set (fs_released s))"
      using owner_ok_move [of "set (fs_open s)" "owns s" "set (fs_released s)" i j] construct(3) ij by (simp add: fd_inv_def)
    moreover have "owns (socket_moveConstruct i j s) = (\<lambda>k f. if k = j then False else if k = i then owns s j f else owns s k f)"
      using owns_move [OF Some ij] Some by (auto simp: fun_eq_iff socket_moveConstruct_def)
    ultimately show ?thesis using construct(3) Some by (simp add: fd_inv_def socket_moveConstruct_def)
  qed (use construct in \<open>simp add: socket_moveConstruct_def\<close>)
next
  case (assign s i j)
  then show ?case by (intro fd_inv_assign)
next
  case (destroy s i)
  show ?case
  proof (cases "um_find (fs_objs s) i")
    case (Some so)
    note d = drop_fd_inv [OF destroy(2) Some]
    have s': "socket_destroy i s = (drop_fd so s)\<lparr>fs_objs := um_erase i (fs_objs (drop_fd so s))\<rparr>"
      using Some by (simp add: socket_destroy_def drop_fd_def Let_def)
    have "owns (socket_destroy i s) = (\<lambda>j f. j \<noteq> i \<and> owns s j f)" unfolding s' using d(3) by (auto simp: owns_def um_find_erase fun_eq_iff)
    then show ?thesis using d by (simp add: fd_inv_def s')
  qed (use destroy in \<open>simp add: socket_destroy_def\<close>)
next
  case (release s i)
  show ?case
  proof (cases "um_find (fs_objs s) i")
    case (Some so)
    let ?s = "snd (releaseFd i s)"
    have "owns ?s = (\<lambda>j f. j \<noteq> i \<and> owns s j f)" using Some by (auto simp: owns_def releaseFd_def um_find_set fun_eq_iff)
    moreover have "owner_ok (set (fs_open s)) (\<lambda>j f. j \<noteq> i \<and> owns s j f) (set (fs_released ?s))"
    proof (rule owner_ok_release)
      show "owner_ok (set (fs_open s)) (owns s) (set (fs_released s))" using release(2) by (simp add: fd_inv_def)
    qed (use Some in \<open>auto simp: releaseFd_def owns_def\<close>)
    ultimately show ?thesis using release(2) Some by (simp add: fd_inv_def releaseFd_def)
  qed (use release in \<open>simp add: releaseFd_def\<close>)
qed

text \<open>C25: Every descriptor has one owner: in every state that constructing, moving, assigning, destroying and releasing sockets can
  reach, an open descriptor belongs to exactly one \<^verbatim>\<open>Socket\<close> object or was given away by \<^verbatim>\<open>releaseFd\<close>, an object's descriptor is
  open, and no descriptor was closed that was not open.\<close>

theorem socket_owns_descriptor:
  assumes "fd_reach s"
  shows "\<not> fs_bad s \<and> (\<forall>fd \<in> set (fs_open s). (\<exists>!i. owns s i fd) \<or> fd \<in> set (fs_released s)) \<and> (\<forall>i fd. owns s i fd \<longrightarrow> fd \<in> set (fs_open s))"
proof -
  have inv: "owner_ok (set (fs_open s)) (owns s) (set (fs_released s))" "\<not> fs_bad s" using fd_reach_inv [OF assms] by (simp_all add: fd_inv_def)
  note d = owner_okD [OF inv(1)]
  have "(\<exists>!i. owns s i fd) \<or> fd \<in> set (fs_released s)" if "fd \<in> set (fs_open s)" for fd using d(2,4) that by metis
  then show ?thesis using inv(2) d(1) by blast
qed

theorem socket_owns_descriptor_witness:
  "\<exists>s. fd_reach s \<and> fs_open s = [5] \<and> (\<exists>!i. owns s i 5)"
proof -
  let ?a = "socket_new 0 5 Tcp Fds_make" let ?b = "socket_new 1 6 Tcp ?a" let ?c = "socket_moveAssign 1 0 ?b"
  note d = socket_new_def Fds_make_def socket_moveAssign_def sys_close_def Socket_adopt_def
  have "fd_reach ?a" by (rule fd_reach.new [OF fd_reach.init]) (simp_all add: Fds_make_def)
  then have "fd_reach ?b" by (rule fd_reach.new) (simp_all add: d)
  then have r: "fd_reach ?c" by (rule fd_reach.assign)
  have "fs_open ?c = [5]" "fs_released ?c = []" by (simp_all add: d)
  then show ?thesis using socket_owns_descriptor [OF r] r by (intro exI [of _ ?c]) simp
qed

section \<open>Binding\<close>

text \<open>The socket is bound to the address that was asked for: for every address that the constructors of \<^verbatim>\<open>Endpoint\<close> make, \<^verbatim>\<open>bind\<close> that
  returns has given the kernel exactly this address and port, or exactly this path, after removing an old file of that
  name; an address that is not IPv4 is refused before the kernel is called.\<close>

theorem bind_exact:
  assumes "e = Endpoint_make ip port \<or> unixPath path = Inr e \<and> CHR 0x00 \<notin> set path"
  shows "snd (socket_bind N r e so) =
      (if ep_family e = Unix then [CUnlink path, CBind (so_fd so) (SaUn path)] else if os_is_ipv4 N ip then [CBind (so_fd so) (SaIn ip port)] else []) \<and>
    (fst (socket_bind N r e so) = Inr () \<longleftrightarrow> 0 \<le> r \<and> (ep_family e = Unix \<or> os_is_ipv4 N ip))"
proof (cases "ep_family e = Unix")
  case True
  then have e: "e = \<lparr>ep_family = Unix, ep_ip = [], ep_port = 0, ep_path = path\<rparr>" "length path < kSunPath" "CHR 0x00 \<notin> set path"
    using assms by (auto simp: Endpoint_make_def unixPath_def split: if_splits)
  have "takeWhile (\<lambda>c. c \<noteq> CHR 0x00) path = path" unfolding takeWhile_eq_all_conv using e(3) by auto
  then have "toSockaddrUn e = SaUn path" using e(2) by (simp add: toSockaddrUn_def e(1) del: takeWhile_eq_all_conv)
  then show ?thesis by (simp add: socket_bind_def e(1))
next
  case False
  then have "e = Endpoint_make ip port" using assms by (auto simp: unixPath_def split: if_splits)
  then show ?thesis by (simp add: socket_bind_def toSockaddrIn_def Endpoint_make_def)
qed

theorem bind_exact_witness:
  "snd (socket_bind sample_net 0 \<lparr>ep_family = Unix, ep_ip = [], ep_port = 0, ep_path = ''/run/p''\<rparr> (Socket_adopt 4 Unix)) =
     [CUnlink ''/run/p'', CBind 4 (SaUn ''/run/p'')]"
  using bind_exact [of "\<lparr>ep_family = Unix, ep_ip = [], ep_port = 0, ep_path = ''/run/p''\<rparr>" "[]" 0 "''/run/p''" sample_net 0 "Socket_adopt 4 Unix"]
  by (simp add: unixPath_def kSunPath_def Socket_adopt_def)

section \<open>Accepting\<close>

text \<open>A peer that is bound to a path that fills \<^verbatim>\<open>sun_path\<close> completely makes \<^verbatim>\<open>accept\<close> throw, since \<^verbatim>\<open>unixPath\<close> refuses paths of that
  length; every other peer is accepted with its address.\<close>

theorem accept_peer_address:
  assumes "sa = SaIn ip port \<or> sa = SaUn path \<and> length path \<le> kSunPath"
  shows "socket_accept (Inr (fd, sa)) =
    (if sa = SaUn path \<and> length path = kSunPath then Inl (RuntimeError (''Endpoint: unix path too long: '' @ path))
     else Inr (Inr (Socket_adopt fd (if sa = SaUn path then Unix else Tcp),
       if sa = SaUn path then \<lparr>ep_family = Unix, ep_ip = [], ep_port = 0, ep_path = path\<rparr> else Endpoint_make ip port)))"
  using assms by (auto simp: socket_accept_def peer_endpoint_def unixPath_def)

theorem accept_peer_address_witness:
  "socket_accept (Inr (7, SaUn (replicate 108 CHR ''a''))) = Inl (RuntimeError (''Endpoint: unix path too long: '' @ replicate 108 CHR ''a''))"
  using accept_peer_address [of "SaUn (replicate 108 CHR ''a'')" "[]" 0 "replicate 108 CHR ''a''" 7] by (simp add: kSunPath_def)

text \<open>A listening socket is bound, listening and registered with the poller; pausing leaves it without any event, so no further connection is accepted.\<close>

theorem acceptor_listens:
  assumes "Acceptor_make N rSock rBind rListen rOpen True addr k = (Inr (a, k1), cs)" "um_find k (nat rSock) = None"
  shows "0 \<le> rBind \<and> 0 \<le> rListen \<and> ac_addr a = addr \<and> (\<exists>sa. CBind (so_fd (ac_sock a)) sa \<in> set cs) \<and> CListen (so_fd (ac_sock a)) kBacklog \<in> set cs \<and>
    um_find k1 (nat rSock) = Some (kEPOLLIN OR kEPOLLET OR kEPOLLRDHUP) \<and> um_find (snd (acceptor_pause ok a k1)) (nat rSock) = Some 0"
  using assms
  by (auto simp: Acceptor_make_def Socket_make_def socket_bind_def socket_listen_def enableReadingET_def updateChannel_def ctl_add_def Channel_make_def
      acceptor_pause_def disableAll_def ctl_mod_def um_find_set Let_def split: if_splits sum.splits)

theorem acceptor_listens_witness:
  "\<exists>a k1 cs. Acceptor_make sample_net 4 0 0 5 True (Endpoint_make ''127.0.0.1'' 8741) [] = (Inr (a, k1), cs) \<and> CListen 4 1024 \<in> set cs \<and>
     um_find k1 4 = Some (kEPOLLIN OR kEPOLLET OR kEPOLLRDHUP)"
proof -
  let ?r = "Acceptor_make sample_net 4 0 0 5 True (Endpoint_make ''127.0.0.1'' 8741) []"
  obtain a k1 cs where r: "?r = (Inr (a, k1), cs)" "so_fd (ac_sock a) = 4"
    by (auto simp: Acceptor_make_def Socket_make_def socket_bind_def socket_listen_def toSockaddrIn_def sample_net_def Endpoint_make_def split_beta)
  then show ?thesis using acceptor_listens [OF r(1)] by (auto simp: kBacklog_def)
qed

end
