(* ===== verification/Loop_Threads.thy ===== *)
theory Loop_Threads
  imports Event_Loop
begin

text \<open>
  The threads around the event loop (\<^verbatim>\<open>netlib/src/EventLoop.cpp\<close>): the thread that runs \<^verbatim>\<open>loop()\<close>, with a
  program counter for every place where it meets the others, and any number of threads that call \<^verbatim>\<open>queueInLoop\<close>,
  \<^verbatim>\<open>runInLoop\<close> and \<^verbatim>\<open>quit\<close>. A critical section of \<^verbatim>\<open>mtx_\<close> and an atomic access are one step each; between them other threads run.
  Lemmas: the loop never sleeps while a function or a stop is waiting for it; functions run in the order of their
  arrival, each once; the thread on which a function runs at once; functions that a stop leaves behind.
\<close>

section \<open>State\<close>

text \<open>The loop thread: before \<^verbatim>\<open>loop()\<close>, at the test of \<^verbatim>\<open>quit_\<close>, in the callbacks of expired timers, in \<^verbatim>\<open>epoll_wait\<close>, in the
  callbacks of the ready channels (the flag: that of the wake-up descriptor is still to come), before and in
  \<^verbatim>\<open>doPending\<close>, in the flush callbacks, and after \<^verbatim>\<open>loop()\<close>.\<close>

datatype loop_pc = LIdle | LCheck | LTimers | LPoll | LEvents bool | LPending | LRun | LFlush | LReturned

text \<open>\<open>lt_tid\<close> is \<^verbatim>\<open>tid_\<close>, \<open>lt_wake\<close> the counter of the event descriptor. \<open>lt_writers\<close>: threads that have queued a function or set \<^verbatim>\<open>quit_\<close> and
  have not yet written to the descriptor; \<open>lt_tests\<close>: threads in \<^verbatim>\<open>runInLoop\<close> whose \<^verbatim>\<open>inLoopThread()\<close> was true, and that have not
  yet read \<^verbatim>\<open>looping_\<close>. The last three record the history: functions queued, functions run by \<^verbatim>\<open>doPending\<close>, functions
  that \<^verbatim>\<open>runInLoop\<close> ran at once, with the thread.\<close>

record ('cb, 'p) LoopThreads =
  lt_el :: "('cb, 'p) EventLoop"
  lt_tid :: nat
  lt_wake :: nat
  lt_pc :: loop_pc
  lt_fns :: "('cb, 'p) Pending list"
  lt_writers :: "nat list"
  lt_tests :: "(nat \<times> ('cb, 'p) Pending) list"
  lt_posted :: "('cb, 'p) Pending list"
  lt_ran :: "('cb, 'p) Pending list"
  lt_inline :: "(nat \<times> ('cb, 'p) Pending) list"

text \<open>The constructor runs on the thread \<open>c\<close>.\<close>

definition LoopThreads_make :: "nat \<Rightarrow> ('cb, 'p) LoopThreads" where
  "LoopThreads_make c =
     \<lparr>lt_el = EventLoop_init, lt_tid = c, lt_wake = 0, lt_pc = LIdle, lt_fns = [], lt_writers = [], lt_tests = [], lt_posted = [],
      lt_ran = [], lt_inline = []\<rparr>"

section \<open>What any thread may do\<close>

text \<open>The counter of a non-blocking event descriptor does not grow beyond its maximum.\<close>

definition eventfd_write :: "nat \<Rightarrow> nat" where
  "eventfd_write n = (if n < 2 ^ 64 - 2 then Suc n else n)"

definition lt_queue :: "nat \<Rightarrow> ('cb, 'p) Pending \<Rightarrow> ('cb, 'p) LoopThreads \<Rightarrow> ('cb, 'p) LoopThreads" where
  "lt_queue t f s = s\<lparr>lt_el := queueInLoop f (lt_el s), lt_writers := t # lt_writers s, lt_posted := lt_posted s @ [f]\<rparr>"

definition lt_wakeup :: "nat \<Rightarrow> ('cb, 'p) LoopThreads \<Rightarrow> ('cb, 'p) LoopThreads" where
  "lt_wakeup t s = s\<lparr>lt_wake := eventfd_write (lt_wake s), lt_writers := remove1 t (lt_writers s)\<rparr>"

definition lt_quit :: "nat \<Rightarrow> ('cb, 'p) LoopThreads \<Rightarrow> ('cb, 'p) LoopThreads" where
  "lt_quit t s = s\<lparr>lt_el := loop_quit (lt_el s), lt_writers := t # lt_writers s\<rparr>"

definition inLoopThread :: "nat \<Rightarrow> ('cb, 'p) LoopThreads \<Rightarrow> bool" where
  "inLoopThread t s \<longleftrightarrow> lt_tid s = t"

text \<open>\<^verbatim>\<open>runInLoop\<close> reads \<^verbatim>\<open>tid_\<close> first and \<^verbatim>\<open>looping_\<close> later.\<close>

definition runInLoop_test :: "nat \<Rightarrow> ('cb, 'p) Pending \<Rightarrow> ('cb, 'p) LoopThreads \<Rightarrow> ('cb, 'p) LoopThreads" where
  "runInLoop_test t f s = (if inLoopThread t s then s\<lparr>lt_tests := (t, f) # lt_tests s\<rparr> else lt_queue t f s)"

definition runInLoop_decide :: "nat \<Rightarrow> ('cb, 'p) Pending \<Rightarrow> ('cb, 'p) LoopThreads \<Rightarrow> ('cb, 'p) LoopThreads" where
  "runInLoop_decide t f s =
    (let s1 = s\<lparr>lt_tests := remove1 (t, f) (lt_tests s)\<rparr>
     in if el_looping (lt_el s) then s1\<lparr>lt_inline := lt_inline s @ [(t, f)]\<rparr> else lt_queue t f s1)"

section \<open>The thread of the loop\<close>

definition loop_enter :: "nat \<Rightarrow> ('cb, 'p) LoopThreads \<Rightarrow> ('cb, 'p) LoopThreads" where
  "loop_enter me s = s\<lparr>lt_tid := me, lt_el := (lt_el s)\<lparr>el_looping := True\<rparr>, lt_pc := LCheck\<rparr>"

definition loop_check :: "('cb, 'p) LoopThreads \<Rightarrow> ('cb, 'p) LoopThreads" where
  "loop_check s = s\<lparr>lt_pc := (if el_quit (lt_el s) then LReturned else LTimers)\<rparr>"

definition handleWakeup :: "('cb, 'p) LoopThreads \<Rightarrow> ('cb, 'p) LoopThreads" where
  "handleWakeup s = s\<lparr>lt_wake := 0, lt_pc := LEvents False\<rparr>"

definition loop_swap :: "('cb, 'p) LoopThreads \<Rightarrow> ('cb, 'p) LoopThreads" where
  "loop_swap s = (case doPending_swap (lt_el s) of (fns, el) \<Rightarrow> s\<lparr>lt_fns := fns, lt_el := el, lt_pc := LRun\<rparr>)"

definition loop_run :: "('cb, 'p) LoopThreads \<Rightarrow> ('cb, 'p) LoopThreads" where
  "loop_run s =
     (case lt_fns s of
        [] \<Rightarrow> s\<lparr>lt_pc := LFlush\<rparr>
      | f # fs \<Rightarrow> s\<lparr>lt_fns := fs, lt_ran := lt_ran s @ [f]\<rparr>)"

text \<open>A thread is in one operation at a time; the loop thread calls them from callbacks only, and outside \<^verbatim>\<open>loop()\<close>.\<close>

definition idle_thread :: "nat \<Rightarrow> ('cb, 'p) LoopThreads \<Rightarrow> bool" where
  "idle_thread t s \<longleftrightarrow> t \<notin> set (lt_writers s) \<and> t \<notin> fst ` set (lt_tests s)"

definition may_call :: "nat \<Rightarrow> nat \<Rightarrow> ('cb, 'p) LoopThreads \<Rightarrow> bool" where
  "may_call me t s \<longleftrightarrow> idle_thread t s \<and> (t = me \<longrightarrow> lt_pc s \<notin> {LCheck, LPoll, LPending})"

text \<open>Steps that go on with what was begun: a call that is under way, and the loop thread.\<close>

inductive lt_go :: "nat \<Rightarrow> ('cb, 'p) LoopThreads \<Rightarrow> ('cb, 'p) LoopThreads \<Rightarrow> bool" for me where
  decide: "(t, f) \<in> set (lt_tests s) \<Longrightarrow> lt_go me s (runInLoop_decide t f s)"
| wrote: "t \<in> set (lt_writers s) \<Longrightarrow> lt_go me s (lt_wakeup t s)"
| enter: "idle_thread me s \<Longrightarrow> lt_pc s = LIdle \<Longrightarrow> lt_go me s (loop_enter me s)"
| check: "lt_pc s = LCheck \<Longrightarrow> lt_go me s (loop_check s)"
| timers: "idle_thread me s \<Longrightarrow> lt_pc s = LTimers \<Longrightarrow> lt_go me s (s\<lparr>lt_pc := LPoll\<rparr>)"
| poll: "lt_pc s = LPoll \<Longrightarrow> b \<longrightarrow> 0 < lt_wake s \<Longrightarrow> lt_go me s (s\<lparr>lt_pc := LEvents b\<rparr>)"
| wakeup: "idle_thread me s \<Longrightarrow> lt_pc s = LEvents True \<Longrightarrow> lt_go me s (handleWakeup s)"
| events: "idle_thread me s \<Longrightarrow> lt_pc s = LEvents False \<Longrightarrow> lt_go me s (s\<lparr>lt_pc := LPending\<rparr>)"
| swap: "lt_pc s = LPending \<Longrightarrow> lt_go me s (loop_swap s)"
| run: "idle_thread me s \<Longrightarrow> lt_pc s = LRun \<Longrightarrow> lt_go me s (loop_run s)"
| flush: "idle_thread me s \<Longrightarrow> lt_pc s = LFlush \<Longrightarrow> lt_go me s (s\<lparr>lt_pc := LCheck\<rparr>)"

inductive lt_step :: "nat \<Rightarrow> ('cb, 'p) LoopThreads \<Rightarrow> ('cb, 'p) LoopThreads \<Rightarrow> bool" for me where
  queue: "may_call me t s \<Longrightarrow> lt_step me s (lt_queue t f s)"
| test: "may_call me t s \<Longrightarrow> lt_step me s (runInLoop_test t f s)"
| quit: "may_call me t s \<Longrightarrow> lt_step me s (lt_quit t s)"
| go: "lt_go me s s' \<Longrightarrow> lt_step me s s'"

lemmas lt_poll_step = lt_go.poll [THEN lt_step.go]
lemmas lt_wrote_step = lt_go.wrote [THEN lt_step.go]

inductive lt_reach :: "nat \<Rightarrow> nat \<Rightarrow> ('cb, 'p) LoopThreads \<Rightarrow> bool" for c me where
  make: "lt_reach c me (LoopThreads_make c)"
| step: "lt_reach c me s \<Longrightarrow> lt_step me s s' \<Longrightarrow> lt_reach c me s'"

lemmas lt_op_defs = lt_queue_def lt_wakeup_def lt_quit_def inLoopThread_def runInLoop_test_def runInLoop_decide_def loop_enter_def
  loop_check_def handleWakeup_def loop_swap_def loop_run_def queueInLoop_def loop_quit_def doPending_swap_def

section \<open>The invariant\<close>

lemma eventfd_positive [simp]: "0 < eventfd_write n"
  by (simp add: eventfd_write_def)

definition order_ok :: "('cb, 'p) LoopThreads \<Rightarrow> bool" where
  "order_ok s \<longleftrightarrow> lt_ran s @ lt_fns s @ el_pending (lt_el s) = lt_posted s \<and> (lt_pc s \<noteq> LRun \<longrightarrow> lt_fns s = [])"

definition signalled :: "('cb, 'p) LoopThreads \<Rightarrow> bool" where
  "signalled s \<longleftrightarrow> 0 < lt_wake s \<or> lt_writers s \<noteq> []"

definition wake_kept :: "('cb, 'p) LoopThreads \<Rightarrow> bool" where
  "wake_kept s \<longleftrightarrow>
     (el_pending (lt_el s) \<noteq> [] \<and> lt_pc s \<notin> {LEvents False, LPending} \<longrightarrow> signalled s) \<and>
     (el_quit (lt_el s) \<and> lt_pc s \<in> {LTimers, LPoll} \<longrightarrow> signalled s) \<and> (lt_pc s = LEvents True \<longrightarrow> 0 < lt_wake s)"

definition tid_ok :: "nat \<Rightarrow> nat \<Rightarrow> ('cb, 'p) LoopThreads \<Rightarrow> bool" where
  "tid_ok c me s \<longleftrightarrow> (el_looping (lt_el s) \<longleftrightarrow> lt_pc s \<noteq> LIdle) \<and> lt_tid s = (if lt_pc s = LIdle then c else me) \<and>
     fst ` set (lt_tests s) \<subseteq> {c, me} \<and> fst ` set (lt_inline s) \<subseteq> {c, me} \<and>
     (lt_pc s = LIdle \<longrightarrow> lt_inline s = [])"

lemma order_ok_go: "lt_go me s s' \<Longrightarrow> order_ok s \<Longrightarrow> order_ok s'"
  by (induction rule: lt_go.induct) (auto simp: order_ok_def lt_op_defs Let_def split: list.splits)

lemma order_ok_step: "lt_step me s s' \<Longrightarrow> order_ok s \<Longrightarrow> order_ok s'"
proof (induction rule: lt_step.induct)
  case (go s s')
  then show ?case by (rule order_ok_go)
qed (auto simp: order_ok_def lt_op_defs Let_def)

lemma wake_kept_go: "lt_go me s s' \<Longrightarrow> wake_kept s \<Longrightarrow> wake_kept s'"
  by (induction rule: lt_go.induct) (auto simp: wake_kept_def signalled_def lt_op_defs Let_def split: list.splits)

lemma wake_kept_step: "lt_step me s s' \<Longrightarrow> wake_kept s \<Longrightarrow> wake_kept s'"
proof (induction rule: lt_step.induct)
  case (go s s')
  then show ?case by (rule wake_kept_go)
qed (auto simp: wake_kept_def signalled_def lt_op_defs Let_def)

lemma tid_ok_go: "lt_go me s s' \<Longrightarrow> tid_ok c me s \<Longrightarrow> tid_ok c me s'"
proof (induction rule: lt_go.induct)
  case (decide t f s)
  then show ?case using set_remove1_subset [of "(t, f)" "lt_tests s"] by (force simp: tid_ok_def lt_op_defs Let_def)
qed (auto simp: tid_ok_def lt_op_defs split: list.splits)

lemma tid_ok_step: "lt_step me s s' \<Longrightarrow> tid_ok c me s \<Longrightarrow> tid_ok c me s'"
proof (induction rule: lt_step.induct)
  case (go s s')
  then show ?case by (rule tid_ok_go)
qed (auto simp: tid_ok_def lt_op_defs)

lemma lt_reach_inv: "lt_reach c me s \<Longrightarrow> order_ok s \<and> wake_kept s \<and> tid_ok c me s"
proof (induction rule: lt_reach.induct)
  case make
  show ?case by (simp add: order_ok_def wake_kept_def tid_ok_def LoopThreads_make_def EventLoop_init_def)
qed (blast intro: order_ok_step wake_kept_step tid_ok_step)

section \<open>Functions queued by other threads\<close>

text \<open>C10: No lost wake-up: when the loop waits for events and a function is queued or \<^verbatim>\<open>quit\<close> was called, the event descriptor is
  readable, so the wait ends, or a thread is about to make it so.\<close>

theorem loop_never_sleeps_on_work:
  assumes "lt_reach c me s" "lt_pc s = LPoll" "el_pending (lt_el s) \<noteq> [] \<or> el_quit (lt_el s)"
  shows "lt_step me s (s\<lparr>lt_pc := LEvents True\<rparr>) \<or> (\<exists>t. lt_step me s (lt_wakeup t s) \<and> lt_wake (lt_wakeup t s) > 0)"
proof -
  have "signalled s" using lt_reach_inv [OF assms(1)] assms(2,3) by (auto simp: wake_kept_def)
  then show ?thesis
    unfolding signalled_def
  proof
    assume "0 < lt_wake s"
    then show ?thesis using lt_poll_step [OF assms(2), of True] by simp
  next
    assume "lt_writers s \<noteq> []"
    then show ?thesis using lt_wrote_step [of "hd (lt_writers s)" s] by (auto simp: lt_wakeup_def)
  qed
qed

text \<open>C21: The functions queued by all threads together run in the order in which they were queued, none twice and none skipped: those that
  have run, those the loop has taken, and those that still wait are exactly those that were queued.\<close>

theorem posted_run_in_order:
  assumes "lt_reach c me s"
  shows "lt_posted s = lt_ran s @ lt_fns s @ el_pending (lt_el s) \<and> (lt_pc s \<noteq> LRun \<longrightarrow> lt_fns s = [])"
  using lt_reach_inv [OF assms] by (auto simp: order_ok_def)

text \<open>When the thread that made the loop also runs it, as \<^verbatim>\<open>perfacet serve\<close> does, \<^verbatim>\<open>runInLoop\<close> runs a function at once only on
  that thread, and only while or after the loop runs.\<close>

theorem inline_on_loop_thread:
  assumes "lt_reach me me s"
  shows "fst ` set (lt_inline s) \<subseteq> {me} \<and> (lt_pc s = LIdle \<longrightarrow> lt_inline s = [])"
  using lt_reach_inv [OF assms] by (auto simp: tid_ok_def)

lemma returned_go: "lt_go me s s' \<Longrightarrow> lt_pc s = LReturned \<Longrightarrow> lt_pc s' = LReturned \<and> lt_ran s' = lt_ran s"
  by (induction rule: lt_go.induct) (auto simp: lt_op_defs Let_def)

lemma returned_step: "lt_step me s s' \<Longrightarrow> lt_pc s = LReturned \<Longrightarrow> lt_pc s' = LReturned \<and> lt_ran s' = lt_ran s"
  by (induction rule: lt_step.induct) (auto simp: lt_op_defs returned_go)

lemma returned_steps: "(lt_step me)\<^sup>*\<^sup>* s s' \<Longrightarrow> lt_pc s = LReturned \<Longrightarrow> lt_pc s' = LReturned \<and> lt_ran s' = lt_ran s"
  by (induction rule: rtranclp_induct) (auto dest: returned_step)

text \<open>A function queued before a stop may be left behind: when another thread queues \<open>f\<close> and then calls \<^verbatim>\<open>quit\<close> while
  the loop is between \<^verbatim>\<open>doPending\<close> and its test of \<^verbatim>\<open>quit_\<close>, the loop returns without running \<open>f\<close>, and nothing runs it afterwards.\<close>

theorem quit_leaves_posted:
  assumes "lt_pc s = LFlush" "lt_writers s = []" "lt_tests s = []" "t \<noteq> me"
  shows "\<exists>s'. (lt_step me)\<^sup>*\<^sup>* s s' \<and> lt_pc s' = LReturned \<and> lt_posted s' = lt_posted s @ [f] \<and> f \<in> set (el_pending (lt_el s')) \<and>
    (\<forall>s''. (lt_step me)\<^sup>*\<^sup>* s' s'' \<longrightarrow> lt_ran s'' = lt_ran s)"
proof -
  let ?s1 = "lt_queue t f s" let ?s2 = "lt_wakeup t ?s1" let ?s3 = "lt_quit t ?s2" let ?s4 = "lt_wakeup t ?s3"
  let ?s5 = "?s4\<lparr>lt_pc := LCheck\<rparr>"
  have "lt_step me s ?s1" using assms by (intro lt_step.queue) (simp add: may_call_def idle_thread_def)
  moreover have "lt_step me ?s1 ?s2" by (intro lt_step.go lt_go.wrote) (simp add: lt_queue_def)
  moreover have "lt_step me ?s2 ?s3" using assms by (intro lt_step.quit) (simp add: may_call_def idle_thread_def lt_op_defs)
  moreover have "lt_step me ?s3 ?s4" by (intro lt_step.go lt_go.wrote) (simp add: lt_quit_def)
  moreover have "lt_step me ?s4 ?s5" using assms by (intro lt_step.go lt_go.flush) (simp_all add: idle_thread_def lt_op_defs)
  moreover have "lt_step me ?s5 (loop_check ?s5)" by (intro lt_step.go lt_go.check) simp
  ultimately have steps: "(lt_step me)\<^sup>*\<^sup>* s (loop_check ?s5)" by (meson r_into_rtranclp rtranclp.rtrancl_into_rtrancl)
  have "lt_pc (loop_check ?s5) = LReturned" "lt_posted (loop_check ?s5) = lt_posted s @ [f]" "lt_ran (loop_check ?s5) = lt_ran s"
    "f \<in> set (el_pending (lt_el (loop_check ?s5)))"
    using assms by (simp_all add: lt_op_defs)
  then show ?thesis using steps returned_steps by metis
qed

text \<open>C36: When one thread makes the loop and another runs it, \<^verbatim>\<open>runInLoop\<close> can run a function on the wrong thread: it reads \<^verbatim>\<open>tid_\<close>
  before the loop starts and \<^verbatim>\<open>looping_\<close> after.\<close>

theorem inline_on_wrong_thread:
  assumes "c \<noteq> me"
  shows "\<exists>s. lt_reach c me s \<and> lt_pc s = LPoll \<and> (c, f) \<in> set (lt_inline s)"
proof -
  let ?a = "LoopThreads_make c :: ('cb, 'p) LoopThreads" let ?b = "runInLoop_test c f ?a" let ?d = "loop_enter me ?b" let ?e = "loop_check ?d"
  let ?g = "?e\<lparr>lt_pc := LPoll\<rparr>" let ?h = "runInLoop_decide c f ?g"
  note d = lt_op_defs LoopThreads_make_def EventLoop_init_def idle_thread_def may_call_def
  have "lt_step me ?a ?b" by (intro lt_step.test) (simp add: d)
  moreover have "lt_step me ?b ?d" using assms by (intro lt_step.go lt_go.enter) (simp_all add: d)
  moreover have "lt_step me ?d ?e" by (intro lt_step.go lt_go.check) (simp add: d)
  moreover have "lt_step me ?e ?g" using assms by (intro lt_step.go lt_go.timers) (simp_all add: d)
  moreover have "lt_step me ?g ?h" by (intro lt_step.go lt_go.decide) (simp add: d)
  ultimately have "lt_reach c me ?h" by (meson lt_reach.make lt_reach.step)
  then show ?thesis by (intro exI [of _ ?h]) (simp add: d)
qed

section \<open>A loop that has run one function\<close>

lemma loop_sample:
  obtains s :: "(nat, nat) LoopThreads" where "lt_reach 0 0 s" "lt_pc s = LFlush" "lt_writers s = []" "lt_tests s = []" "lt_ran s = [PRun 7]"
proof -
  let ?a = "LoopThreads_make 0 :: (nat, nat) LoopThreads" let ?b = "lt_queue 1 (PRun 7) ?a" let ?d = "lt_wakeup 1 ?b" let ?e = "loop_enter 0 ?d"
  let ?g = "loop_check ?e" let ?h = "?g\<lparr>lt_pc := LPoll\<rparr>" let ?i = "?h\<lparr>lt_pc := LEvents True\<rparr>" let ?k = "handleWakeup ?i"
  let ?l = "?k\<lparr>lt_pc := LPending\<rparr>" let ?m = "loop_swap ?l" let ?n = "loop_run ?m" let ?o = "loop_run ?n"
  note d = lt_op_defs LoopThreads_make_def EventLoop_init_def idle_thread_def may_call_def
  have "lt_step 0 ?a ?b" by (intro lt_step.queue) (simp add: d)
  moreover have "lt_step 0 ?b ?d" by (intro lt_step.go lt_go.wrote) (simp add: d)
  moreover have "lt_step 0 ?d ?e" by (intro lt_step.go lt_go.enter) (simp_all add: d)
  moreover have "lt_step 0 ?e ?g" by (intro lt_step.go lt_go.check) (simp add: d)
  moreover have "lt_step 0 ?g ?h" by (intro lt_step.go lt_go.timers) (simp_all add: d)
  ultimately have h: "lt_reach 0 0 ?h" by (meson lt_reach.make lt_reach.step)
  have "lt_step 0 ?h ?i" by (intro lt_step.go lt_go.poll) (simp_all add: d)
  moreover have "lt_step 0 ?i ?k" by (intro lt_step.go lt_go.wakeup) (simp_all add: d)
  moreover have "lt_step 0 ?k ?l" by (intro lt_step.go lt_go.events) (simp_all add: d)
  moreover have "lt_step 0 ?l ?m" by (intro lt_step.go lt_go.swap) simp
  moreover have "lt_step 0 ?m ?n" by (intro lt_step.go lt_go.run) (simp_all add: d)
  moreover have "lt_step 0 ?n ?o" by (intro lt_step.go lt_go.run) (simp_all add: d)
  ultimately have "lt_reach 0 0 ?o" using h by (meson lt_reach.step)
  then show ?thesis by (rule that) (simp_all add: d)
qed

theorem posted_run_in_order_witness:
  "\<exists>s :: (nat, nat) LoopThreads. lt_reach 0 0 s \<and> lt_pc s = LFlush \<and> lt_posted s = PRun 7 # el_pending (lt_el s)"
proof -
  obtain s :: "(nat, nat) LoopThreads" where s: "lt_reach 0 0 s" "lt_pc s = LFlush" "lt_ran s = [PRun 7]" using loop_sample by blast
  then show ?thesis using posted_run_in_order [OF s(1)] by auto
qed

theorem inline_on_loop_thread_witness: "\<exists>s :: (nat, nat) LoopThreads. lt_reach 0 0 s \<and> lt_pc s = LFlush \<and> fst ` set (lt_inline s) \<subseteq> {0}"
proof -
  obtain s :: "(nat, nat) LoopThreads" where s: "lt_reach 0 0 s" "lt_pc s = LFlush" using loop_sample by blast
  then show ?thesis using inline_on_loop_thread [OF s(1)] by auto
qed

theorem quit_leaves_posted_witness:
  "\<exists>s s' :: (nat, nat) LoopThreads. lt_reach 0 0 s \<and> (lt_step 0)\<^sup>*\<^sup>* s s' \<and> lt_pc s' = LReturned \<and> PRun 8 \<in> set (el_pending (lt_el s'))"
proof -
  obtain s :: "(nat, nat) LoopThreads" where s: "lt_reach 0 0 s" "lt_pc s = LFlush" "lt_writers s = []" "lt_tests s = []" using loop_sample by blast
  then show ?thesis using quit_leaves_posted [OF s(2-4), of 1 0 "PRun 8"] by auto
qed

theorem inline_on_wrong_thread_witness:
  "\<exists>s :: (nat, nat) LoopThreads. lt_reach 0 1 s \<and> lt_pc s = LPoll \<and> (0, PRun 7) \<in> set (lt_inline s)"
  using inline_on_wrong_thread [of 0 1 "PRun 7"] by auto

theorem loop_never_sleeps_on_work_witness:
  "\<exists>s s' :: (nat, nat) LoopThreads. lt_reach 0 0 s \<and> lt_pc s = LPoll \<and> el_pending (lt_el s) = [PRun 7] \<and> lt_step 0 s s'"
proof -
  let ?a = "LoopThreads_make 0 :: (nat, nat) LoopThreads" let ?b = "loop_enter 0 ?a" let ?d = "loop_check ?b" let ?e = "?d\<lparr>lt_pc := LPoll\<rparr>"
  let ?g = "lt_queue 1 (PRun 7) ?e"
  note d = lt_op_defs LoopThreads_make_def EventLoop_init_def idle_thread_def may_call_def
  have "lt_step 0 ?a ?b" by (intro lt_step.go lt_go.enter) (simp_all add: d)
  moreover have "lt_step 0 ?b ?d" by (intro lt_step.go lt_go.check) (simp add: d)
  moreover have "lt_step 0 ?d ?e" by (intro lt_step.go lt_go.timers) (simp_all add: d)
  moreover have "lt_step 0 ?e ?g" by (intro lt_step.queue) (simp add: d)
  ultimately have r: "lt_reach 0 0 ?g" by (meson lt_reach.make lt_reach.step)
  have "lt_pc ?g = LPoll" "el_pending (lt_el ?g) = [PRun 7]" by (simp_all add: d)
  moreover from this obtain s' where "lt_step 0 ?g s'" using loop_never_sleeps_on_work [OF r] by auto
  ultimately show ?thesis using r by blast
qed

end
