(* ===== verification/Reactors.thy ===== *)
theory Reactors
  imports Loop_Threads
begin

text \<open>
  \<^verbatim>\<open>TcpServer\<close> with sub reactors (\<^verbatim>\<open>netlib/src/TcpServer.cpp\<close>, \<open>ioThreads > 0\<close>): one event loop with its own thread and its own table of connections for
  every reactor, the loops being those of theory \<open>Loop_Threads\<close>. The main thread is 0, the thread of reactor \<open>i\<close> is \<open>i + 1\<close>. Lemmas:
  connections are spread evenly, a table is only changed by functions of its loop, and what stopping the server may leave behind.
\<close>

section \<open>State\<close>

text \<open>The functions that the server posts to a loop: the end of \<^verbatim>\<open>newConnection\<close>, \<^verbatim>\<open>removeConnection\<close>, \<^verbatim>\<open>closeShard\<close> and the visit of \<^verbatim>\<open>forEachConnection\<close>. A
  connection object is named by a number. \<open>re_closed\<close>: the connections on which \<^verbatim>\<open>forceClose\<close> was called; their close callback comes later, when their output has
  been written.\<close>

datatype shard_fn = SAttach nat nat | SRemove nat nat | SCloseShard | SVisit

record Reactors =
  re_started :: bool
  re_ioThreads :: nat
  re_loops :: "(unit, shard_fn) LoopThreads list"
  re_shards :: "(nat, nat) umap list"
  re_nextLoop :: nat
  re_nextConn :: nat
  re_closed :: "nat list"
  re_visited :: "nat list"

definition Reactors_make :: "int \<Rightarrow> Reactors" where
  "Reactors_make ioThreads =
    (let n = nat (if ioThreads < 0 then 0 else ioThreads)
     in \<lparr>re_started = False, re_ioThreads = n, re_loops = [], re_shards = replicate (if n = 0 then 1 else n) [], re_nextLoop = 0, re_nextConn = 0,
         re_closed = [], re_visited = []\<rparr>)"

definition re_start :: "Reactors \<Rightarrow> Reactors" where
  "re_start s =
     (if re_started s then s
      else s\<lparr>re_started := True, re_loops := re_loops s @ replicate (re_ioThreads s) (LoopThreads_make 0)\<rparr>)"

section \<open>Operations of the main thread\<close>

definition on_loop :: "nat \<Rightarrow> ((unit, shard_fn) LoopThreads \<Rightarrow> (unit, shard_fn) LoopThreads) \<Rightarrow> Reactors \<Rightarrow> Reactors" where
  "on_loop i f s = s\<lparr>re_loops := (re_loops s)[i := f (re_loops s ! i)]\<rparr>"

text \<open>\<^verbatim>\<open>newConnection\<close> for an accepted descriptor: the next loop in turn gets the connection.\<close>

definition re_newConnection :: "nat \<Rightarrow> Reactors \<Rightarrow> Reactors" where
  "re_newConnection fd s =
     (if \<not> re_started s \<or> re_loops s = [] then s
      else (let idx = re_nextLoop s mod length (re_loops s);
                s1 = s\<lparr>re_nextLoop := Suc (re_nextLoop s), re_nextConn := Suc (re_nextConn s)\<rparr>
            in on_loop idx (runInLoop_test 0 (PRun (SAttach fd (re_nextConn s)))) s1))"

text \<open>\<^verbatim>\<open>removeConnection\<close>, the close callback of a connection, runs on the thread of its loop.\<close>

definition re_removeConnection :: "nat \<Rightarrow> nat \<Rightarrow> nat \<Rightarrow> Reactors \<Rightarrow> Reactors" where
  "re_removeConnection i fd c s = on_loop i (lt_queue (Suc i) (PRun (SRemove fd c))) s"

text \<open>\<^verbatim>\<open>stop\<close> posts \<^verbatim>\<open>closeShard\<close> to loop \<open>i\<close> and then makes it quit; at the end it joins the threads, which have all returned then.\<close>

definition re_stop_flag :: "Reactors \<Rightarrow> Reactors" where
  "re_stop_flag s = s\<lparr>re_started := False\<rparr>"

definition re_stop_post :: "nat \<Rightarrow> Reactors \<Rightarrow> Reactors" where
  "re_stop_post i s = on_loop i (runInLoop_test 0 (PRun SCloseShard)) s"

definition re_stop_quit :: "nat \<Rightarrow> Reactors \<Rightarrow> Reactors" where
  "re_stop_quit i s = on_loop i (lt_quit 0) s"

definition re_stop_join :: "Reactors \<Rightarrow> Reactors option" where
  "re_stop_join s = (if list_all (\<lambda>l. lt_pc l = LReturned) (re_loops s) then Some (s\<lparr>re_loops := []\<rparr>) else None)"

text \<open>\<^verbatim>\<open>forEachConnection\<close> posts the visit to every loop.\<close>

definition re_forEach_post :: "nat \<Rightarrow> Reactors \<Rightarrow> Reactors" where
  "re_forEach_post i s = on_loop i (runInLoop_test 0 (PRun SVisit)) s"

section \<open>Functions on the loops\<close>

definition run_shard_fn :: "nat \<Rightarrow> shard_fn \<Rightarrow> Reactors \<Rightarrow> Reactors" where
  "run_shard_fn i f s =
    (let T = re_shards s ! i in
     case f of
       SAttach fd c \<Rightarrow> s\<lparr>re_shards := (re_shards s)[i := (if um_find T fd = None then um_set fd c T else T)]\<rparr>
     | SRemove fd c \<Rightarrow> s\<lparr>re_shards := (re_shards s)[i := (if um_find T fd = Some c then um_erase fd T else T)]\<rparr>
     | SCloseShard \<Rightarrow> s\<lparr>re_shards := (re_shards s)[i := []], re_closed := re_closed s @ map snd T\<rparr>
     | SVisit \<Rightarrow> s\<lparr>re_visited := re_visited s @ map snd T\<rparr>)"

text \<open>A step of loop \<open>i\<close>; the functions it has run in this step, by \<^verbatim>\<open>doPending\<close> or at once, act on its table.\<close>

fun fn_of :: "(unit, shard_fn) Pending \<Rightarrow> shard_fn list" where
  "fn_of (PRun f) = [f]"
| "fn_of _ = []"

definition new_fns :: "(unit, shard_fn) LoopThreads \<Rightarrow> (unit, shard_fn) LoopThreads \<Rightarrow> shard_fn list" where
  "new_fns l l' = concat (map fn_of (drop (length (lt_ran l)) (lt_ran l') @ map snd (drop (length (lt_inline l)) (lt_inline l'))))"

definition loop_stepped :: "nat \<Rightarrow> (unit, shard_fn) LoopThreads \<Rightarrow> Reactors \<Rightarrow> Reactors" where
  "loop_stepped i l' s = fold (run_shard_fn i) (new_fns (re_loops s ! i) l') (on_loop i (\<lambda>_. l') s)"

text \<open>The main thread is in one call at a time, \<open>pc\<close>: not stopping, before posting to loop \<open>i\<close>, before making loop \<open>i\<close> quit, joining, done.\<close>

datatype stop_pc = SpRun | SpPost nat | SpQuit nat | SpJoin | SpDone

definition main_idle :: "Reactors \<Rightarrow> bool" where
  "main_idle s \<longleftrightarrow> list_all (idle_thread 0) (re_loops s)"

inductive re_step :: "Reactors \<times> stop_pc \<Rightarrow> Reactors \<times> stop_pc \<Rightarrow> bool" where
  accept: "main_idle s \<Longrightarrow> re_step (s, SpRun) (re_newConnection fd s, SpRun)"
| visit: "main_idle s \<Longrightarrow> i < length (re_loops s) \<Longrightarrow> re_started s \<Longrightarrow> re_step (s, SpRun) (re_forEach_post i s, SpRun)"
| loop: "i < length (re_loops s) \<Longrightarrow> lt_go (Suc i) (re_loops s ! i) l' \<Longrightarrow> re_step (s, pc) (loop_stepped i l' s, pc)"
| close: "i < length (re_loops s) \<Longrightarrow> may_call (Suc i) (Suc i) (re_loops s ! i) \<Longrightarrow> um_find (re_shards s ! i) fd = Some c \<or> c \<in> set (re_closed s) \<Longrightarrow>
    re_step (s, pc) (re_removeConnection i fd c s, pc)"
| stop: "main_idle s \<Longrightarrow> re_started s \<Longrightarrow> re_step (s, SpRun) (re_stop_flag s, SpPost 0)"
| post: "main_idle s \<Longrightarrow> i < length (re_loops s) \<Longrightarrow> re_step (s, SpPost i) (re_stop_post i s, SpQuit i)"
| quit: "main_idle s \<Longrightarrow> i < length (re_loops s) \<Longrightarrow> re_step (s, SpQuit i) (re_stop_quit i s, SpPost (Suc i))"
| posted: "main_idle s \<Longrightarrow> i = length (re_loops s) \<Longrightarrow> re_step (s, SpPost i) (s, SpJoin)"
| join: "main_idle s \<Longrightarrow> re_stop_join s = Some s' \<Longrightarrow> re_step (s, SpJoin) (s', SpDone)"

inductive re_reach :: "int \<Rightarrow> Reactors \<times> stop_pc \<Rightarrow> bool" for n where
  start: "re_reach n (re_start (Reactors_make n), SpRun)"
| step: "re_reach n s \<Longrightarrow> re_step s s' \<Longrightarrow> re_reach n s'"

section \<open>Connections are spread evenly\<close>

fun is_attach :: "(unit, shard_fn) Pending \<Rightarrow> bool" where
  "is_attach (PRun (SAttach fd c)) = True"
| "is_attach _ = False"

definition attached :: "(unit, shard_fn) LoopThreads \<Rightarrow> nat" where
  "attached l = length (filter is_attach (lt_posted l)) + length (filter is_attach (map snd (lt_tests l))) + length (filter is_attach (map snd (lt_inline l)))"

lemma filter_remove1: "x \<in> set xs \<Longrightarrow> length (filter P (map snd (remove1 x xs))) + (if P (snd x) then 1 else 0) = length (filter P (map snd xs))"
  by (induction xs) auto

lemma attached_go: "lt_go me l l' \<Longrightarrow> attached l' = attached l"
proof (induction rule: lt_go.induct)
  case (decide t f s)
  then show ?case using filter_remove1 [OF decide, of is_attach] by (auto simp: attached_def runInLoop_decide_def lt_queue_def Let_def)
qed (auto simp: attached_def lt_op_defs split: list.splits)

lemma attached_call [simp]:
  "attached (runInLoop_test t f l) = attached l + (if is_attach f then 1 else 0)" "attached (lt_queue t f l) = attached l + (if is_attach f then 1 else 0)"
  "attached (lt_quit t l) = attached l" "attached (LoopThreads_make c) = 0"
  by (simp_all add: attached_def lt_op_defs LoopThreads_make_def)

text \<open>How many of the first \<open>k\<close> connections go to loop \<open>i\<close> of \<open>n\<close>.\<close>

definition share :: "nat \<Rightarrow> nat \<Rightarrow> nat \<Rightarrow> nat" where
  "share n k i = length (filter (\<lambda>j. j mod n = i) [0..<k])"

lemma share_Suc: "share n (Suc k) i = share n k i + (if k mod n = i then 1 else 0)"
  by (simp add: share_def)

lemma share_even: "i < n \<Longrightarrow> share n k i = k div n + (if i < k mod n then 1 else 0)"
proof (induction k)
  case (Suc k)
  then show ?case by (auto simp: share_Suc div_Suc mod_Suc)
qed (simp add: share_def)

definition spread_ok :: "nat \<Rightarrow> Reactors \<Rightarrow> bool" where
  "spread_ok n s \<longleftrightarrow> length (re_loops s) = n \<and> (\<forall>i < n. attached (re_loops s ! i) = share n (re_nextLoop s) i)"

lemma run_shard_fn_fields [simp]:
  "re_loops (run_shard_fn i f s) = re_loops s" "re_nextLoop (run_shard_fn i f s) = re_nextLoop s" "re_started (run_shard_fn i f s) = re_started s"
  by (simp_all add: run_shard_fn_def Let_def split: shard_fn.splits)

lemma loop_stepped_fields [simp]:
  "re_loops (loop_stepped i l' s) = (re_loops s)[i := l']" "re_nextLoop (loop_stepped i l' s) = re_nextLoop s"
proof -
  have "re_loops (fold (run_shard_fn i) fs t) = re_loops t \<and> re_nextLoop (fold (run_shard_fn i) fs t) = re_nextLoop t" for fs t
    by (induction fs arbitrary: t) auto
  then show "re_loops (loop_stepped i l' s) = (re_loops s)[i := l']" "re_nextLoop (loop_stepped i l' s) = re_nextLoop s"
    by (simp_all add: loop_stepped_def on_loop_def)
qed

lemma spread_on_loop:
  "spread_ok n s \<Longrightarrow> (\<And>l. attached (f l) = attached l) \<Longrightarrow> spread_ok n (on_loop i f s)"
  by (cases "i < length (re_loops s)") (auto simp: spread_ok_def on_loop_def nth_list_update)

lemma spread_step:
  assumes "re_step a b" "snd b \<noteq> SpDone" "spread_ok n (fst a)"
  shows "spread_ok n (fst b)"
  using assms
proof (induction rule: re_step.induct)
  case (accept s fd)
  then show ?case by (auto simp: re_newConnection_def spread_ok_def on_loop_def nth_list_update share_Suc Let_def)
next
  case (loop i s l' pc)
  then show ?case by (auto simp: spread_ok_def nth_list_update attached_go)
qed (auto simp: re_forEach_post_def re_stop_post_def re_stop_quit_def re_stop_flag_def re_removeConnection_def intro!: spread_on_loop,
    auto simp: spread_ok_def)

lemma done_steps: "re_step a b \<Longrightarrow> snd a = SpDone \<Longrightarrow> snd b = SpDone"
  by (induction rule: re_step.induct) auto

lemma re_reach_spread: "re_reach n s \<Longrightarrow> snd s \<noteq> SpDone \<longrightarrow> spread_ok (nat n) (fst s)"
proof (induction rule: re_reach.induct)
  case start
  then show ?case by (simp add: re_start_def Reactors_make_def spread_ok_def share_def Let_def)
next
  case (step s s')
  then show ?case using spread_step done_steps by blast
qed

text \<open>Round robin: in every state before the threads are joined, any two loops have been given the same number of connections, or one more.\<close>

theorem reactors_balanced:
  assumes "re_reach n (s, pc)" "pc \<noteq> SpDone" "i < length (re_loops s)" "j < length (re_loops s)"
  shows "attached (re_loops s ! i) \<le> attached (re_loops s ! j) + 1"
  using re_reach_spread [OF assms(1)] assms(2-4) by (auto simp: spread_ok_def share_even)

section \<open>Stopping\<close>

lemma quiet_step:
  assumes "re_loops s = [l]" "lt_go 1 l l'" "lt_ran l' = lt_ran l" "lt_inline l' = lt_inline l"
  shows "re_step (s, pc) (s\<lparr>re_loops := [l']\<rparr>, pc)"
proof -
  have "loop_stepped 0 l' s = s\<lparr>re_loops := [l']\<rparr>" using assms by (simp add: loop_stepped_def new_fns_def on_loop_def)
  then show ?thesis using re_step.loop [of 0 s l' pc] assms(1,2) by simp
qed

text \<open>C37: Stopping a server with sub reactors may leave connections open: when the thread of the loop is between \<^verbatim>\<open>doPending\<close> and its test of
  \<^verbatim>\<open>quit_\<close> while the main thread posts \<^verbatim>\<open>closeShard\<close> and calls \<^verbatim>\<open>quit\<close>, the loop returns and \<^verbatim>\<open>stop\<close> returns, but no connection of its table has
  been closed.\<close>

theorem stop_leaves_shard:
  assumes "re_loops s = [l]" "re_started s" "lt_pc l = LFlush" "lt_writers l = []" "lt_tests l = []" "lt_tid l \<noteq> 0"
  shows "\<exists>s'. re_step\<^sup>*\<^sup>* (s, SpRun) (s', SpDone) \<and> re_shards s' = re_shards s \<and> re_closed s' = re_closed s"
proof -
  let ?st = "s\<lparr>re_started := False\<rparr>"
  let ?a = "lt_queue 0 (PRun SCloseShard) l" let ?b = "lt_wakeup 0 ?a" let ?c = "lt_quit 0 ?b" let ?d = "lt_wakeup 0 ?c"
  let ?e = "?d\<lparr>lt_pc := LCheck\<rparr>" let ?f = "loop_check ?e"
  let ?s = "\<lambda>l. ?st\<lparr>re_loops := [l]\<rparr>"
  have st: "?st = ?s l" using assms(1) by (cases s) simp
  note d = lt_op_defs idle_thread_def main_idle_def assms
  have "re_step (s, SpRun) (?s l, SpPost 0)" using re_step.stop [of s] by (subst st [symmetric]) (simp add: d re_stop_flag_def)
  moreover have "re_step (?s l, SpPost 0) (?s ?a, SpQuit 0)"
    using re_step.post [of "?s l" 0] assms(6) by (simp add: main_idle_def idle_thread_def assms re_stop_post_def on_loop_def runInLoop_test_def inLoopThread_def)
  moreover have "re_step (?s ?a, SpQuit 0) (?s ?b, SpQuit 0)"
    using quiet_step [of "?s ?a" ?a ?b, OF _ lt_go.wrote] by (simp add: lt_queue_def lt_wakeup_def)
  moreover have "re_step (?s ?b, SpQuit 0) (?s ?c, SpPost 1)"
    using re_step.quit [of "?s ?b" 0] by (simp add: d re_stop_quit_def on_loop_def)
  moreover have "re_step (?s ?c, SpPost 1) (?s ?d, SpPost 1)"
    using quiet_step [of "?s ?c" ?c ?d, OF _ lt_go.wrote] by (simp add: lt_quit_def lt_wakeup_def)
  moreover have "re_step (?s ?d, SpPost 1) (?s ?d, SpJoin)" using re_step.posted [of "?s ?d" 1] by (simp add: d)
  moreover have "re_step (?s ?d, SpJoin) (?s ?e, SpJoin)"
    using quiet_step [of "?s ?d" ?d ?e, OF _ lt_go.flush] by (simp add: d)
  moreover have "re_step (?s ?e, SpJoin) (?s ?f, SpJoin)"
    using quiet_step [of "?s ?e" ?e ?f, OF _ lt_go.check] by (simp add: loop_check_def)
  moreover have "re_step (?s ?f, SpJoin) ((?s ?f)\<lparr>re_loops := []\<rparr>, SpDone)"
    using re_step.join [of "?s ?f"] by (simp add: d re_stop_join_def)
  ultimately have "re_step\<^sup>*\<^sup>* (s, SpRun) ((?s ?f)\<lparr>re_loops := []\<rparr>, SpDone)" by (meson r_into_rtranclp rtranclp.rtrancl_into_rtrancl)
  then show ?thesis by (intro exI [of _ "(?s ?f)\<lparr>re_loops := []\<rparr>"]) simp
qed

lemma quiet_reach:
  assumes "re_reach n (s\<lparr>re_loops := [l]\<rparr>, pc)" "lt_go 1 l l'" "lt_ran l' = lt_ran l" "lt_inline l' = lt_inline l"
  shows "re_reach n (s\<lparr>re_loops := [l']\<rparr>, pc)"
  using re_reach.step [OF assms(1) quiet_step [OF _ assms(2-4)]] by simp

text \<open>One loop with one connection.\<close>

lemma shard_sample:
  obtains s l where "re_reach 1 (s, SpRun)" "re_loops s = [l]" "re_started s" "lt_pc l = LFlush" "lt_writers l = []" "lt_tests l = []" "lt_tid l \<noteq> 0"
    "re_shards s = [[(5, 0)]]" "re_closed s = []"
proof -
  let ?s = "re_start (Reactors_make 1)" let ?S = "\<lambda>l. ?s\<lparr>re_loops := [l]\<rparr>"
  let ?a = "LoopThreads_make 0 :: (unit, shard_fn) LoopThreads" let ?b = "loop_enter 1 ?a" let ?c = "loop_check ?b" let ?d = "?c\<lparr>lt_pc := LPoll\<rparr>"
  note d = lt_op_defs idle_thread_def main_idle_def LoopThreads_make_def EventLoop_init_def
  have f: "re_loops ?s = [?a]" "re_started ?s" "re_shards ?s = [[]]" "re_nextLoop ?s = 0" "re_nextConn ?s = 0" "re_closed ?s = []"
    by (simp_all add: re_start_def Reactors_make_def Let_def)
  have "re_reach 1 (?S ?b, SpRun)" using re_reach.step [OF re_reach.start quiet_step [OF f(1) lt_go.enter]] by (simp add: d)
  from quiet_reach [OF this] have "re_reach 1 (?S ?c, SpRun)" using lt_go.check [where me = 1 and s = ?b] by (simp add: d)
  from quiet_reach [OF this] have r: "re_reach 1 (?S ?d, SpRun)" using lt_go.timers [where me = 1 and s = ?c] by (simp add: d)
  let ?e = "lt_queue 0 (PRun (SAttach 5 0)) ?d" let ?t = "?s\<lparr>re_nextLoop := 1, re_nextConn := 1\<rparr>" let ?T = "\<lambda>l. ?t\<lparr>re_loops := [l]\<rparr>"
  let ?g = "lt_wakeup 0 ?e" let ?h = "?g\<lparr>lt_pc := LEvents True\<rparr>" let ?i = "handleWakeup ?h" let ?j = "?i\<lparr>lt_pc := LPending\<rparr>" let ?k = "loop_swap ?j"
  have "re_newConnection 5 (?S ?d) = ?T ?e" using f by (simp add: re_newConnection_def on_loop_def d)
  then have "re_reach 1 (?T ?e, SpRun)" using re_reach.step [OF r re_step.accept, of 5] by (simp add: d)
  from quiet_reach [OF this, of ?g] have "re_reach 1 (?T ?g, SpRun)" using lt_go.wrote [where t = 0 and s = ?e and me = 1] by (simp add: lt_queue_def lt_wakeup_def)
  from quiet_reach [OF this, of ?h] have "re_reach 1 (?T ?h, SpRun)" using lt_go.poll [where s = ?g and b = True and me = 1] by (simp add: d)
  from quiet_reach [OF this, of ?i] have "re_reach 1 (?T ?i, SpRun)" using lt_go.wakeup [where me = 1 and s = ?h] by (simp add: d)
  from quiet_reach [OF this, of ?j] have "re_reach 1 (?T ?j, SpRun)" using lt_go.events [where me = 1 and s = ?i] by (simp add: d)
  from quiet_reach [OF this, of ?k] have k: "re_reach 1 (?T ?k, SpRun)" using lt_go.swap [where me = 1 and s = ?j] by (simp add: d)
  let ?l = "loop_run ?k" let ?m = "loop_run ?l" let ?u = "loop_stepped 0 ?l (?T ?k)"
  have "re_reach 1 (?u, SpRun)"
    using re_reach.step [OF k re_step.loop [of 0 "?T ?k" ?l]] lt_go.run [where me = 1 and s = ?k] by (simp add: d)
  moreover have u: "re_loops ?u = [?l]" "re_started ?u" "re_shards ?u = [[(5, 0)]]" "re_closed ?u = []"
    using f by (simp_all add: loop_stepped_def new_fns_def on_loop_def run_shard_fn_def d)
  ultimately have "re_reach 1 (?u\<lparr>re_loops := [?m]\<rparr>, SpRun)"
    using re_reach.step [OF _ quiet_step [OF u(1) lt_go.run]] by (simp add: d)
  moreover have "lt_pc ?m = LFlush" "lt_writers ?m = []" "lt_tests ?m = []" "lt_tid ?m \<noteq> 0" by (simp_all add: d)
  ultimately show ?thesis using that [of "?u\<lparr>re_loops := [?m]\<rparr>" ?m] u(2-4) by simp
qed

theorem stop_leaves_shard_witness:
  "\<exists>s s'. re_reach 1 (s, SpRun) \<and> re_step\<^sup>*\<^sup>* (s, SpRun) (s', SpDone) \<and> re_shards s' = [[(5, 0)]] \<and> re_closed s' = []"
proof -
  obtain s l where s: "re_reach 1 (s, SpRun)" "re_loops s = [l]" "re_started s" "lt_pc l = LFlush" "lt_writers l = []" "lt_tests l = []" "lt_tid l \<noteq> 0"
    "re_shards s = [[(5, 0)]]" "re_closed s = []" by (rule shard_sample)
  then show ?thesis using stop_leaves_shard [OF s(2-7)] by auto
qed

theorem reactors_balanced_witness:
  "let s = re_newConnection 5 (re_start (Reactors_make 2))
   in re_reach 2 (s, SpRun) \<and> length (re_loops s) = 2 \<and> attached (re_loops s ! 0) = 1 \<and> attached (re_loops s ! 0) \<le> attached (re_loops s ! 1) + 1"
proof -
  let ?s = "re_start (Reactors_make 2)" let ?t = "re_newConnection 5 ?s"
  have l: "re_loops ?s = [LoopThreads_make 0, LoopThreads_make 0]" "re_started ?s" "re_nextLoop ?s = 0"
    by (simp_all add: re_start_def Reactors_make_def Let_def numeral_2_eq_2)
  then have t: "re_loops ?t = [runInLoop_test 0 (PRun (SAttach 5 (re_nextConn ?s))) (LoopThreads_make 0), LoopThreads_make 0]"
    by (simp add: re_newConnection_def on_loop_def)
  have r: "re_reach 2 (?t, SpRun)"
    using re_reach.step [OF re_reach.start re_step.accept, of 2 5] l(1) by (simp add: main_idle_def idle_thread_def LoopThreads_make_def)
  show ?thesis using reactors_balanced [OF r, of 0 1] r by (simp add: t)
qed

end
