(* ===== verification/Spec2Isabelle.thy ===== *)
theory Spec2Isabelle
  imports Facet Boot Stop Workers Tracer Http_Limits Sockets Reactors
begin

text \<open>
  perfacet, a gateway for the Model Context Protocol: agents send JSON-RPC requests over HTTP, the gateway
  authenticates them, shows each agent the tools of its level, and forwards tool calls to upstream servers under
  limits, with health checks, circuit breaker, retries, recognition of repeated calls, and tasks for calls that take long.

  \<^bold>\<open>The program and its model.\<close> Everything runs on one loop thread; a pool of workers makes the blocking upstream calls
  and writes files, and hands results back through the queue of the loop. The model follows that: every handler is
  a function on an explicit state, fallible ones return \<open>exn + 'a\<close>, and the interleaving of requests, queued
  functions, timers, workers and the stop is a step relation. The threads themselves are modelled where they meet: the pool and the
  loop as interleaved critical sections, with condition variable and event descriptor. Theories, in the order of the layers:

  \<^item> \<open>Prelude\<close>: types, exceptions, association lists for hash maps, string functions, the JSON library as a parameter.
    \<open>Json_Sample\<close>: a JSON implementation for the witnesses.
  \<^item> \<open>Ir\<close> (\<^verbatim>\<open>src/ir\<close>): tool keys, failure classes, requests and responses. \<open>Config\<close>, \<open>Config_Load\<close>
    (\<^verbatim>\<open>Taxonomy\<close>, \<^verbatim>\<open>YamlConfig\<close>): configuration, access levels, loading and validation of the file.
  \<^item> \<open>Policy\<close> (\<^verbatim>\<open>Catalog\<close>, \<^verbatim>\<open>RankPolicy\<close>, \<^verbatim>\<open>YamlIdentityStore\<close>): who may call what. \<open>Facet\<close>
    (\<^verbatim>\<open>ToolIndex\<close>, \<^verbatim>\<open>FacetView\<close>, \<^verbatim>\<open>IndexRefresher\<close>): the tools an agent sees.
  \<^item> \<open>Backend\<close> (\<^verbatim>\<open>HttpMcpBackend\<close>, \<^verbatim>\<open>KeepAliveClient\<close>): one blocking upstream call. \<open>Detail\<close>, \<open>Env\<close>: random
    identifiers, time, and the environment (clocks, random source, loop) as state.
  \<^item> \<open>Event_Loop\<close> (\<^verbatim>\<open>netlib EventLoop\<close>): timers and queued functions. \<open>Byte_Buffer\<close>, \<open>Connection\<close>, \<open>Server\<close>
    (\<^verbatim>\<open>Buffer\<close>, \<^verbatim>\<open>TcpConnection\<close>, \<^verbatim>\<open>Channel\<close>, \<^verbatim>\<open>Epoll\<close>, \<^verbatim>\<open>Acceptor\<close>, \<^verbatim>\<open>TcpServer\<close>): the byte streams and
    the table of connections. \<open>Dispatch\<close>: a connection with its channel and the interest list of the kernel. \<open>Sockets\<close>
    (\<^verbatim>\<open>Socket\<close>, \<^verbatim>\<open>Acceptor\<close>): system calls in order, addresses, ownership of descriptors.
  \<^item> \<open>Workers\<close> (\<^verbatim>\<open>ThreadPool\<close>): worker threads, sleeping and waking, the destructor. \<open>Loop_Threads\<close>: \<^verbatim>\<open>EventLoop\<close> with threads
    that post functions and make it quit. \<open>Reactors\<close>: \<^verbatim>\<open>TcpServer\<close> with sub reactors, one such loop each.
    \<open>Tracer\<close> (\<^verbatim>\<open>OtlpHttpJsonTracer\<close>, \<^verbatim>\<open>JsonlAuditLog\<close>): the export of spans by a worker and the destructor that waits for it.
  \<^item> \<open>Governor\<close> (\<^verbatim>\<open>LocalGovernor\<close>): permits per tool and agent with waiting queues. \<open>InFlight\<close>, \<open>Health\<close>
    (\<^verbatim>\<open>CountCircuit\<close>, \<^verbatim>\<open>ProbeHealth\<close>, \<^verbatim>\<open>RetryPolicy\<close>), \<open>Tasks\<close>, \<open>Grants\<close>, \<open>Observe\<close> (counters, tracer, audit, worker
    pool): the stores of the pipeline.
  \<^item> \<open>Call\<close>, \<open>Admit\<close>, \<open>Pipeline\<close> (\<^verbatim>\<open>src/pipeline/Pipeline.cpp\<close>): the life of a call from its permit to its destructor, and
    the request handlers. \<open>Gateway\<close>, \<open>Boot\<close> (\<^verbatim>\<open>src/cli/Gateway.cpp\<close>): the state machine \<open>gw_reach\<close>, construction, start.
  \<^item> \<open>Http_Front\<close> (\<^verbatim>\<open>src/frontend/HttpMcp.cpp\<close>): sessions, parser callbacks, routing, the envelope, delivery of answers; its
    state machine \<open>http_reach\<close> contains that of the gateway. \<open>Wire\<close>: the front end on top of its connections. \<open>Cli\<close> (\<^verbatim>\<open>src/cli/Cli.cpp\<close>, \<^verbatim>\<open>Endpoint\<close>): the commands.
  \<^item> \<open>Sample_World\<close>, \<open>Forward\<close>, \<open>Stop\<close>, \<open>Pipeline_Laws\<close>, \<open>Http_Laws\<close>, \<open>Http_Limits\<close>: properties that need several of these, and the concrete
    state of the witnesses. This theory: the properties of whole runs.

  \<^bold>\<open>What is shown.\<close> Runs: every request is answered at most once, and exactly once when nothing is left to do; permits held
  are the existing calls; stopping answers everybody; an HTTP connection is busy exactly for its one open
  request, unread input is never forgotten, and only authenticated requests reach the pipeline; a client reads whole answers
  in order, and bodies are bounded. Threads: the pool runs jobs in order, never sleeps on work, and its destructor returns with every job run;
  the loop never sleeps on a posted function and runs them in order; spans are exported once and in order. Components: the governor's
  accounting, limits, time-outs; policy decisions and their independence of secret servers; recognition of repeated
  calls; breaker, task store and grant store; byte order and completeness of a connection's output; the
  table of connections; validity of every loaded configuration; round trips of tool keys and addresses;
  an approval on the command line reaching the running gateway. Where the code does not do what it says,
  a theorem exhibits the behaviour (a trace end point that makes the process hang at its end, jobs that outlive what they work on, a function run on the wrong thread, connections left open by the
  stop of sub reactors, a peer address that makes accept throw, out-of-order flush, output lost by the stop of the server, breaker closed
  without cool-down, grants lost by a refresh, forgotten keys of repeated calls).

  Interfaces are locales, interpreted on the model's own definitions: key-value stores (catalogue, index, tokens), the
  policy, the queue of bytes that the buffer implements, the timers of the loop, the governor, the table of calls in
  flight, the task store, the state kept per server, what every session of the front end keeps.

  \<^bold>\<open>Parameters and bounds.\<close> Code outside the repository is a parameter: nlohmann::json (\<open>J\<close>), yaml-cpp (\<open>Y\<close>), llhttp (\<open>L\<close>), the
  HTTP client (\<open>post\<close>), name lookup (\<open>N\<close>), CLI11 (\<open>parse\<close>). What a theorem needs of one is a hypothesis with a witness. Clocks and the random
  source are arbitrary sequences; results of system calls are lists, and a loop that has used up its list
  has not returned (\<open>None\<close>). A retry whose backend is missing calls itself (\<^verbatim>\<open>fireAttempt\<close> through \<^verbatim>\<open>onUpstream\<close>) without counting
  the attempt; the recursion runs with \<open>kStack\<close> = 10000 nested calls, and a deeper one is the error value
  \<open>StackOverflow\<close>, as the call stack of the process is finite. Backends are never removed and a call only starts for a
  known one, so the recursion does not occur in a gateway made by its constructor; every theorem
  that a handler returns holds with this bound. 64-bit times, 16-bit ranks and ports, 32-bit event masks are words
  and wrap around.

  \<^bold>\<open>Not modelled.\<close> In the state machine of the gateway the jobs of workers are atomic steps; the weak memory of the atomics is not modelled, critical
  sections are interleaved. Of \<^verbatim>\<open>TcpServer\<close>: waiting for the visits of \<^verbatim>\<open>forEachConnection\<close>, and \<^verbatim>\<open>pauseAccept\<close> and \<^verbatim>\<open>stop\<close> from another thread than the
  loop. \<^verbatim>\<open>localIpFor\<close>, which nothing calls; the failing creation of event, timer and poll descriptors; signal handlers; the text written to the standard error stream; benchmarks and tests.
\<close>

section \<open>A run of the sample gateway\<close>

text \<open>One tool call has been forwarded and waits for its server.\<close>

lemma sample_run:
  "\<exists>w c. gw_reach jv_api w {#7#} \<and> w_calls w = [(0, c)] \<and> \<not> cl_responded c \<and> live_complete w \<and>
     cl_permit c = \<lparr>pm_key = sample_key, pm_agentId = ''ann''\<rparr>"
proof -
  obtain w c bc where h: "handle jv_api 0 7 (sample_req ''tools/call'' ''b__t'') sample_world = Inr w" "um_find (w_calls w) 0 = Some c"
    "\<not> cl_responded c" "cl_permit c = \<lparr>pm_key = sample_key, pm_agentId = ''ann''\<rparr>" "registered 0 sample_world w"
    using sample_forward by blast
  have r: "gw_reach jv_api w {#7#}" using gw_reach.request [OF gw_reach.start [OF sample_world_init] h(1)] by simp
  have "distinct (map fst (w_calls w))"
    using gw_reach_inv [OF r] by (simp add: winv_def calls_ok_def calls_part_def split_def comp_def)
  moreover have keys: "set (map fst (w_calls w)) = {0}" using h(5) by (simp add: registered_def sample_world_fields)
  ultimately have "length (w_calls w) = 1" by (metis distinct_card length_map card.empty card.insert empty_iff finite.emptyI One_nat_def)
  then obtain x where x: "w_calls w = [x]" by (cases "w_calls w") auto
  then have "w_calls w = [(0, c)]" using h(2) by (cases x) (auto split: if_splits)
  moreover have "0 \<in> snd ` set (w_live w)" proof -
    obtain iid where "w_live w = um_set iid 0 (w_live sample_world)" using h(5) by (auto simp: registered_def)
    then have "um_find (w_live w) iid = Some 0" by (simp add: um_find_set)
    then show ?thesis by (force dest: map_of_SomeD)
  qed
  ultimately show ?thesis using r h(3,4) by (intro exI [of _ w] exI [of _ c]) (simp add: live_complete_def)
qed

section \<open>Properties of the running gateway\<close>

text \<open>the gateway starts in an initial state of the state machine: if construction and start succeed,
  the first round of the loop succeeds too, the two periodic timers are armed and nobody is owed
  an answer.\<close>

theorem boot_initial:
  assumes "env_loop e = EventLoop_init" "Gateway_make e file cfg = Inr w" "gateway_start J post [] w = Inr (g, w1)"
  shows "\<exists>w2. boot J post e file cfg = Inr w2 \<and> gw_init w2 \<and>
    timerCb w2 1 = Some TProbe \<and> timerCb w2 2 = Some TGrantRefresh"
  using boot_steps [OF assms] by blast

theorem boot_initial_witness: "\<exists>w2. boot jv_api sample_post sample_env None YamlConfig_default = Inr w2 \<and> gw_init w2"
proof -
  have "w_catalog sample_base = []" "gs_file (w_grants sample_base) = None" "\<not> gs_dirty (w_grants sample_base)"
    "gs_lastMtimeNs (w_grants sample_base) = - 1"
    by (simp_all add: sample_base_def Gateway_make_def YamlConfig_default_def JsonlGrantStore_make_def)
  then obtain w0 where "grants_refresh jv_api sample_base = Inr w0" "w_catalog w0 = []"
    by (simp add: grants_refresh_def refreshOnWorker_def nowMs_def)
  then obtain g w1 where "gateway_start jv_api sample_post [] sample_base = Inr (g, w1)"
    by (simp add: gateway_start_def Catalog_names_def Let_def split_beta)
  then show ?thesis
    using boot_initial [of sample_env None YamlConfig_default sample_base jv_api sample_post g w1] sample_base_make
    by (auto simp: sample_env_def)
qed

text \<open>C1: in every reachable state of the gateway no request has been answered twice and no answer was
  made up: the answers are a sub-multiset of the requests. Once no call is in flight and nothing
  waits for admission, every request has been answered exactly once.\<close>

theorem requests_answered_once:
  assumes "gw_reach J w T"
  shows "mset (map fst (w_outs w)) \<subseteq># T \<and>
    (w_calls w = [] \<and> waiting w = {#} \<longrightarrow> mset (map fst (w_outs w)) = T)"
  using gw_reach_inv [OF assms] by (auto simp: owed_def tokens_def)

theorem requests_answered_once_witness:
  "\<exists>w. gw_reach jv_api w {#7#} \<and> mset (map fst (w_outs w)) \<subseteq># {#7#}"
  using sample_run requests_answered_once by blast

text \<open>C2: permits are never lost or duplicated: in every reachable state the permits the governor counts
  as held are those of the calls that exist, in total, per tool and per agent.\<close>

theorem permits_are_calls:
  assumes "gw_reach J w T"
  shows "permitHeld w = int (length (w_calls w)) \<and>
    um_at 0 (gv_toolInUse w) ts = int (length (filter (\<lambda>(a, c). ToolKey_str (pm_key (cl_permit c)) = ts) (w_calls w))) \<and>
    um_at 0 (gv_principalInUse w) ag = int (length (filter (\<lambda>(a, c). pm_agentId (cl_permit c) = ag) (w_calls w)))"
proof -
  have "slots_ok (call_permits w) w" using gw_reach_inv [OF assms] by (simp add: winv_def gov_inv_def)
  moreover have "size (filter_mset P (call_permits w)) = length (filter (\<lambda>(a, c). P (cl_permit c)) (w_calls w))" for P
    by (simp add: call_permits_def calls_part_def split_def comp_def filter_mset_image_mset flip: mset_filter mset_map size_mset)
      (simp add: filter_map comp_def)
  moreover have "size (call_permits w) = length (w_calls w)" by (simp add: call_permits_def calls_part_def)
  ultimately show ?thesis by (simp add: slots_ok_def held_tool_def held_agent_def)
qed

theorem permits_are_calls_witness:
  "\<exists>w. gw_reach jv_api w {#7#} \<and> permitHeld w = 1 \<and> um_at 0 (gv_principalInUse w) ''ann'' = 1"
proof -
  obtain w c where h: "gw_reach jv_api w {#7#}" "w_calls w = [(0, c)]" "cl_permit c = \<lparr>pm_key = sample_key, pm_agentId = ''ann''\<rparr>"
    using sample_run by blast
  then show ?thesis using permits_are_calls [OF h(1)] by (intro exI [of _ w]) simp
qed



end
